(* ===== verification/Prelude.thy ===== *)
theory Prelude
  imports Main "HOL-Library.Word" "HOL-Library.Sublist" "HOL-Library.Char_ord"
begin

text \<open>
  What every component shares: C characters and NUL-terminated strings as lists of bytes, the
  functions of \<open>string.h\<close> and \<open>ctype.h\<close> that the host calls, the faults a run of the C code can
  end in, and the build platform. A C string is the list of its bytes without the terminator; a
  pointer into a string that is being scanned is the suffix that starts there.
\<close>

named_theorems cstr_simps \<open>evaluation of the C string functions\<close>
named_theorems path_simps \<open>normal forms of the path functions\<close>

section \<open>Characters\<close>

type_synonym cstring = string

abbreviation (input) NUL :: char where "NUL \<equiv> CHR 0x00"
abbreviation (input) SLASH :: char where "SLASH \<equiv> CHR 0x2F"
abbreviation (input) BACKSLASH :: char where "BACKSLASH \<equiv> CHR 0x5C"
abbreviation (input) DOT :: char where "DOT \<equiv> CHR 0x2E"

definition code :: "char \<Rightarrow> nat" where
  "code c = of_char c"

definition isupper_c :: "char \<Rightarrow> bool" where
  "isupper_c c \<longleftrightarrow> 65 \<le> code c \<and> code c \<le> 90"

definition islower_c :: "char \<Rightarrow> bool" where
  "islower_c c \<longleftrightarrow> 97 \<le> code c \<and> code c \<le> 122"

definition isalpha_c :: "char \<Rightarrow> bool" where
  "isalpha_c c \<longleftrightarrow> isupper_c c \<or> islower_c c"

definition isdigit_c :: "char \<Rightarrow> bool" where
  "isdigit_c c \<longleftrightarrow> 48 \<le> code c \<and> code c \<le> 57"

definition tolower_c :: "char \<Rightarrow> char" where
  "tolower_c c = (if isupper_c c then char_of (code c + 32) else c)"

definition is_sep :: "char \<Rightarrow> bool" where
  "is_sep c \<longleftrightarrow> c = SLASH \<or> c = BACKSLASH"

lemmas char_defs = code_def isupper_c_def islower_c_def isalpha_c_def isdigit_c_def is_sep_def

lemma is_sep_simps [simp]:
  "is_sep SLASH" "is_sep BACKSLASH" "\<not> is_sep DOT" "\<not> is_sep NUL"
  by (simp_all add: is_sep_def)

section \<open>NUL-terminated strings\<close>

text \<open>The C view of a byte string that may hold NUL bytes, and the well-formed C strings.\<close>

definition c_view :: "string \<Rightarrow> cstring" where
  "c_view s = takeWhile (\<lambda>c. c \<noteq> NUL) s"

definition is_cstring :: "string \<Rightarrow> bool" where
  "is_cstring s \<longleftrightarrow> NUL \<notin> set s"

lemma is_cstring_Nil [simp]: "is_cstring []"
  by (simp add: is_cstring_def)

lemma is_cstring_Cons [simp]: "is_cstring (c # s) \<longleftrightarrow> c \<noteq> NUL \<and> is_cstring s"
  by (auto simp: is_cstring_def)

lemma is_cstring_append [simp]: "is_cstring (s @ t) \<longleftrightarrow> is_cstring s \<and> is_cstring t"
  by (auto simp: is_cstring_def)

lemma c_view_cstring [simp]: "is_cstring s \<Longrightarrow> c_view s = s"
  by (auto simp: c_view_def is_cstring_def takeWhile_eq_all_conv)

lemma is_cstring_c_view [simp]: "is_cstring (c_view s)"
  by (auto simp: c_view_def is_cstring_def dest: set_takeWhileD)

lemma length_c_view: "length (c_view s) \<le> length s"
  by (simp add: c_view_def length_takeWhile_le)

text \<open>\<open>*p\<close>: the byte a pointer points at; at the end of the string it is the terminator.\<close>

definition peek :: "cstring \<Rightarrow> char" where
  "peek s = (case s of [] \<Rightarrow> NUL | c # _ \<Rightarrow> c)"

lemma peek_simps [simp]: "peek [] = NUL" "peek (c # s) = c"
  by (simp_all add: peek_def)

section \<open>The string functions of the C library\<close>

text \<open>\<open>strchr\<close>, \<open>strrchr\<close> and \<open>strstr\<close> return the suffix their result points at.\<close>

primrec strchr :: "cstring \<Rightarrow> char \<Rightarrow> cstring option" where
  "strchr [] c = None"
| "strchr (x # xs) c = (if x = c then Some (x # xs) else strchr xs c)"

primrec strrchr :: "cstring \<Rightarrow> char \<Rightarrow> cstring option" where
  "strrchr [] c = None"
| "strrchr (x # xs) c =
     (case strrchr xs c of
        Some r \<Rightarrow> Some r
      | None \<Rightarrow> if x = c then Some (x # xs) else None)"

primrec strstr :: "cstring \<Rightarrow> cstring \<Rightarrow> cstring option" where
  "strstr [] t = (if t = [] then Some [] else None)"
| "strstr (x # xs) t = (if take (length t) (x # xs) = t then Some (x # xs) else strstr xs t)"

definition strncmp_eq :: "cstring \<Rightarrow> cstring \<Rightarrow> nat \<Rightarrow> bool" where
  \<comment> \<open>\<open>strncmp(a, b, n) == 0\<close>\<close>
  "strncmp_eq a b n \<longleftrightarrow> take n a = take n b"

definition strncasecmp_eq :: "cstring \<Rightarrow> cstring \<Rightarrow> nat \<Rightarrow> bool" where
  \<comment> \<open>\<open>strncasecmp(a, b, n) == 0\<close>\<close>
  "strncasecmp_eq a b n \<longleftrightarrow> map tolower_c (take n a) = map tolower_c (take n b)"

lemma strncmp_prefix: "strncmp_eq s t (length t) \<longleftrightarrow> prefix t s"
  by (auto simp: strncmp_eq_def prefix_def) (metis append_take_drop_id)

lemma take_2_prefix: "take 2 (s :: cstring) = [a, b] \<longleftrightarrow> prefix [a, b] s"
  using strncmp_prefix [of s "[a, b]"] by (simp add: strncmp_eq_def numeral_2_eq_2)

lemma strchr_None: "strchr s c = None \<longleftrightarrow> c \<notin> set s"
  by (induction s) auto

lemma strchr_notin [simp]: "c \<notin> set s \<Longrightarrow> strchr s c = None"
  by (simp add: strchr_None)

lemma strchr_SomeD: "strchr s c = Some r \<Longrightarrow> \<exists>p. s = p @ r \<and> c \<notin> set p \<and> r \<noteq> [] \<and> hd r = c"
proof (induction s)
  case (Cons x xs)
  show ?case
  proof (cases "x = c")
    case True
    with Cons.prems show ?thesis by auto
  next
    case False
    with Cons obtain p where "xs = p @ r" "c \<notin> set p" "r \<noteq> []" "hd r = c" by auto
    with False show ?thesis by (intro exI [of _ "x # p"]) auto
  qed
qed simp

lemma strchr_append [cstr_simps]: "c \<notin> set p \<Longrightarrow> strchr (p @ c # r) c = Some (c # r)"
  by (induction p) auto

lemma strrchr_None: "strrchr s c = None \<longleftrightarrow> c \<notin> set s"
  by (induction s) (auto split: option.splits)

lemma strrchr_notin [simp]: "c \<notin> set s \<Longrightarrow> strrchr s c = None"
  by (simp add: strrchr_None)

lemma strrchr_append [cstr_simps]: "c \<notin> set r \<Longrightarrow> strrchr (p @ c # r) c = Some (c # r)"
proof (induction p)
  case Nil
  then have "strrchr r c = None" by simp
  then show ?case by (simp only: append_Nil strrchr.simps) simp
qed simp

lemma strrchr_SomeD: "strrchr s c = Some r \<Longrightarrow> \<exists>p t. s = p @ c # t \<and> r = c # t \<and> c \<notin> set t"
proof -
  assume r: "strrchr s c = Some r"
  then have "c \<in> set s" using strrchr_None [of s c] by auto
  then obtain p t where s: "s = p @ c # t" "c \<notin> set t" by (metis split_list_last)
  with r show ?thesis by (auto simp: strrchr_append)
qed

lemma strstr_None: "strstr s t = None \<longleftrightarrow> (\<nexists>p q. s = p @ t @ q)"
proof (induction s)
  case (Cons x xs)
  have "(\<exists>p q. x # xs = p @ t @ q) \<longleftrightarrow> take (length t) (x # xs) = t \<or> (\<exists>p q. xs = p @ t @ q)"
  proof
    assume "\<exists>p q. x # xs = p @ t @ q"
    then obtain p q where pq: "x # xs = p @ t @ q" by blast
    show "take (length t) (x # xs) = t \<or> (\<exists>p q. xs = p @ t @ q)"
      using pq by (cases p) auto
  next
    assume "take (length t) (x # xs) = t \<or> (\<exists>p q. xs = p @ t @ q)"
    then show "\<exists>p q. x # xs = p @ t @ q"
    proof
      assume t: "take (length t) (x # xs) = t"
      have "x # xs = take (length t) (x # xs) @ drop (length t) (x # xs)"
        by (simp only: append_take_drop_id)
      then show ?thesis using t by (metis append_Nil)
    qed (metis append_Cons)
  qed
  with Cons show ?case by auto
qed auto

subsection \<open>\<open>strtok\<close>\<close>

text \<open>
  \<open>strtok\<close> skips delimiters, returns the run of bytes up to the next one and continues behind it;
  the tokens of a whole scan are the list below.
\<close>

function strtok_all :: "(char \<Rightarrow> bool) \<Rightarrow> cstring \<Rightarrow> cstring list" where
  "strtok_all d s =
     (case dropWhile d s of
        [] \<Rightarrow> []
      | x # xs \<Rightarrow> takeWhile (\<lambda>c. \<not> d c) (x # xs) # strtok_all d (dropWhile (\<lambda>c. \<not> d c) (x # xs)))"
  by pat_completeness auto
termination
proof (relation "measure (\<lambda>(d, s). length s)", goal_cases)
  case (2 d s x xs)
  have dx: "\<not> d x" and le: "length xs < length s"
    using hd_dropWhile [of d s] length_dropWhile_le [of d s] 2 by (auto simp: 2)
  then have "length (dropWhile (\<lambda>c. \<not> d c) (x # xs)) \<le> length xs"
    by (simp add: length_dropWhile_le)
  with le show ?case by simp
qed simp

declare strtok_all.simps [simp del]

lemma strtok_all_Nil [simp]: "strtok_all d [] = []"
  by (simp add: strtok_all.simps)

lemma strtok_all_delim [simp]: "d c \<Longrightarrow> strtok_all d (c # s) = strtok_all d s"
  using strtok_all.simps [of d "c # s"] strtok_all.simps [of d s] by simp

lemma strtok_all_token:
  assumes "w \<noteq> []" and "\<forall>c \<in> set w. \<not> d c" and "d c"
  shows "strtok_all d (w @ c # s) = w # strtok_all d s"
proof -
  obtain x xs where w: "w = x # xs" using assms(1) by (cases w) auto
  have "dropWhile d (w @ c # s) = w @ c # s" using assms w by simp
  moreover have "takeWhile (\<lambda>c. \<not> d c) (w @ c # s) = w"
    using assms by (simp add: takeWhile_append2 del: takeWhile_eq_all_conv)
  moreover have "dropWhile (\<lambda>c. \<not> d c) (w @ c # s) = c # s"
    using assms by (simp add: dropWhile_append2)
  ultimately show ?thesis
    using assms(3) w by (subst strtok_all.simps) simp
qed

lemma strtok_all_single:
  "w \<noteq> [] \<Longrightarrow> \<forall>c \<in> set w. \<not> d c \<Longrightarrow> strtok_all d w = [w]"
  by (cases w) (simp_all add: strtok_all.simps [of d "_ # _"] takeWhile_eq_all_conv [THEN iffD2]
      dropWhile_eq_Nil_conv [THEN iffD2])

lemma strtok_all_empty: "dropWhile d s = [] \<Longrightarrow> strtok_all d s = []"
  by (simp only: strtok_all.simps [of d s] list.case)

lemma strtok_all_step:
  "dropWhile d s = x # xs \<Longrightarrow>
     strtok_all d s = takeWhile (\<lambda>c. \<not> d c) (x # xs) # strtok_all d (dropWhile (\<lambda>c. \<not> d c) (x # xs))"
  by (simp only: strtok_all.simps [of d s] list.case)

lemma dropWhile_ConsD: "dropWhile d s = x # xs \<Longrightarrow> \<not> d x \<and> length (x # xs) \<le> length s \<and> set (x # xs) \<subseteq> set s"
  using hd_dropWhile [of d s] length_dropWhile_le [of d s] set_dropWhileD [of _ d s] by auto

lemma strtok_all_word: "c \<in> set (strtok_all d s) \<Longrightarrow> c \<noteq> [] \<and> (\<forall>x \<in> set c. \<not> d x) \<and> set c \<subseteq> set s"
proof (induction d s rule: strtok_all.induct)
  case (1 d s)
  show ?case
  proof (cases "dropWhile d s")
    case Nil
    with 1 show ?thesis by (simp only: strtok_all_empty) simp
  next
    case (Cons x xs)
    note x = dropWhile_ConsD [OF Cons]
    let ?w = "takeWhile (\<lambda>c. \<not> d c) (x # xs)" and ?r = "dropWhile (\<lambda>c. \<not> d c) (x # xs)"
    from 1(2) consider "c = ?w" | "c \<in> set (strtok_all d ?r)"
      by (simp only: strtok_all_step [OF Cons]) auto
    then show ?thesis
    proof cases
      case 1
      have "set ?w \<subseteq> set (x # xs)" by (meson set_takeWhileD subsetI)
      with 1 x show ?thesis by (auto dest: set_takeWhileD)
    next
      case 2
      have "set ?r \<subseteq> set (x # xs)" by (meson set_dropWhileD subsetI)
      with "1.IH" [OF Cons 2] x show ?thesis by blast
    qed
  qed
qed

lemma strtok_all_length: "(\<Sum>c\<leftarrow>strtok_all d s. Suc (length c)) \<le> Suc (length s)"
proof (induction "length s" arbitrary: s rule: less_induct)
  case less
  show ?case
  proof (cases "dropWhile d s")
    case Nil
    then show ?thesis by (simp only: strtok_all_empty) simp
  next
    case (Cons x xs)
    note x = dropWhile_ConsD [OF Cons]
    let ?w = "takeWhile (\<lambda>c. \<not> d c) (x # xs)" and ?r = "dropWhile (\<lambda>c. \<not> d c) (x # xs)"
    have "length ?w + length ?r = length (x # xs)" by (metis length_append takeWhile_dropWhile_id)
    with x have le: "length ?w + length ?r \<le> length s" by simp
    have "(\<Sum>c\<leftarrow>strtok_all d ?r. Suc (length c)) \<le> length ?r"
    proof (cases ?r)
      case rCons: (Cons y ys)
      then have "d y" using hd_dropWhile [of "\<lambda>c. \<not> d c" "x # xs"] by simp
      then have "strtok_all d ?r = strtok_all d ys" by (simp only: rCons strtok_all_delim)
      moreover have "length ys < length s" using le x rCons by simp
      ultimately show ?thesis using less [of ys] rCons by simp
    qed (simp only: strtok_all_Nil, simp)
    with le show ?thesis by (simp only: strtok_all_step [OF Cons]) simp
  qed
qed

section \<open>Faults and results\<close>

text \<open>
  How a call can end other than by returning: a Lua argument error (with the argument's index), a
  Lua error with its message, the two kinds of undefined behaviour that the host's fixed
  buffers allow (an access outside an object and a read of a byte that was never written), and the
  end of the process by a failed assertion.
\<close>

datatype fault =
    BadArgument nat
  | LuaError string
  | OutOfBounds
  | Uninitialised
  | Aborted

text \<open>The size of the \<open>char buffer[0x4000]\<close> that most functions build their result in, and the
  writing of a C string with its terminator into a buffer of \<open>n\<close> bytes.\<close>

definition BUFSIZE :: nat where "BUFSIZE = 0x4000"


definition store :: "nat \<Rightarrow> cstring \<Rightarrow> fault + cstring" where
  "store n s = (if length s < n then Inr s else Inl OutOfBounds)"

lemma store_Inr [simp]: "store n s = Inr t \<longleftrightarrow> length s < n \<and> t = s"
  by (auto simp: store_def)

lemma store_ok [simp]: "length s < n \<Longrightarrow> store n s = Inr s"
  by (simp add: store_def)

section \<open>Platforms\<close>

text \<open>The \<open>PLATFORM_*\<close> a build is for; exactly one of the macros is defined.\<close>

datatype platform =
  Linux | Bsd | Macosx | Solaris | Haiku | Aix | Hurd | Cosmo | Windows

end
