(* ===== verification/Lua_API.thy ===== *)
theory Lua_API
  imports Prelude
begin

text \<open>
  The part of the Lua 5.3 C API that the host's built-in functions use, as far as its results are
  concerned: the values a script passes in and gets back, the argument checks of \<open>lauxlib\<close>, raw
  table access and the conversions. A built-in function of type \<open>int f(lua_State* L)\<close> is a HOL
  function from the argument list (stack slots 1, 2, ...) to the values it leaves as results, or to
  the fault that ends the call.

  Tables are values: the list of their entries in the order \<open>lua_next\<close> visits them. That order is
  unspecified in Lua, so a statement about a table holds for every order of its entries. Floats are
  restricted to integral values, the only ones the host creates.
\<close>

section \<open>Values\<close>

datatype lval =
    LNil
  | LBool bool
  | LInt int
  | LNum int
  | LStr string
  | LTable "(lval \<times> lval) list"
  | LFun string
  | LUser nat

type_synonym lua_ret = "fault + lval list"

section \<open>Sequencing of fallible steps\<close>

definition bind_f :: "fault + 'a \<Rightarrow> ('a \<Rightarrow> fault + 'b) \<Rightarrow> fault + 'b" where
  "bind_f r f = (case r of Inl e \<Rightarrow> Inl e | Inr x \<Rightarrow> f x)"

lemma bind_f_simps [simp]: "bind_f (Inl e) f = Inl e" "bind_f (Inr x) f = f x"
  by (simp_all add: bind_f_def)

lemma bind_f_Inr_iff: "bind_f r f = Inr y \<longleftrightarrow> (\<exists>x. r = Inr x \<and> f x = Inr y)"
  by (cases r) simp_all

lemma bind_f_Inl_iff: "bind_f r f = Inl e \<longleftrightarrow> r = Inl e \<or> (\<exists>x. r = Inr x \<and> f x = Inl e)"
  by (cases r) simp_all

lemma bind_f_cong [fundef_cong]:
  "r = r' \<Longrightarrow> (\<And>x. r' = Inr x \<Longrightarrow> f x = g x) \<Longrightarrow> bind_f r f = bind_f r' g"
  by (cases r') simp_all

primrec map_f :: "('a \<Rightarrow> fault + 'b) \<Rightarrow> 'a list \<Rightarrow> fault + 'b list" where
  "map_f f [] = Inr []"
| "map_f f (x # xs) = bind_f (f x) (\<lambda>y. bind_f (map_f f xs) (\<lambda>ys. Inr (y # ys)))"

lemma map_f_Inr_iff: "map_f f xs = Inr ys \<longleftrightarrow> list_all2 (\<lambda>x y. f x = Inr y) xs ys"
proof (induction xs arbitrary: ys)
  case (Cons x xs)
  then show ?case by (cases ys) (auto simp: bind_f_Inr_iff)
qed auto

lemma map_f_total: "(\<And>x. x \<in> set xs \<Longrightarrow> f x = Inr (g x)) \<Longrightarrow> map_f f xs = Inr (map g xs)"
  by (induction xs) auto

section \<open>Numbers as strings\<close>

text \<open>\<open>lua_integer2str\<close> (format \<open>%lld\<close>) and \<open>lua_number2str\<close> (format \<open>%.14g\<close>, with \<open>.0\<close> added to
  what looks like an integer).\<close>

fun show_nat :: "nat \<Rightarrow> string" where
  "show_nat n = (if n < 10 then [char_of (48 + n)] else show_nat (n div 10) @ [char_of (48 + n mod 10)])"

declare show_nat.simps [simp del]

definition show_int :: "int \<Rightarrow> string" where
  "show_int i = (if i < 0 then CHR ''-'' # show_nat (nat (- i)) else show_nat (nat i))"

definition show_num :: "int \<Rightarrow> string" where
  "show_num i =
     (let n = nat \<bar>i\<bar>; sign = (if i < 0 then ''-'' else ''''); ds = show_nat n in
      if length ds \<le> 14 then sign @ ds @ ''.0''
      else
        let k = length ds - 14; q = n div 10 ^ k; r = n mod 10 ^ k;
            q' = (if 2 * r > 10 ^ k \<or> 2 * r = 10 ^ k \<and> odd q then q + 1 else q);
            m = (if q' = 10 ^ 14 then 10 ^ 13 else q');
            e = (if q' = 10 ^ 14 then length ds else length ds - 1);
            frac = rev (dropWhile (\<lambda>c. c = CHR ''0'') (rev (tl (show_nat m))))
        in sign @ [hd (show_nat m)] @ (if frac = [] then [] else CHR ''.'' # frac) @ ''e+'' @ show_nat e)"

lemma show_nat_not_Nil [simp]: "show_nat n \<noteq> []"
  by (subst show_nat.simps) simp

lemma show_nat_digits: "c \<in> set (show_nat n) \<Longrightarrow> isdigit_c c"
proof (induction n rule: show_nat.induct)
  case (1 n)
  have dig: "isdigit_c (char_of (48 + d))" if "d < 10" for d :: nat
    using that by (simp add: isdigit_c_def code_def)
  have lt: "n mod 10 < 10" by simp
  show ?case
  proof (cases "n < 10")
    case True
    with 1 show ?thesis by (simp add: show_nat.simps [of n] dig)
  next
    case False
    with 1 show ?thesis by (auto simp: show_nat.simps [of n] dig [OF lt])
  qed
qed

section \<open>Conversions\<close>

text \<open>\<open>lua_tolstring\<close>: strings and numbers convert, everything else gives NULL.\<close>

fun lua_tolstring :: "lval \<Rightarrow> string option" where
  "lua_tolstring (LStr s) = Some s"
| "lua_tolstring (LInt i) = Some (show_int i)"
| "lua_tolstring (LNum i) = Some (show_num i)"
| "lua_tolstring _ = None"

definition lua_tostring :: "lval \<Rightarrow> cstring option" where
  \<comment> \<open>the result as C code sees it, up to the first NUL\<close>
  "lua_tostring v = map_option c_view (lua_tolstring v)"

definition lua_isstring :: "lval \<Rightarrow> bool" where
  "lua_isstring v \<longleftrightarrow> lua_tolstring v \<noteq> None"

fun lua_toboolean :: "lval \<Rightarrow> bool" where
  "lua_toboolean LNil = False"
| "lua_toboolean (LBool b) = b"
| "lua_toboolean _ = True"

fun lua_istable :: "lval \<Rightarrow> bool" where
  "lua_istable (LTable _) = True"
| "lua_istable _ = False"

text \<open>Decimal and hexadecimal integer literals, as \<open>l_str2int\<close> reads them.\<close>

definition isspace_c :: "char \<Rightarrow> bool" where
  "isspace_c c \<longleftrightarrow> c = CHR '' '' \<or> 9 \<le> code c \<and> code c \<le> 13"

definition digit_value :: "char \<Rightarrow> nat option" where
  "digit_value c =
     (if isdigit_c c then Some (code c - 48)
      else if 97 \<le> code (tolower_c c) \<and> code (tolower_c c) \<le> 102 then Some (code (tolower_c c) - 87)
      else None)"

definition digits_value :: "nat \<Rightarrow> string \<Rightarrow> int option" where
  "digits_value b ds =
     (if ds = [] \<or> (\<exists>d \<in> set ds. case digit_value d of None \<Rightarrow> True | Some v \<Rightarrow> b \<le> v) then None
      else Some (int (foldl (\<lambda>a d. a * b + the (digit_value d)) 0 ds)))"

definition to_lua_Integer :: "int \<Rightarrow> int" where
  \<comment> \<open>wraps around a 64-bit \<open>lua_Integer\<close>\<close>
  "to_lua_Integer i = (i + 2 ^ 63) mod 2 ^ 64 - 2 ^ 63"

definition str2int :: "string \<Rightarrow> int option" where
  "str2int s0 =
     (let s = dropWhile isspace_c s0;
          neg = (peek s = CHR ''-'');
          t = (if peek s = CHR ''-'' \<or> peek s = CHR ''+'' then tl s else s);
          d = rev (dropWhile isspace_c (rev t)) in
      if peek d = CHR ''0'' \<and> tolower_c (peek (tl d)) = CHR ''x''
      then map_option (\<lambda>v. to_lua_Integer (if neg then - v else v)) (digits_value 16 (drop 2 d))
      else (case digits_value 10 d of
              None \<Rightarrow> None
            | Some v \<Rightarrow> if v < 2 ^ 63 \<or> neg \<and> v = 2 ^ 63
                        then Some (if neg then - v else v) else None))"

fun lua_tointeger :: "lval \<Rightarrow> int option" where
  "lua_tointeger (LInt i) = Some i"
| "lua_tointeger (LNum i) = (if - (2 ^ 63) \<le> i \<and> i < 2 ^ 63 then Some i else None)"
| "lua_tointeger (LStr s) = str2int s"
| "lua_tointeger _ = None"

section \<open>Formatting\<close>

text \<open>\<open>lua_pushfstring\<close>, whose conversions are \<open>%s\<close>, \<open>%d\<close>, \<open>%I\<close> and \<open>%%\<close> (and others that the host does
  not use); any other one is a Lua error. A missing argument is undefined behaviour.\<close>

datatype fmt_arg = FmtStr "cstring option" | FmtInt int

fun lua_pushfstring :: "string \<Rightarrow> fmt_arg list \<Rightarrow> fault + string" where
  "lua_pushfstring [] xs = Inr []"
| "lua_pushfstring [c] xs =
     (if c = CHR ''%'' then Inl (LuaError ''invalid conversion to lua_pushfstring'') else Inr [c])"
| "lua_pushfstring (c # d # fmt) xs =
     (if c \<noteq> CHR ''%'' then map_sum id ((#) c) (lua_pushfstring (d # fmt) xs)
      else if d = CHR ''%'' then map_sum id ((#) d) (lua_pushfstring fmt xs)
      else if d = CHR ''s'' then
        (case xs of
           FmtStr s # ys \<Rightarrow>
             map_sum id ((@) (case s of None \<Rightarrow> ''(null)'' | Some s \<Rightarrow> s)) (lua_pushfstring fmt ys)
         | _ \<Rightarrow> Inl Uninitialised)
      else if d = CHR ''d'' \<or> d = CHR ''I'' then
        (case xs of
           FmtInt i # ys \<Rightarrow> map_sum id ((@) (show_int i)) (lua_pushfstring fmt ys)
         | _ \<Rightarrow> Inl Uninitialised)
      else Inl (LuaError ''invalid conversion to lua_pushfstring''))"

section \<open>Arguments\<close>

definition arg :: "lval list \<Rightarrow> nat \<Rightarrow> lval option" where
  \<comment> \<open>the value in stack slot \<open>i\<close>, \<open>None\<close> for a slot above the top (\<open>LUA_TNONE\<close>)\<close>
  "arg args i = (if 1 \<le> i \<and> i \<le> length args then Some (args ! (i - 1)) else None)"

definition lua_isnoneornil :: "lval list \<Rightarrow> nat \<Rightarrow> bool" where
  "lua_isnoneornil args i \<longleftrightarrow> (case arg args i of None \<Rightarrow> True | Some v \<Rightarrow> v = LNil)"

definition luaL_checklstring :: "lval list \<Rightarrow> nat \<Rightarrow> fault + string" where
  "luaL_checklstring args i =
     (case Option.bind (arg args i) lua_tolstring of Some s \<Rightarrow> Inr s | None \<Rightarrow> Inl (BadArgument i))"

definition luaL_checkstring :: "lval list \<Rightarrow> nat \<Rightarrow> fault + cstring" where
  "luaL_checkstring args i = map_sum id c_view (luaL_checklstring args i)"

definition luaL_optstring :: "lval list \<Rightarrow> nat \<Rightarrow> fault + cstring option" where
  \<comment> \<open>\<open>luaL_optstring(L, i, NULL)\<close>\<close>
  "luaL_optstring args i =
     (if lua_isnoneornil args i then Inr None else map_sum id Some (luaL_checkstring args i))"

definition luaL_checkinteger :: "lval list \<Rightarrow> nat \<Rightarrow> fault + int" where
  "luaL_checkinteger args i =
     (case Option.bind (arg args i) lua_tointeger of Some n \<Rightarrow> Inr n | None \<Rightarrow> Inl (BadArgument i))"

definition luaL_optinteger :: "lval list \<Rightarrow> nat \<Rightarrow> int \<Rightarrow> fault + int" where
  "luaL_optinteger args i d = (if lua_isnoneornil args i then Inr d else luaL_checkinteger args i)"

lemmas arg_defs =
  arg_def lua_isnoneornil_def luaL_checklstring_def luaL_checkstring_def luaL_optstring_def
  luaL_checkinteger_def luaL_optinteger_def

lemma luaL_checkstring_str1 [simp]:
  "luaL_checkstring (LStr s # rest) 1 = Inr (c_view s)"
  "luaL_checkstring (LStr s # rest) (Suc 0) = Inr (c_view s)"
  by (simp_all add: arg_defs)

lemma luaL_checkstring_str2 [simp]: "luaL_checkstring (v # LStr s # rest) 2 = Inr (c_view s)"
  by (simp add: arg_defs)

lemma luaL_checkstring_cases:
  obtains s where "luaL_checkstring args i = Inr s" "is_cstring s"
        | "luaL_checkstring args i = Inl (BadArgument i)"
  by (cases "Option.bind (arg args i) lua_tolstring") (auto simp: luaL_checkstring_def luaL_checklstring_def)

section \<open>Tables\<close>

definition norm_key :: "lval \<Rightarrow> lval" where
  "norm_key k = (case k of LNum i \<Rightarrow> LInt i | _ \<Rightarrow> k)"

definition rawget :: "(lval \<times> lval) list \<Rightarrow> lval \<Rightarrow> lval" where
  "rawget t k = (case map_of t (norm_key k) of None \<Rightarrow> LNil | Some v \<Rightarrow> v)"

definition rawgeti :: "(lval \<times> lval) list \<Rightarrow> nat \<Rightarrow> lval" where
  "rawgeti t i = rawget t (LInt (int i))"

definition rawlen :: "lval \<Rightarrow> nat" where
  "rawlen v =
     (case v of
        LTable t \<Rightarrow> length (takeWhile (\<lambda>i. rawgeti t i \<noteq> LNil) [1..<length t + 2])
      | LStr s \<Rightarrow> length s
      | _ \<Rightarrow> 0)"

text \<open>The table \<open>{ v1, v2, ... }\<close> that a sequence of \<open>lua_rawseti\<close> builds.\<close>

primrec array_from :: "nat \<Rightarrow> lval list \<Rightarrow> (lval \<times> lval) list" where
  "array_from m [] = []"
| "array_from m (v # vs) = (LInt (int m), v) # array_from (Suc m) vs"

definition lua_array :: "lval list \<Rightarrow> lval" where
  "lua_array vs = LTable (array_from 1 vs)"

lemma length_array_from [simp]: "length (array_from m vs) = length vs"
  by (induction vs arbitrary: m) auto

lemma map_snd_array_from [simp]: "map snd (array_from m vs) = vs"
  by (induction vs arbitrary: m) auto

lemma map_of_array_from:
  "map_of (array_from m vs) (LInt (int k)) =
     (if m \<le> k \<and> k < m + length vs then Some (vs ! (k - m)) else None)"
  by (induction vs arbitrary: m) (auto simp: nth_Cons' Suc_diff_Suc)

lemma rawgeti_array_from:
  "rawgeti (array_from 1 vs) k = (if 1 \<le> k \<and> k \<le> length vs then vs ! (k - 1) else LNil)"
  by (simp add: rawgeti_def rawget_def norm_key_def map_of_array_from del: One_nat_def)

lemma rawlen_lua_array:
  assumes "LNil \<notin> set vs"
  shows "rawlen (lua_array vs) = length vs"
proof -
  have split: "[1..<length vs + 2] = [1..<length vs + 1] @ [length vs + 1]"
    by (simp add: upt_Suc_append del: upt_Suc)
  have "vs ! (k - 1) \<noteq> LNil" if "1 \<le> k" "k \<le> length vs" for k
  proof -
    have "k - 1 < length vs" using that by linarith
    then have "vs ! (k - 1) \<in> set vs" by (rule nth_mem)
    with assms show ?thesis by metis
  qed
  then have "takeWhile (\<lambda>i. rawgeti (array_from 1 vs) i \<noteq> LNil) [1..<length vs + 2] = [1..<length vs + 1]"
    unfolding split
    by (subst takeWhile_append2) (auto simp: rawgeti_array_from simp del: upt_Suc One_nat_def)
  then show ?thesis by (simp add: rawlen_def lua_array_def del: upt_Suc)
qed

end
