(* ===== verification/Path_Absolute.thy ===== *)
theory Path_Absolute
  imports Lua_API
begin

text \<open>
  \<open>src/host/path_isabsolute.c\<close>: the classification of a path as relative, absolute, or dependent
  on a token that is expanded later. \<open>abs_spec\<close> is a grammar of the absolute paths, and the scanner
  of the C code is shown to accept exactly that grammar.
\<close>

section \<open>The classifier\<close>

datatype join_type = JOIN_RELATIVE | JOIN_ABSOLUTE | JOIN_MAYBE_ABSOLUTE

fun join_code :: "join_type \<Rightarrow> int" where
  "join_code JOIN_RELATIVE = 0"
| "join_code JOIN_ABSOLUTE = 1"
| "join_code JOIN_MAYBE_ABSOLUTE = 2"

definition skip_marks :: "cstring \<Rightarrow> cstring" where
  "skip_marks = dropWhile (\<lambda>c. c = CHR 0x22 \<or> c = CHR ''!'')"

definition macro_char :: "char \<Rightarrow> bool" where
  "macro_char c \<longleftrightarrow> isalpha_c c \<or> isdigit_c c \<or> c = CHR ''_'' \<or> c = DOT"

definition envvar_char :: "char \<Rightarrow> bool" where
  "envvar_char c \<longleftrightarrow> isalpha_c c \<or> isdigit_c c \<or> c = CHR ''_''"

definition vs_text_macro :: "cstring \<Rightarrow> nat \<Rightarrow> bool" where
  \<comment> \<open>the VS macros \<open>%(Filename)\<close> and \<open>%(Extension)\<close>, which stand for text\<close>
  "vs_text_macro path len \<longleftrightarrow>
     len = 8 \<and> strncasecmp_eq path ''Filename)'' len \<or>
     len = 9 \<and> strncasecmp_eq path ''Extension)'' len"

definition do_absolutetype :: "cstring \<Rightarrow> join_type" where
  "do_absolutetype s =
     (let path = skip_marks s; c0 = peek path; c1 = peek (tl path) in
      if c0 = SLASH \<or> c0 = BACKSLASH then JOIN_ABSOLUTE
      else if isalpha_c c0 \<and> c1 = CHR '':'' then JOIN_ABSOLUTE
      else if (c0 = CHR ''%'' \<or> c0 = CHR ''$'') \<and> c1 = CHR ''('' then
        (case strchr (drop 2 path) (CHR '')'') of
           None \<Rightarrow> JOIN_RELATIVE
         | Some closing \<Rightarrow>
             let p = drop 2 path; len = length p - length closing in
             if c0 = CHR ''%'' \<and> vs_text_macro p len then JOIN_RELATIVE
             else if list_all macro_char (take len p) then JOIN_ABSOLUTE
             else JOIN_RELATIVE)
      else if c0 = CHR ''$'' then JOIN_ABSOLUTE
      else if c0 = CHR ''%'' then
        (if c1 = CHR ''{'' \<and> strchr (drop 2 path) (CHR ''}'') \<noteq> None then JOIN_MAYBE_ABSOLUTE
         else
           (case strchr (tl path) (CHR ''%'') of
              None \<Rightarrow> JOIN_RELATIVE
            | Some closing \<Rightarrow>
                let p = tl path; len = length p - length closing in
                if len = 0 then JOIN_RELATIVE
                else if list_all envvar_char (take len p) then JOIN_ABSOLUTE
                else JOIN_RELATIVE))
      else JOIN_RELATIVE)"

definition do_isabsolute :: "cstring \<Rightarrow> bool" where
  "do_isabsolute path \<longleftrightarrow> join_code (do_absolutetype path) = 1"

definition path_isabsolute :: "lval list \<Rightarrow> lua_ret" where
  "path_isabsolute args =
     bind_f (luaL_checkstring args (length args)) (\<lambda>path. Inr [LBool (do_isabsolute path)])"

definition path_absolutetype :: "lval list \<Rightarrow> lua_ret" where
  "path_absolutetype args =
     bind_f (luaL_checkstring args (length args)) (\<lambda>path. Inr [LInt (join_code (do_absolutetype path))])"

section \<open>The grammar of absolute paths\<close>

definition marks :: "cstring \<Rightarrow> bool" where
  "marks q \<longleftrightarrow> (\<forall>c \<in> set q. c = CHR 0x22 \<or> c = CHR ''!'')"

definition text_macro_name :: "cstring \<Rightarrow> bool" where
  "text_macro_name n \<longleftrightarrow> map tolower_c n = ''filename'' \<or> map tolower_c n = ''extension''"

inductive abs_root :: "cstring \<Rightarrow> bool" where
  slash: "abs_root (SLASH # t)"
| backslash: "abs_root (BACKSLASH # t)"
| drive: "isalpha_c a \<Longrightarrow> abs_root (a # CHR '':'' # t)"
| dollar_macro: "\<forall>c \<in> set n. macro_char c \<Longrightarrow> abs_root (''$('' @ n @ '')'' @ t)"
| percent_macro: "\<forall>c \<in> set n. macro_char c \<Longrightarrow> \<not> text_macro_name n \<Longrightarrow>
    abs_root (''%('' @ n @ '')'' @ t)"
| dollar_variable: "peek t \<noteq> CHR ''('' \<Longrightarrow> abs_root (CHR ''$'' # t)"
| percent_variable: "n \<noteq> [] \<Longrightarrow> \<forall>c \<in> set n. envvar_char c \<Longrightarrow> abs_root (''%'' @ n @ ''%'' @ t)"

definition abs_spec :: "cstring \<Rightarrow> bool" where
  "abs_spec s \<longleftrightarrow> (\<exists>q r. s = q @ r \<and> marks q \<and> abs_root r)"

section \<open>The classifier accepts the grammar\<close>

lemma isalpha_tolower_eq: "n = map tolower_c m \<Longrightarrow> length n = length m"
  by simp

lemma macro_char_not_close: "macro_char c \<Longrightarrow> c \<noteq> CHR '')''"
  by (auto simp: macro_char_def char_defs)

lemma envvar_char_not: "envvar_char c \<Longrightarrow> c \<noteq> CHR ''%'' \<and> c \<noteq> CHR ''('' \<and> c \<noteq> CHR ''{''"
  by (auto simp: envvar_char_def char_defs)

lemma isalpha_not: "isalpha_c c \<Longrightarrow> c \<noteq> SLASH \<and> c \<noteq> BACKSLASH \<and> c \<noteq> CHR ''$'' \<and> c \<noteq> CHR ''%''
    \<and> c \<noteq> CHR 0x22 \<and> c \<noteq> CHR ''!'' \<and> c \<noteq> NUL"
  by (auto simp: char_defs)

text \<open>The name between \<open>(\<close> and the first \<open>)\<close>, as the C code delimits it.\<close>

lemma strchr_split:
  "strchr s c = Some closing \<longleftrightarrow> (\<exists>n t. s = n @ c # t \<and> c \<notin> set n \<and> closing = c # t)"
  by (auto dest!: strchr_SomeD simp: strchr_append) (metis hd_Cons_tl)

lemma tolower_macro_names:
  "map tolower_c ''Filename'' = ''filename''" "map tolower_c ''Extension'' = ''extension''"
  by code_simp+

lemma strncasecmp_name:
  assumes "length m = k" and "map tolower_c m = w"
  shows "length n = k \<and> strncasecmp_eq (n @ t) (m @ u) (length n) \<longleftrightarrow> map tolower_c n = w"
proof (cases "length n = k")
  case True
  with assms show ?thesis by (simp add: strncasecmp_eq_def)
next
  case False
  with assms show ?thesis by (metis length_map)
qed

lemma vs_text_macro_name:
  "vs_text_macro (n @ CHR '')'' # t) (length n) \<longleftrightarrow> text_macro_name n"
proof -
  have f: "length n = 8 \<and> strncasecmp_eq (n @ CHR '')'' # t) (''Filename'' @ '')'') (length n)
      \<longleftrightarrow> map tolower_c n = ''filename''"
    by (rule strncasecmp_name) (simp, rule tolower_macro_names)
  have e: "length n = 9 \<and> strncasecmp_eq (n @ CHR '')'' # t) (''Extension'' @ '')'') (length n)
      \<longleftrightarrow> map tolower_c n = ''extension''"
    by (rule strncasecmp_name) (simp, rule tolower_macro_names)
  show ?thesis
    using f e unfolding vs_text_macro_def text_macro_name_def append.simps by simp
qed

lemma skip_marks_decomp: "\<exists>q. s = q @ skip_marks s \<and> marks q"
  unfolding skip_marks_def marks_def
  by (rule exI [of _ "takeWhile (\<lambda>c. c = CHR 0x22 \<or> c = CHR ''!'') s"]) (auto dest: set_takeWhileD)

lemma skip_marks_append:
  assumes "marks q" and "r = [] \<or> peek r \<noteq> CHR 0x22 \<and> peek r \<noteq> CHR ''!''"
  shows "skip_marks (q @ r) = r"
  using assms by (cases r) (auto simp: skip_marks_def marks_def dropWhile_append2)

inductive_simps abs_root_Nil: "abs_root []"
inductive_simps abs_root_Cons: "abs_root (c # t)"

lemma abs_root_not_mark: "abs_root r \<Longrightarrow> peek r \<noteq> CHR 0x22 \<and> peek r \<noteq> CHR ''!''"
  by (cases rule: abs_root.cases) (auto simp: isalpha_not)

lemma abs_spec_skip: "abs_spec s \<longleftrightarrow> abs_root (skip_marks s)"
  unfolding abs_spec_def
  by (metis abs_root_not_mark skip_marks_append skip_marks_decomp)

text \<open>What the scanner decides behind each prefix.\<close>

lemma scan_macro:
  "(case strchr p (CHR '')'') of None \<Rightarrow> False
    | Some closing \<Rightarrow> \<not> (b \<and> vs_text_macro p (length p - length closing))
        \<and> list_all macro_char (take (length p - length closing) p))
   \<longleftrightarrow> (\<exists>n t. p = n @ CHR '')'' # t \<and> (\<forall>c \<in> set n. macro_char c) \<and> \<not> (b \<and> text_macro_name n))"
  (is "?scan \<longleftrightarrow> ?gram")
proof
  assume ?scan
  then obtain closing where c: "strchr p (CHR '')'') = Some closing" by (auto split: option.splits)
  then obtain n t where p: "p = n @ CHR '')'' # t" "closing = CHR '')'' # t"
    by (auto simp: strchr_split)
  with \<open>?scan\<close> c show ?gram
    by (auto simp: vs_text_macro_name list_all_iff)
next
  assume ?gram
  then obtain n t where p: "p = n @ CHR '')'' # t" and n: "\<forall>c \<in> set n. macro_char c"
      and b: "\<not> (b \<and> text_macro_name n)" by blast
  from n have "CHR '')'' \<notin> set n" using macro_char_not_close by auto
  then have "strchr p (CHR '')'') = Some (CHR '')'' # t)" unfolding p by (rule strchr_append)
  with p n b show ?scan by (auto simp: vs_text_macro_name list_all_iff)
qed

lemma scan_envvar:
  "(case strchr p (CHR ''%'') of None \<Rightarrow> False
    | Some closing \<Rightarrow> length p - length closing \<noteq> 0
        \<and> list_all envvar_char (take (length p - length closing) p))
   \<longleftrightarrow> (\<exists>n t. n \<noteq> [] \<and> p = n @ CHR ''%'' # t \<and> (\<forall>c \<in> set n. envvar_char c))"
  (is "?scan \<longleftrightarrow> ?gram")
proof
  assume ?scan
  then obtain closing where c: "strchr p (CHR ''%'') = Some closing" by (auto split: option.splits)
  then obtain n t where p: "p = n @ CHR ''%'' # t" "closing = CHR ''%'' # t"
    by (auto simp: strchr_split)
  with \<open>?scan\<close> c show ?gram by (auto simp: list_all_iff)
next
  assume ?gram
  then obtain n t where p: "p = n @ CHR ''%'' # t" and n: "\<forall>c \<in> set n. envvar_char c" "n \<noteq> []"
    by blast
  from n have "CHR ''%'' \<notin> set n" using envvar_char_not by auto
  then have "strchr p (CHR ''%'') = Some (CHR ''%'' # t)" unfolding p by (rule strchr_append)
  with p n show ?scan by (auto simp: list_all_iff)
qed

text \<open>The prefixes are told apart by the first two bytes.\<close>

lemma abs_root_dollar:
  "abs_root (CHR ''$'' # t) \<longleftrightarrow> peek t \<noteq> CHR ''('' \<or>
     (\<exists>n u. tl t = n @ CHR '')'' # u \<and> (\<forall>c \<in> set n. macro_char c))"
proof (cases "peek t = CHR ''(''")
  case True
  then obtain u where "t = CHR ''('' # u" by (cases t) auto
  then show ?thesis by (auto simp: abs_root_Cons char_defs)
qed (simp add: abs_root.dollar_variable)

lemma abs_root_percent:
  "abs_root (CHR ''%'' # t) \<longleftrightarrow>
     (if peek t = CHR ''(''
      then (\<exists>n u. tl t = n @ CHR '')'' # u \<and> (\<forall>c \<in> set n. macro_char c) \<and> \<not> text_macro_name n)
      else (\<exists>n u. n \<noteq> [] \<and> t = n @ CHR ''%'' # u \<and> (\<forall>c \<in> set n. envvar_char c)))"
proof (cases t)
  case Nil
  then show ?thesis by (auto simp: abs_root_Cons char_defs)
next
  case (Cons c u)
  have "n \<noteq> [] \<Longrightarrow> c # u = n @ CHR ''%'' # v \<Longrightarrow> (\<forall>x \<in> set n. envvar_char x) \<Longrightarrow> c \<noteq> CHR ''(''" for n v
    using envvar_char_not by (cases n) auto
  with Cons show ?thesis by (auto simp: abs_root_Cons char_defs)
qed

lemma abs_root_other:
  "c \<noteq> CHR ''$'' \<Longrightarrow> c \<noteq> CHR ''%'' \<Longrightarrow>
     abs_root (c # t) \<longleftrightarrow> c = SLASH \<or> c = BACKSLASH \<or> isalpha_c c \<and> peek t = CHR '':''"
  by (cases t) (auto simp: abs_root_Cons)

lemma isalpha_not_percent: "\<not> isalpha_c (CHR ''%'')" "\<not> isalpha_c (CHR ''$'')"
  by (simp_all add: char_defs)

lemma absolutetype_root:
  "do_absolutetype s = JOIN_ABSOLUTE \<longleftrightarrow> abs_root (skip_marks s)"
proof (cases "skip_marks s")
  case Nil
  then show ?thesis by (auto simp: do_absolutetype_def abs_root_Nil char_defs)
next
  case (Cons c t)
  consider (d) "c = CHR ''$''" | (p) "c = CHR ''%''" | (o) "c \<noteq> CHR ''$''" "c \<noteq> CHR ''%''" by blast
  then show ?thesis
  proof cases
    case d
    with Cons scan_macro [where p = "tl t" and b = False] show ?thesis
      by (cases "strchr (tl t) (CHR '')'')")
        (auto simp: do_absolutetype_def Let_def abs_root_dollar char_defs drop_Suc)
  next
    case p
    consider (m) u where "t = CHR ''('' # u" | (v) "peek t \<noteq> CHR ''(''" by (cases t) auto
    then show ?thesis
    proof cases
      case m
      with p Cons scan_macro [where p = u and b = True] show ?thesis
        by (cases "strchr u (CHR '')'')")
          (auto simp: do_absolutetype_def Let_def abs_root_percent isalpha_not_percent)
    next
      case v
      have "\<not> (\<exists>n u. n \<noteq> [] \<and> t = n @ CHR ''%'' # u \<and> (\<forall>x \<in> set n. envvar_char x))"
        if "peek t = CHR ''{''"
        using that envvar_char_not by (metis append_is_Nil_conv hd_append hd_in_set list.collapse peek_simps(2))
      with v p Cons scan_envvar [where p = t] show ?thesis
        by (cases "strchr t (CHR ''%'')"; cases "peek t = CHR ''{''")
          (auto simp: do_absolutetype_def Let_def abs_root_percent isalpha_not_percent)
    qed
  next
    case o
    with Cons show ?thesis by (auto simp: do_absolutetype_def Let_def abs_root_other)
  qed
qed

lemma absolutetype_maybe:
  "do_absolutetype s = JOIN_MAYBE_ABSOLUTE \<longleftrightarrow> (\<exists>t. skip_marks s = ''%{'' @ t \<and> CHR ''}'' \<in> set t)"
proof -
  have ex: "(\<exists>t. p = ''%{'' @ t \<and> CHR ''}'' \<in> set t) \<longleftrightarrow>
      peek p = CHR ''%'' \<and> peek (tl p) = CHR ''{'' \<and> CHR ''}'' \<in> set (drop 2 p)" for p
    by (cases p; cases "tl p") auto
  let ?p = "skip_marks s"
  have "do_absolutetype s = JOIN_MAYBE_ABSOLUTE \<longleftrightarrow>
      peek ?p = CHR ''%'' \<and> peek (tl ?p) = CHR ''{'' \<and> strchr (drop 2 ?p) (CHR ''}'') \<noteq> None"
    by (auto simp: do_absolutetype_def Let_def isalpha_not_percent split: option.splits)
  then show ?thesis unfolding ex by (simp only: strchr_None not_not)
qed

text \<open>A path that starts with a token in braces, so that it is absolute or not by its expansion.\<close>

definition maybe_spec :: "cstring \<Rightarrow> bool" where
  "maybe_spec s \<longleftrightarrow> (\<exists>q t. s = q @ ''%{'' @ t \<and> marks q \<and> CHR ''}'' \<in> set t)"

lemma maybe_spec_skip: "maybe_spec s \<longleftrightarrow> do_absolutetype s = JOIN_MAYBE_ABSOLUTE"
proof
  assume "maybe_spec s"
  then show "do_absolutetype s = JOIN_MAYBE_ABSOLUTE"
    unfolding maybe_spec_def absolutetype_maybe by (auto simp: skip_marks_append)
next
  assume "do_absolutetype s = JOIN_MAYBE_ABSOLUTE"
  then obtain t where t: "skip_marks s = ''%{'' @ t" "CHR ''}'' \<in> set t"
    unfolding absolutetype_maybe by blast
  from skip_marks_decomp [of s] obtain q where "s = q @ skip_marks s" "marks q" by blast
  with t show "maybe_spec s" unfolding maybe_spec_def by metis
qed

text \<open>C18: \<open>path.isabsolute\<close> and \<open>path.absolutetype\<close> decide the grammar of absolute paths: the
  answer is 1 exactly for a path of the grammar (a root, a drive, a \<open>$(..)\<close>, \<open>%(..)\<close> or \<open>%..%\<close>
  macro, after quotes and exclamation marks), 2 exactly for a path that starts with a closed
  \<open>%{..}\<close> token, and 0 for every other string.\<close>

theorem absolutetype_grammar:
  "path_isabsolute [LStr s] = Inr [LBool (abs_spec (c_view s))] \<and>
   path_absolutetype [LStr s] =
     Inr [LInt (if abs_spec (c_view s) then 1 else if maybe_spec (c_view s) then 2 else 0)]"
  unfolding path_isabsolute_def path_absolutetype_def do_isabsolute_def abs_spec_skip
    absolutetype_root [symmetric] maybe_spec_skip
  by (cases "do_absolutetype (c_view s)") simp_all

end
