(* ===== verification/Path_Join.thy ===== *)
theory Path_Join
  imports Path_Absolute
begin

text \<open>
  \<open>src/host/path_join.c\<close>: joining path segments, the joins deferred to token expansion, and their
  resolution. The code appends to a stack buffer of 0x4000 bytes through a pointer \<open>ptr\<close>; its state
  is the string written so far, and \<open>None\<close> while nothing has been written, since the buffer is not
  initialised. \<open>ptr\<close> always points at the terminator of that string.
\<close>

section \<open>Joining one segment\<close>

definition DEFERRED_JOIN_DELIMITER :: char where "DEFERRED_JOIN_DELIMITER = CHR 0x07"

function strip_dot_slash :: "cstring \<Rightarrow> cstring" where
  "strip_dot_slash s = (if strncmp_eq s ''./'' 2 then strip_dot_slash (drop 2 s) else s)"
  by pat_completeness auto
termination
proof (relation "measure length", goal_cases)
  case (2 s)
  then show ?case by (cases s) (auto simp: strncmp_eq_def)
qed simp

declare strip_dot_slash.simps [simp del]

fun strip_slashes :: "cstring \<Rightarrow> cstring" where
  "strip_slashes s = (if 1 < length s \<and> last s = SLASH then strip_slashes (butlast s) else s)"

declare strip_slashes.simps [simp del]

text \<open>The last segment of the buffer and what precedes it, as \<open>strrchr\<close> finds them.\<close>

definition last_segment :: "cstring \<Rightarrow> cstring" where
  "last_segment buf = (case strrchr buf SLASH of None \<Rightarrow> buf | Some r \<Rightarrow> tl r)"

definition drop_segment :: "cstring \<Rightarrow> cstring" where
  "drop_segment buf =
     (case strrchr buf SLASH of None \<Rightarrow> [] | Some r \<Rightarrow> take (length buf - length r) buf)"

definition untrimmable :: "cstring \<Rightarrow> bool" where
  "untrimmable start \<longleftrightarrow>
     start = ''..'' \<or> start = ''.'' \<or> strstr start ''**'' \<noteq> None \<or> strchr start (CHR ''$'') \<noteq> None"

lemma length_drop_segment: "buf \<noteq> [] \<Longrightarrow> length (drop_segment buf) < length buf"
  by (auto simp: drop_segment_def dest: strrchr_SomeD split: option.splits)

function trim_parents :: "cstring \<Rightarrow> cstring \<Rightarrow> cstring \<times> cstring" where
  "trim_parents buf seg =
     (if buf \<noteq> [] \<and> 2 \<le> length seg \<and> take 2 seg = ''..'' then
        if untrimmable (last_segment buf) then (buf, seg)
        else
          let rest = drop 2 seg in
          trim_parents (drop_segment buf) (if peek rest = SLASH then tl rest else rest)
      else (buf, seg))"
  by pat_completeness auto
termination
  by (relation "measure (\<lambda>(buf, seg). length buf)") (auto simp: length_drop_segment)

declare trim_parents.simps [simp del]

definition path_join_single :: "cstring option \<Rightarrow> cstring \<Rightarrow> bool \<Rightarrow> fault + cstring option" where
  "path_join_single buffer part0 allowDeferredJoin =
     (let part = strip_dot_slash part0; seg = strip_slashes part in
      if seg = [] \<or> seg = ''.'' then Inr buffer
      else
        let content = (case buffer of None \<Rightarrow> [] | Some s \<Rightarrow> s);
            ty0 = do_absolutetype part;
            ty = (if \<not> allowDeferredJoin \<and> ty0 = JOIN_MAYBE_ABSOLUTE then JOIN_RELATIVE else ty0);
            (pre, new) =
              (case ty of
                 JOIN_ABSOLUTE \<Rightarrow> ([], seg)
               | JOIN_RELATIVE \<Rightarrow>
                   (let (buf, rest) = trim_parents content seg in
                    (if buf \<noteq> [] \<and> last buf \<noteq> SLASH then buf @ [SLASH] else buf, rest))
               | JOIN_MAYBE_ABSOLUTE \<Rightarrow> (content @ [DEFERRED_JOIN_DELIMITER], seg))
        in map_sum id Some (store BUFSIZE (pre @ new)))"

section \<open>Joining the arguments\<close>

fun join_args :: "nat \<Rightarrow> lval list \<Rightarrow> bool \<Rightarrow> cstring option \<Rightarrow> fault + cstring option" where
  "join_args i [] d buffer = Inr buffer"
| "join_args i (v # vs) d buffer =
     (if v = LNil then join_args (Suc i) vs d buffer
      else
        (case lua_tostring v of
           None \<Rightarrow> Inl (BadArgument i)
         | Some part \<Rightarrow> bind_f (path_join_single buffer part d) (join_args (Suc i) vs d)))"

definition push_buffer :: "cstring option \<Rightarrow> lua_ret" where
  \<comment> \<open>\<open>lua_pushstring(L, buffer)\<close> of a buffer that may never have been written\<close>
  "push_buffer buffer = (case buffer of None \<Rightarrow> Inl Uninitialised | Some s \<Rightarrow> Inr [LStr s])"

definition path_join_internal :: "lval list \<Rightarrow> bool \<Rightarrow> lua_ret" where
  "path_join_internal args allowDeferredJoin =
     bind_f (join_args 1 args allowDeferredJoin None) push_buffer"

definition path_join :: "lval list \<Rightarrow> lua_ret" where
  "path_join args = path_join_internal args False"

definition path_deferred_join :: "lval list \<Rightarrow> lua_ret" where
  "path_deferred_join args = path_join_internal args True"

section \<open>Deferred joins\<close>

definition do_path_has_deferred_join :: "cstring \<Rightarrow> bool" where
  "do_path_has_deferred_join path \<longleftrightarrow> strchr path DEFERRED_JOIN_DELIMITER \<noteq> None"

definition path_has_deferred_join :: "lval list \<Rightarrow> lua_ret" where
  "path_has_deferred_join args =
     bind_f (luaL_checkstring args (length args)) (\<lambda>path. Inr [LBool (do_path_has_deferred_join path)])"

definition strncpy_t :: "nat \<Rightarrow> cstring \<Rightarrow> nat \<Rightarrow> cstring" where
  \<comment> \<open>what the output buffer of \<open>outsz\<close> bytes holds before its terminator\<close>
  "strncpy_t outsz inp insz = take (min (outsz - 1) insz) inp"

primrec split_at :: "char \<Rightarrow> cstring \<Rightarrow> cstring list" where
  "split_at d [] = [[]]"
| "split_at d (c # s) =
     (if c = d then [] # split_at d s
      else (case split_at d s of [] \<Rightarrow> [[c]] | p # ps \<Rightarrow> (c # p) # ps))"

primrec join_parts :: "bool \<Rightarrow> cstring list \<Rightarrow> cstring option \<Rightarrow> fault + cstring option" where
  "join_parts d [] buffer = Inr buffer"
| "join_parts d (p # ps) buffer = bind_f (path_join_single buffer p d) (join_parts d ps)"

definition MAX_PARTS :: nat where "MAX_PARTS = 0x200"

definition path_resolve_deferred_join :: "lval list \<Rightarrow> lua_ret" where
  "path_resolve_deferred_join args =
     bind_f (luaL_checkstring args (length args)) (\<lambda>path.
       let inBuffer = strncpy_t BUFSIZE path (length path) in
       if strchr inBuffer DEFERRED_JOIN_DELIMITER = None then
         (if length path \<le> BUFSIZE then Inr [LStr (take (length path) (inBuffer @ [NUL]))]
          else Inl OutOfBounds)
       else
         let parts = split_at DEFERRED_JOIN_DELIMITER inBuffer in
         if MAX_PARTS < length parts then Inl OutOfBounds
         else bind_f (join_parts False parts None) push_buffer)"

section \<open>Facts about the parts of a segment\<close>

lemma strip_dot_slash_id: "\<not> prefix ''./'' s \<Longrightarrow> strip_dot_slash s = s"
  by (subst strip_dot_slash.simps) (simp add: strncmp_eq_def take_2_prefix)

lemma strip_dot_slash_no_prefix: "\<not> prefix ''./'' (strip_dot_slash s)"
proof (induction s rule: strip_dot_slash.induct)
  case (1 s)
  then show ?case
    by (subst strip_dot_slash.simps) (auto simp: strncmp_eq_def take_2_prefix)
qed

lemma strip_dot_slash_suffix: "suffix (strip_dot_slash s) s"
proof (induction s rule: strip_dot_slash.induct)
  case (1 s)
  then show ?case
    by (subst strip_dot_slash.simps) (auto intro: suffix_order.trans [OF _ suffix_drop])
qed

lemma strip_slashes_id: "length s \<le> 1 \<or> last s \<noteq> SLASH \<Longrightarrow> strip_slashes s = s"
  by (subst strip_slashes.simps) auto

lemma strip_slashes_last: "length (strip_slashes s) \<le> 1 \<or> last (strip_slashes s) \<noteq> SLASH"
proof (induction s rule: strip_slashes.induct)
  case (1 s)
  then show ?case by (subst (1 2) strip_slashes.simps) auto
qed

lemma strip_slashes_prefix: "prefix (strip_slashes s) s"
proof (induction s rule: strip_slashes.induct)
  case (1 s)
  then show ?case
    by (subst strip_slashes.simps) (auto intro: prefix_order.trans [OF _ prefixeq_butlast])
qed

lemma strip_slashes_Nil_iff [simp]: "strip_slashes s = [] \<longleftrightarrow> s = []"
proof (induction s rule: strip_slashes.induct)
  case (1 s)
  then show ?case by (subst strip_slashes.simps) (auto simp: butlast_conv_take)
qed

text \<open>The part of an argument that is appended.\<close>

definition segment :: "cstring \<Rightarrow> cstring" where
  "segment part = strip_slashes (strip_dot_slash part)"

definition blank :: "cstring \<Rightarrow> bool" where
  "blank part \<longleftrightarrow> segment part = [] \<or> segment part = ''.''"

lemma length_segment: "length (segment part) \<le> length part"
  using prefix_length_le [OF strip_slashes_prefix] suffix_length_le [OF strip_dot_slash_suffix]
  unfolding segment_def by (rule order_trans)

lemma set_segment: "set (segment part) \<subseteq> set part"
  using set_mono_prefix [OF strip_slashes_prefix] set_mono_suffix [OF strip_dot_slash_suffix]
  unfolding segment_def by (rule order_trans)

lemma trim_parents_id: "buf = [] \<or> \<not> prefix ''..'' seg \<Longrightarrow> trim_parents buf seg = (buf, seg)"
  by (subst trim_parents.simps) (auto simp: take_2_prefix)

lemma trim_parents_length:
  "trim_parents buf seg = (b, g) \<Longrightarrow> length b \<le> length buf \<and> length g \<le> length seg"
proof (induction buf seg arbitrary: b g rule: trim_parents.induct)
  case (1 buf seg)
  have tl: "length (if peek r = SLASH then tl r else r) \<le> length r" for r by simp
  show ?case
  proof (cases "buf \<noteq> [] \<and> 2 \<le> length seg \<and> take 2 seg = ''..'' \<and> \<not> untrimmable (last_segment buf)")
    case True
    let ?r = "drop 2 seg"
    from True "1.prems" have
      "trim_parents (drop_segment buf) (if peek ?r = SLASH then tl ?r else ?r) = (b, g)"
      by (simp add: trim_parents.simps [of buf seg] Let_def)
    with True "1.IH" have "length b \<le> length (drop_segment buf) \<and> length g \<le> length ?r"
      using tl [of ?r] order_trans by (metis (no_types, lifting))
    with True length_drop_segment [of buf] show ?thesis by auto
  next
    case False
    with "1.prems" show ?thesis by (subst (asm) trim_parents.simps) (auto split: if_splits)
  qed
qed

section \<open>One step of a join\<close>

lemma path_join_single_blank: "blank part \<Longrightarrow> path_join_single buffer part d = Inr buffer"
  by (simp add: path_join_single_def blank_def segment_def)

definition content :: "cstring option \<Rightarrow> cstring" where
  "content buffer = (case buffer of None \<Rightarrow> [] | Some s \<Rightarrow> s)"

lemma content_simps [simp]: "content None = []" "content (Some s) = s"
  by (simp_all add: content_def)

lemma path_join_single_absolute:
  assumes "\<not> blank part" and "do_absolutetype (strip_dot_slash part) = JOIN_ABSOLUTE"
    and "length part < BUFSIZE"
  shows "path_join_single buffer part d = Inr (Some (segment part))"
  using assms length_segment [of part]
  by (simp add: path_join_single_def blank_def segment_def Let_def)

definition add_slash :: "cstring \<Rightarrow> cstring" where
  "add_slash buf = (if buf \<noteq> [] \<and> last buf \<noteq> SLASH then buf @ [SLASH] else buf)"

lemma length_add_slash: "length (add_slash s) \<le> Suc (length s)"
  by (simp add: add_slash_def)

lemma path_join_single_relative:
  assumes "\<not> blank part" and "do_absolutetype (strip_dot_slash part) \<noteq> JOIN_ABSOLUTE"
    and "d \<Longrightarrow> do_absolutetype (strip_dot_slash part) = JOIN_RELATIVE"
    and "trim_parents (content buffer) (segment part) = (b, g)"
    and "Suc (length b + length g) < BUFSIZE"
  shows "path_join_single buffer part d = Inr (Some (add_slash b @ g))"
proof -
  have "length (add_slash b @ g) < BUFSIZE"
    using assms(5) length_add_slash [of b] by simp
  moreover have "do_absolutetype (strip_dot_slash part) = JOIN_RELATIVE \<or>
      do_absolutetype (strip_dot_slash part) = JOIN_MAYBE_ABSOLUTE \<and> \<not> d"
    using assms(2,3) by (cases "do_absolutetype (strip_dot_slash part)") auto
  ultimately show ?thesis
    using assms(1,4)
    by (auto simp: path_join_single_def blank_def segment_def content_def add_slash_def Let_def)
qed

lemma path_join_single_deferred:
  assumes "\<not> blank part" and "do_absolutetype (strip_dot_slash part) = JOIN_MAYBE_ABSOLUTE"
    and "Suc (length (content buffer) + length (segment part)) < BUFSIZE"
  shows "path_join_single buffer part True =
    Inr (Some (content buffer @ DEFERRED_JOIN_DELIMITER # segment part))"
  using assms by (simp add: path_join_single_def blank_def segment_def content_def Let_def)

text \<open>A step never writes past the buffer while the two strings and a separator fit into it.\<close>

lemma path_join_single_bound:
  assumes "Suc (length (content buffer) + length part) < BUFSIZE"
  shows "\<exists>b. path_join_single buffer part d = Inr b
     \<and> length (content b) \<le> Suc (length (content buffer) + length part)
     \<and> (b = None \<longleftrightarrow> buffer = None \<and> blank part)"
proof (cases "blank part")
  case True
  then show ?thesis by (simp add: path_join_single_blank)
next
  case nb: False
  note seg = length_segment [of part]
  let ?ty = "do_absolutetype (strip_dot_slash part)"
  obtain b g where t: "trim_parents (content buffer) (segment part) = (b, g)" by fastforce
  note len = trim_parents_length [OF t]
  consider "?ty = JOIN_ABSOLUTE" | "?ty = JOIN_MAYBE_ABSOLUTE" "d"
    | "?ty \<noteq> JOIN_ABSOLUTE" "d \<Longrightarrow> ?ty = JOIN_RELATIVE"
    by (cases ?ty) auto
  then show ?thesis
  proof cases
    case 1
    with nb assms seg show ?thesis by (simp add: path_join_single_absolute)
  next
    case 2
    with nb assms seg show ?thesis by (simp add: path_join_single_deferred)
  next
    case 3
    have "Suc (length b + length g) < BUFSIZE" using assms len seg by linarith
    from path_join_single_relative [OF nb 3 t this] len seg length_add_slash [of b] nb show ?thesis
      by (auto intro: order_trans [OF add_mono])
  qed
qed

section \<open>Sequences of segments\<close>

lemma join_parts_append:
  "join_parts d (ps @ qs) buffer = bind_f (join_parts d ps buffer) (join_parts d qs)"
  by (induction ps arbitrary: buffer) (auto simp: bind_f_def split: sum.splits)

lemma join_args_strings:
  "\<forall>p \<in> set ps. is_cstring p \<Longrightarrow> join_args i (map LStr ps) d buffer = join_parts d ps buffer"
proof (induction ps arbitrary: i buffer)
  case (Cons p ps)
  then have "join_args (Suc i) (map LStr ps) d = join_parts d ps" by auto
  with Cons.prems show ?case by (simp add: lua_tostring_def)
qed simp

lemma path_join_parts:
  assumes "\<forall>p \<in> set ps. is_cstring p"
  shows "path_join_internal (map LStr ps) d = bind_f (join_parts d ps None) push_buffer"
  using assms by (simp add: path_join_internal_def join_args_strings)

definition needed :: "cstring option \<Rightarrow> cstring list \<Rightarrow> nat" where
  \<comment> \<open>bytes needed for the buffer and the parts, each with a separator\<close>
  "needed buffer ps = length (content buffer) + (\<Sum>p\<leftarrow>ps. Suc (length p))"

lemma needed_simps [simp]:
  "needed buffer [] = length (content buffer)"
  "needed buffer (p # ps) = Suc (length p) + needed buffer ps"
  by (simp_all add: needed_def)

lemma needed_append: "needed buffer (ps @ qs) = needed buffer ps + needed None qs"
  by (simp add: needed_def)

lemma needed_mono: "length (content b) \<le> length (content b') + k \<Longrightarrow> needed b ps \<le> needed b' ps + k"
  by (simp add: needed_def)

lemma join_parts_bound:
  "needed buffer ps < BUFSIZE \<Longrightarrow> \<exists>b. join_parts d ps buffer = Inr b
     \<and> length (content b) \<le> needed buffer ps
     \<and> (b = None \<longleftrightarrow> buffer = None \<and> (\<forall>p \<in> set ps. blank p))"
proof (induction ps arbitrary: buffer)
  case (Cons p ps)
  have "Suc (length (content buffer) + length p) < BUFSIZE"
    using Cons.prems by (simp add: needed_def)
  from path_join_single_bound [OF this, of d] obtain b where b:
      "path_join_single buffer p d = Inr b"
      "length (content b) \<le> Suc (length (content buffer) + length p)"
      "b = None \<longleftrightarrow> buffer = None \<and> blank p" by blast
  then have r: "needed b ps \<le> needed buffer (p # ps)"
    using needed_mono [of b buffer "Suc (length p)" ps] by simp
  with Cons.prems have "needed b ps < BUFSIZE" by linarith
  from Cons.IH [OF this] r b show ?case by (auto intro: order_trans)
qed simp

text \<open>C17: A join of strings that together fit into the 16 KiB buffer never writes outside it: it
  returns one string, no longer than its parts with a separator each, except when every part is
  empty or \<open>.\<close> (also when there is no part at all), where the code reads its buffer uninitialised.\<close>

theorem path_join_memory:
  assumes "\<forall>p \<in> set ps. is_cstring p" and "(\<Sum>p\<leftarrow>ps. Suc (length p)) < BUFSIZE"
  shows "\<exists>s. length s \<le> (\<Sum>p\<leftarrow>ps. Suc (length p)) \<and>
    path_join (map LStr ps) = (if \<forall>p \<in> set ps. blank p then Inl Uninitialised else Inr [LStr s])"
proof -
  have "needed None ps < BUFSIZE" using assms(2) by (simp add: needed_def)
  from join_parts_bound [OF this, of False] obtain b where b:
      "join_parts False ps None = Inr b" "length (content b) \<le> needed None ps"
      "b = None \<longleftrightarrow> (\<forall>p \<in> set ps. blank p)" by auto
  then show ?thesis
    by (intro exI [of _ "content b"], cases b)
      (auto simp: path_join_def path_join_parts [OF assms(1)] needed_def push_buffer_def)
qed

lemma blank_examples: "blank ''''" "blank ''./.''" "\<not> blank ''a''"
  by code_simp+

theorem path_join_memory_witness:
  "path_join (map LStr ['''', ''./.'']) = Inl Uninitialised
   \<and> (\<exists>s. length s \<le> 2 \<and> path_join (map LStr [''a'']) = Inr [LStr s])"
proof -
  have "path_join (map LStr ['''', ''./.'']) = Inl Uninitialised"
    using path_join_memory [of "['''', ''./.'']"] blank_examples by (auto simp: BUFSIZE_def)
  moreover have "\<exists>s. length s \<le> 2 \<and> path_join (map LStr [''a'']) = Inr [LStr s]"
    using path_join_memory [of "[''a'']"] blank_examples by (auto simp: BUFSIZE_def)
  ultimately show ?thesis by blast
qed

section \<open>Restarting, appending, climbing\<close>

lemma join_parts_blank: "\<forall>p \<in> set ps. blank p \<Longrightarrow> join_parts d ps buffer = Inr buffer"
  by (induction ps) (auto simp: path_join_single_blank)

lemma content_of_bound:
  assumes "needed None ps < BUFSIZE"
  obtains b where "join_parts d ps None = Inr b"
  using join_parts_bound [OF assms, of d] by blast

lemma strip_slashes_slashes: "\<exists>k. s = strip_slashes s @ replicate k SLASH"
proof (induction s rule: strip_slashes.induct)
  case (1 s)
  show ?case
  proof (cases "1 < length s \<and> last s = SLASH")
    case True
    with 1 obtain k where "butlast s = strip_slashes (butlast s) @ replicate k SLASH" by blast
    with True have "s = strip_slashes (butlast s) @ replicate k SLASH @ [SLASH]"
      by (metis append.assoc append_butlast_last_id list.size(3) not_one_less_zero)
    with True show ?thesis
      by (intro exI [of _ "Suc k"]) (simp add: strip_slashes.simps [of s] replicate_append_same)
  next
    case False
    then have "strip_slashes s = s" by (intro strip_slashes_id) auto
    then show ?thesis by (intro exI [of _ 0]) simp
  qed
qed

lemma blank_iff: "blank a \<longleftrightarrow> strip_dot_slash a = [] \<or> strip_dot_slash a = ''.''"
proof -
  let ?s = "strip_dot_slash a"
  have "?s = ''.''" if "strip_slashes ?s = ''.''"
  proof -
    from strip_slashes_slashes [of ?s] that obtain k where k: "?s = DOT # replicate k SLASH" by auto
    with strip_dot_slash_no_prefix [of a] show ?thesis by (cases k) auto
  qed
  then show ?thesis by (auto simp: blank_def segment_def strip_slashes_id)
qed

lemma absolute_not_blank: "do_absolutetype (strip_dot_slash a) = JOIN_ABSOLUTE \<Longrightarrow> \<not> blank a"
  by (auto simp: blank_iff do_absolutetype_def skip_marks_def char_defs)

text \<open>An absolute part restarts a join: whatever precedes it is dropped, so that the result is
  that of the join that begins with it; a join that ends with it is that part, without leading \<open>./\<close>
  and trailing slashes. This holds for both kinds of join.\<close>

theorem path_join_restart:
  assumes "\<forall>p \<in> set (ps @ a # qs). is_cstring p"
    and "(\<Sum>p\<leftarrow>ps @ a # qs. Suc (length p)) < BUFSIZE"
    and "do_absolutetype (strip_dot_slash a) = JOIN_ABSOLUTE"
  shows "path_join_internal (map LStr (ps @ a # qs)) d = path_join_internal (map LStr (a # qs)) d
    \<and> path_join_internal (map LStr (ps @ [a])) d = Inr [LStr (strip_slashes (strip_dot_slash a))]"
proof -
  have "needed None ps < BUFSIZE" and a: "length a < BUFSIZE"
    using assms(2) by (auto simp: needed_def)
  from content_of_bound [OF this(1)] obtain b where b: "join_parts d ps None = Inr b" .
  from assms(3) have "path_join_single b' a d = Inr (Some (segment a))" for b'
    using absolute_not_blank a by (simp add: path_join_single_absolute)
  with b assms(1) show ?thesis
    by (simp add: path_join_parts join_parts_append push_buffer_def segment_def
        del: map_append list.map)
qed

theorem path_join_restart_witness:
  "path_join_internal (map LStr ([''x'', ''..''] @ [''/usr/''])) False = Inr [LStr ''/usr'']"
proof -
  have "do_absolutetype (strip_dot_slash ''/usr/'') = JOIN_ABSOLUTE"
    and "strip_slashes (strip_dot_slash ''/usr/'') = ''/usr''" by code_simp+
  then show ?thesis
    using path_join_restart [of "[''x'', ''..'']" "''/usr/''" "[]" False, THEN conjunct2]
    by (simp add: BUFSIZE_def)
qed

text \<open>Parts that a join only concatenates.\<close>

definition plain_part :: "bool \<Rightarrow> cstring \<Rightarrow> bool" where
  "plain_part d p \<longleftrightarrow> is_cstring p \<and> p \<noteq> [] \<and> p \<noteq> ''.'' \<and> last p \<noteq> SLASH \<and> \<not> prefix ''./'' p
     \<and> \<not> prefix ''..'' p \<and> do_absolutetype p \<noteq> JOIN_ABSOLUTE
     \<and> (d \<longrightarrow> do_absolutetype p = JOIN_RELATIVE)"

definition slashed :: "cstring list \<Rightarrow> cstring" where
  "slashed ps = concat (map (\<lambda>p. SLASH # p) ps)"

lemma slashed_simps [simp]:
  "slashed [] = []" "slashed (p # ps) = SLASH # p @ slashed ps" "slashed (ps @ qs) = slashed ps @ slashed qs"
  by (simp_all add: slashed_def)

lemma length_slashed: "length (slashed ps) = (\<Sum>p\<leftarrow>ps. Suc (length p))"
  by (induction ps) auto

lemma plain_part_segment: "plain_part d p \<Longrightarrow> segment p = p \<and> \<not> blank p \<and> strip_dot_slash p = p"
  by (simp add: plain_part_def segment_def blank_iff strip_dot_slash_id strip_slashes_id)

lemma join_plain_single:
  assumes "plain_part d p" and "Suc (length (content b) + length p) < BUFSIZE"
  shows "path_join_single b p d = Inr (Some (add_slash (content b) @ p))"
proof -
  note seg = plain_part_segment [OF assms(1)]
  with assms show ?thesis
    by (intro path_join_single_relative) (auto simp: plain_part_def trim_parents_id)
qed

lemma join_plain_parts:
  "\<forall>p \<in> set ps. plain_part d p \<Longrightarrow> s \<noteq> [] \<Longrightarrow> last s \<noteq> SLASH \<Longrightarrow>
     length s + (\<Sum>p\<leftarrow>ps. Suc (length p)) < BUFSIZE \<Longrightarrow>
     join_parts d ps (Some s) = Inr (Some (s @ slashed ps))"
proof (induction ps arbitrary: s)
  case (Cons p ps)
  then have "path_join_single (Some s) p d = Inr (Some (s @ SLASH # p))"
    by (simp add: join_plain_single add_slash_def)
  with Cons show ?case by (simp add: plain_part_def)
qed simp

text \<open>Relative parts are concatenated with one slash between them, when none of them starts
  with \<open>..\<close>, ends in a slash or is blank.\<close>

theorem path_join_plain:
  assumes "\<forall>q \<in> set (p # ps). plain_part d q" and "(\<Sum>q\<leftarrow>p # ps. Suc (length q)) < BUFSIZE"
  shows "path_join_internal (map LStr (p # ps)) d = Inr [LStr (p @ slashed ps)]"
proof -
  have cs: "\<forall>q \<in> set (p # ps). is_cstring q" using assms(1) by (auto simp: plain_part_def)
  have "path_join_single None p d = Inr (Some p)"
    using assms join_plain_single [of d p None] by (simp add: add_slash_def)
  moreover have "join_parts d ps (Some p) = Inr (Some (p @ slashed ps))"
    using assms by (intro join_plain_parts) (auto simp: plain_part_def)
  ultimately show ?thesis
    unfolding path_join_parts [OF cs] by (simp add: push_buffer_def)
qed

theorem path_join_plain_witness:
  "path_join_internal (map LStr [''src'', ''host'', ''%x.c'']) True = Inr [LStr ''src/host/%x.c'']"
proof -
  have "plain_part True ''src''" "plain_part True ''host''" "plain_part True ''%x.c''" by code_simp+
  then show ?thesis
    using path_join_plain [of "''src''" "[''host'', ''%x.c'']" True] by (simp add: BUFSIZE_def)
qed

text \<open>\<open>up k\<close> climbs \<open>k\<close> directories; a \<open>plain_name\<close> is a segment that a climb may trim.\<close>

definition up :: "nat \<Rightarrow> cstring" where
  "up k = concat (replicate k ''../'')"

definition plain_name :: "cstring \<Rightarrow> bool" where
  "plain_name t \<longleftrightarrow> t \<noteq> [] \<and> is_cstring t \<and> SLASH \<notin> set t \<and> \<not> untrimmable t"

lemma up_simps [simp]: "up 0 = []" "up (Suc k) = ''../'' @ up k"
  by (simp_all add: up_def)

lemma length_up [simp]: "length (up k) = 3 * k"
  by (induction k) auto

lemma is_cstring_up [simp]: "is_cstring (up k)"
  by (induction k) auto

lemma segment_parts_snoc:
  assumes "SLASH \<notin> set t"
  shows "last_segment (s @ SLASH # t) = t" and "drop_segment (s @ SLASH # t) = s"
  using assms by (simp_all add: last_segment_def drop_segment_def strrchr_append)

lemma trim_parents_name:
  assumes "SLASH \<notin> set t" and "\<not> untrimmable t"
  shows "trim_parents (s @ SLASH # t) (''../'' @ r) = trim_parents s r"
  using assms trim_parents.simps [of "s @ SLASH # t" "''../'' @ r"] by (simp add: segment_parts_snoc)

lemma trim_parents_up:
  "\<forall>t \<in> set ts. plain_name t \<Longrightarrow> \<not> prefix ''..'' r \<Longrightarrow>
     trim_parents (s @ slashed ts) (up (length ts) @ r) = (s, r)"
proof (induction ts rule: rev_induct)
  case Nil
  then show ?case by (simp add: trim_parents_id)
next
  case (snoc t ts)
  then have "trim_parents ((s @ slashed ts) @ SLASH # t) (''../'' @ up (length ts) @ r) =
      trim_parents (s @ slashed ts) (up (length ts) @ r)"
    by (intro trim_parents_name) (auto simp: plain_name_def)
  with snoc show ?case by simp
qed

lemma do_absolutetype_dot: "do_absolutetype (DOT # s) = JOIN_RELATIVE"
  by (simp add: do_absolutetype_def skip_marks_def char_defs)

lemma join_single_first:
  assumes "\<not> blank p" and "Suc (length p) < BUFSIZE"
  shows "path_join_single None p False = Inr (Some (segment p))"
proof (cases "do_absolutetype (strip_dot_slash p) = JOIN_ABSOLUTE")
  case True
  with assms show ?thesis by (simp add: path_join_single_absolute)
next
  case False
  with assms length_segment [of p] show ?thesis
    using path_join_single_relative [of p False None "[]" "segment p"]
    by (simp add: trim_parents_id add_slash_def)
qed

text \<open>C29: A part that climbs takes that many trailing directories off what was joined before:
  joining \<open>pre/t\<^sub>1/../t\<^sub>k\<close> with \<open>k\<close> times \<open>../\<close> followed by \<open>rest\<close> gives \<open>pre/rest\<close>, and just \<open>rest\<close>
  when \<open>pre\<close> is empty: climbing to the root of an absolute path loses the root.\<close>

theorem path_join_climb:
  assumes "ts \<noteq> []" and "\<forall>t \<in> set ts. plain_name t"
    and "is_cstring pre" and "\<not> prefix ''./'' (pre @ slashed ts)"
    and "is_cstring rest" and "rest \<noteq> []" and "last rest \<noteq> SLASH" and "\<not> prefix ''..'' rest"
    and "length pre + length (slashed ts) + length (up (length ts)) + length rest + 2 < BUFSIZE"
  shows "path_join [LStr (pre @ slashed ts), LStr (up (length ts) @ rest)] =
    Inr [LStr (if pre = [] then rest else if last pre = SLASH then pre @ rest else pre @ SLASH # rest)]"
proof -
  let ?a = "pre @ slashed ts" and ?b = "up (length ts) @ rest"
  obtain k where k: "length ts = Suc k" using assms(1) by (cases ts) auto
  have "is_cstring (slashed ts)" using assms(2) by (induction ts) (auto simp: plain_name_def)
  then have cs: "\<forall>p \<in> set [?a, ?b]. is_cstring p" using assms(3,5) by simp
  have la: "last ?a \<noteq> SLASH"
    using assms(1,2) by (induction ts rule: rev_induct) (auto simp: plain_name_def dest: last_in_set)
  have a: "strip_dot_slash ?a = ?a" "segment ?a = ?a"
    using assms(4) la by (simp_all add: segment_def strip_dot_slash_id strip_slashes_id)
  have "?a \<noteq> []" "?a \<noteq> ''.''" using assms(1,2) by (cases ts; cases pre; auto)+
  then have a1: "path_join_single None ?a False = Inr (Some ?a)"
    using a assms(9) join_single_first [of ?a] by (simp add: blank_iff)
  have b: "strip_dot_slash ?b = ?b" "segment ?b = ?b" "do_absolutetype ?b = JOIN_RELATIVE"
    using assms(6,7) by (simp_all add: k segment_def strip_dot_slash_id strip_slashes_id do_absolutetype_dot)
  then have "path_join_single (Some ?a) ?b False = Inr (Some (add_slash pre @ rest))"
    using assms(9) trim_parents_up [OF assms(2,8), of pre]
    by (intro path_join_single_relative) (simp_all add: blank_iff k)
  with a1 have "join_parts False [?a, ?b] None = Inr (Some (add_slash pre @ rest))" by simp
  then show ?thesis
    using path_join_parts [OF cs] by (simp add: path_join_def push_buffer_def add_slash_def)
qed

theorem path_join_climb_witness:
  "path_join [LStr ''/home/u/src'', LStr ''../../lib''] = Inr [LStr ''/home/lib''] \<and>
   path_join [LStr ''/usr'', LStr ''../lib''] = Inr [LStr ''lib'']"
proof
  have n: "plain_name ''u''" "plain_name ''src''" "plain_name ''usr''" by code_simp+
  show "path_join [LStr ''/home/u/src'', LStr ''../../lib''] = Inr [LStr ''/home/lib'']"
    using path_join_climb [of "[''u'', ''src'']" "''/home''" "''lib''"] n
    by (simp add: BUFSIZE_def numeral_2_eq_2)
  show "path_join [LStr ''/usr'', LStr ''../lib''] = Inr [LStr ''lib'']"
    using path_join_climb [of "[''usr'']" "[]" "''lib''"] n by (simp add: BUFSIZE_def)
qed

section \<open>Deferring a join does not change its result\<close>

lemma split_at_not_Nil [simp]: "split_at d s \<noteq> []"
  by (induction s) (auto split: list.splits)

lemma split_at_none: "d \<notin> set s \<Longrightarrow> split_at d s = [s]"
  by (induction s) auto

lemma split_at_delim: "split_at d (s @ d # t) = split_at d s @ split_at d t"
  by (induction s) (auto simp: Cons_eq_append_conv split: list.splits)

lemma split_at_last: "split_at d s = ps @ [c] \<Longrightarrow> d \<notin> set t \<Longrightarrow> split_at d (s @ t) = ps @ [c @ t]"
proof (induction s arbitrary: ps c)
  case Nil
  then show ?case by (simp add: split_at_none)
next
  case (Cons x s)
  obtain q qs where q: "split_at d s = q # qs" by (cases "split_at d s") auto
  show ?case
  proof (cases "x = d")
    case True
    with Cons.prems q obtain ps' where "ps = [] # ps'" "split_at d s = ps' @ [c]"
      by (cases ps) auto
    with True Cons show ?thesis by simp
  next
    case False
    show ?thesis
    proof (cases qs rule: rev_cases)
      case Nil
      with Cons.prems q False have "ps = []" "c = x # q" by auto
      from Cons.IH [of "[]" q] Cons.prems(2) q Nil have "split_at d (s @ t) = [q @ t]" by simp
      with False \<open>ps = []\<close> \<open>c = x # q\<close> show ?thesis by simp
    next
      case (snoc qs' c')
      with Cons.prems q False have "ps = (x # q) # qs'" "c = c'" by auto
      with Cons.IH [of "q # qs'" c'] Cons.prems(2) q snoc False show ?thesis by simp
    qed
  qed
qed

lemma split_at_single: "split_at d s = [q] \<Longrightarrow> q = s"
proof (induction s arbitrary: q)
  case (Cons x s)
  then show ?case by (cases "split_at d s") (auto split: if_splits)
qed simp

lemma split_at_suffix: "split_at d s = ps @ [c] \<Longrightarrow> suffix c s"
proof (induction s arbitrary: ps c)
  case (Cons x s)
  obtain q qs where q: "split_at d s = q # qs" by (cases "split_at d s") auto
  show ?case
  proof (cases "x = d \<or> qs \<noteq> []")
    case True
    with Cons.prems q obtain ps' where "split_at d s = ps' @ [c]"
      by (cases ps; cases qs rule: rev_cases) (auto split: if_splits)
    then have "suffix c s" by (rule Cons.IH)
    then show ?thesis by (rule suffix_ConsI)
  next
    case False
    with q split_at_single [of d s q] have "split_at d (x # s) = [x # s]" by simp
    with Cons.prems show ?thesis by (cases ps) auto
  qed
qed simp

lemma split_at_no_delim: "split_at d s = ps @ [c] \<Longrightarrow> d \<notin> set s \<Longrightarrow> ps = [] \<and> c = s"
  by (simp add: split_at_none)

lemma segment_idem [simp]: "segment (segment p) = segment p"
proof -
  have "\<not> prefix ''./'' (segment p)"
    using strip_dot_slash_no_prefix [of p] strip_slashes_prefix [of "strip_dot_slash p"]
    unfolding segment_def by (metis prefix_order.trans)
  then have "strip_dot_slash (segment p) = segment p" by (rule strip_dot_slash_id)
  then show ?thesis
    using strip_slashes_last [of "strip_dot_slash p"]
    by (simp add: segment_def [of "segment p"] strip_slashes_id) (simp add: segment_def strip_slashes_id)
qed

lemma segment_fixpoint:
  "segment c = c \<longleftrightarrow> \<not> prefix ''./'' c \<and> (length c \<le> 1 \<or> last c \<noteq> SLASH)" (is "_ \<longleftrightarrow> ?r")
proof
  assume c: "segment c = c"
  have l: "length (strip_slashes (strip_dot_slash c)) \<le> length (strip_dot_slash c)"
    by (rule prefix_length_le [OF strip_slashes_prefix])
  with c have "length c \<le> length (strip_dot_slash c)" by (simp add: segment_def)
  with strip_dot_slash_suffix [of c] have "strip_dot_slash c = c"
    by (metis le_antisym suffix_length_le suffix_def append_eq_append_conv append_Nil)
  with c strip_dot_slash_no_prefix [of c] strip_slashes_last [of c] show ?r
    by (simp add: segment_def)
qed (simp add: segment_def strip_dot_slash_id strip_slashes_id)

text \<open>
  The two buffers of a deferred and of a direct join agree when the parts of the deferred one join
  to the direct one. Its last part \<open>c\<close> is a segment that a later relative part can be appended to.
\<close>

definition agree :: "nat \<Rightarrow> cstring \<Rightarrow> cstring \<Rightarrow> bool" where
  "agree n D J \<longleftrightarrow> (\<exists>init c b.
     split_at DEFERRED_JOIN_DELIMITER D = init @ [c] \<and> length init \<le> n
     \<and> join_parts False init None = Inr b \<and> J = add_slash (content b) @ c
     \<and> segment c = c \<and> c \<noteq> [] \<and> c \<noteq> ''.''
     \<and> (b = None \<or> do_absolutetype c = JOIN_MAYBE_ABSOLUTE))"

definition deferrable :: "cstring \<Rightarrow> bool" where
  "deferrable p \<longleftrightarrow> is_cstring p \<and> DEFERRED_JOIN_DELIMITER \<notin> set p \<and> \<not> prefix ''..'' (segment p)
     \<and> do_absolutetype (segment p) = do_absolutetype (strip_dot_slash p)"

lemma maybe_absolute_append:
  "do_absolutetype c = JOIN_MAYBE_ABSOLUTE \<Longrightarrow> do_absolutetype (c @ t) = JOIN_MAYBE_ABSOLUTE"
proof -
  assume "do_absolutetype c = JOIN_MAYBE_ABSOLUTE"
  then have "maybe_spec c" by (simp add: maybe_spec_skip)
  then have "maybe_spec (c @ t)" by (fastforce simp: maybe_spec_def)
  then show ?thesis by (simp add: maybe_spec_skip)
qed

lemma maybe_not_parent: "do_absolutetype c = JOIN_MAYBE_ABSOLUTE \<Longrightarrow> \<not> prefix ''..'' c"
  using do_absolutetype_dot by (auto simp: prefix_def)

lemma join_single_direct:
  assumes "\<not> blank p" and "\<not> prefix ''..'' (segment p)"
    and "b = None \<or> do_absolutetype (strip_dot_slash p) \<noteq> JOIN_ABSOLUTE"
    and "Suc (length (content b) + length p) < BUFSIZE"
  shows "path_join_single b p False = Inr (Some (add_slash (content b) @ segment p))"
proof (cases "b = None")
  case True
  with assms show ?thesis by (simp add: join_single_first add_slash_def)
next
  case False
  with assms length_segment [of p] show ?thesis
    by (intro path_join_single_relative) (auto simp: trim_parents_id)
qed

lemma agree_new:
  assumes "\<not> blank p" "deferrable p"
    and "J = add_slash (content b) @ segment p"
    and "split_at DEFERRED_JOIN_DELIMITER D = init @ [segment p]" "length init \<le> n"
    and "join_parts False init None = Inr b"
    and "b = None \<or> do_absolutetype (segment p) = JOIN_MAYBE_ABSOLUTE"
  shows "agree n D J"
  using assms unfolding agree_def blank_def by (intro exI [of _ init] exI [of _ "segment p"]) auto

lemma segment_no_delim: "deferrable p \<Longrightarrow> DEFERRED_JOIN_DELIMITER \<notin> set (segment p)"
  using set_segment [of p] by (auto simp: deferrable_def)

text \<open>Appending a relative part to the last segment.\<close>

lemma segment_append:
  assumes "segment c = c" "c \<noteq> []" "c \<noteq> ''.''" "segment g = g" "g \<noteq> []" "do_absolutetype g \<noteq> JOIN_ABSOLUTE"
  shows "segment (add_slash c @ g) = add_slash c @ g" and "add_slash c @ g \<noteq> ''.''"
proof -
  have g: "last g \<noteq> SLASH"
  proof
    assume l: "last g = SLASH"
    with assms(4,5) have "g = ''/''" by (cases g) (auto simp: segment_fixpoint)
    with assms(6) show False by (simp add: do_absolutetype_def skip_marks_def)
  qed
  have "\<not> prefix ''./'' (add_slash c @ g)"
    using assms(1-3) by (cases c; cases "tl c") (auto simp: segment_fixpoint add_slash_def)
  with g assms(2,5) show "segment (add_slash c @ g) = add_slash c @ g"
    by (simp add: segment_fixpoint)
  show "add_slash c @ g \<noteq> ''.''"
    using assms(2,3,5) by (cases c) (auto simp: add_slash_def)
qed

lemma agree_append:
  assumes ag: "agree n D J" and p: "\<not> blank p" "deferrable p"
    and rel: "do_absolutetype (strip_dot_slash p) = JOIN_RELATIVE"
  shows "agree n (add_slash D @ segment p) (add_slash J @ segment p)"
proof -
  let ?g = "segment p"
  from ag obtain init c b where i:
      "split_at DEFERRED_JOIN_DELIMITER D = init @ [c]" "length init \<le> n"
      "join_parts False init None = Inr b" "J = add_slash (content b) @ c"
      "segment c = c" "c \<noteq> []" "c \<noteq> ''.''" "b = None \<or> do_absolutetype c = JOIN_MAYBE_ABSOLUTE"
    unfolding agree_def by blast
  have g: "?g \<noteq> []" "do_absolutetype ?g = JOIN_RELATIVE"
    using p rel by (auto simp: blank_def deferrable_def)
  let ?c = "add_slash c @ ?g"
  have lD: "D \<noteq> []" "last D = last c" using split_at_suffix [OF i(1)] i(6) by (auto simp: suffix_def)
  then obtain t where t: "add_slash D @ ?g = D @ t" "?c = c @ t" "DEFERRED_JOIN_DELIMITER \<notin> set t"
    using i(6) segment_no_delim [OF p(2)]
    by (cases "last c = SLASH") (auto simp: add_slash_def DEFERRED_JOIN_DELIMITER_def)
  have "last J = last c" "J \<noteq> []" using i(4,6) by auto
  then have "add_slash J @ ?g = add_slash (content b) @ ?c"
    using i(4,6) by (auto simp: add_slash_def)
  moreover have "split_at DEFERRED_JOIN_DELIMITER (add_slash D @ ?g) = init @ [?c]"
    unfolding t using split_at_last [OF i(1) t(3)] .
  moreover have "b = None \<or> do_absolutetype ?c = JOIN_MAYBE_ABSOLUTE"
    using i(8) maybe_absolute_append unfolding t by blast
  moreover have "segment ?c = ?c" "?c \<noteq> ''.''"
    using segment_append [OF i(5-7)] g by simp_all
  ultimately show ?thesis
    unfolding agree_def using i(2,3) g(1) by (intro exI [of _ init] exI [of _ ?c] exI [of _ b]) auto
qed

lemma agree_join:
  assumes "agree n D J" and "Suc (length J) < BUFSIZE"
  shows "join_parts False (split_at DEFERRED_JOIN_DELIMITER D) None = Inr (Some J)
    \<and> length (split_at DEFERRED_JOIN_DELIMITER D) \<le> Suc n
    \<and> (DEFERRED_JOIN_DELIMITER \<notin> set D \<longrightarrow> J = D)"
proof -
  from assms(1) obtain init c b where i:
      "split_at DEFERRED_JOIN_DELIMITER D = init @ [c]" "length init \<le> n"
      "join_parts False init None = Inr b" "J = add_slash (content b) @ c"
      "segment c = c" "c \<noteq> []" "c \<noteq> ''.''" "b = None \<or> do_absolutetype c = JOIN_MAYBE_ABSOLUTE"
    unfolding agree_def by blast
  have sd: "strip_dot_slash c = c" using i(5) by (simp add: segment_fixpoint strip_dot_slash_id)
  have nb: "\<not> blank c" using i(5-7) by (simp add: blank_def)
  have "length (content b) + length c \<le> length J" using i(4) by (simp add: add_slash_def)
  with assms(2) have sz: "Suc (length (content b) + length c) < BUFSIZE" by simp
  have "path_join_single b c False = Inr (Some J)"
  proof (cases b)
    case None
    with nb sz i show ?thesis by (simp add: join_single_first add_slash_def)
  next
    case (Some s)
    with i(8) have m: "do_absolutetype c = JOIN_MAYBE_ABSOLUTE" by simp
    with nb sz i(4,5) sd maybe_not_parent [OF m] show ?thesis
      using join_single_direct [of c b] by simp
  qed
  with i have "join_parts False (split_at DEFERRED_JOIN_DELIMITER D) None = Inr (Some J)"
    by (simp add: join_parts_append)
  moreover have "J = D" if "DEFERRED_JOIN_DELIMITER \<notin> set D"
  proof -
    from split_at_no_delim [OF i(1) that] have "init = []" "c = D" by auto
    with i(3,4) show ?thesis by (auto simp: add_slash_def)
  qed
  ultimately show ?thesis using i(1,2) by simp
qed

lemma agree_mono: "agree n D J \<Longrightarrow> n \<le> m \<Longrightarrow> agree m D J"
  unfolding agree_def using order_trans by blast

lemma agree_first:
  assumes "\<not> blank p" "deferrable p" and sz: "Suc (length p) < BUFSIZE"
  obtains D J where "path_join_single None p True = Inr (Some D)"
    and "path_join_single None p False = Inr (Some J)" and "agree 1 D J"
proof (cases "do_absolutetype (strip_dot_slash p) = JOIN_MAYBE_ABSOLUTE")
  case True
  have "agree 1 (DEFERRED_JOIN_DELIMITER # segment p) (segment p)"
    using assms by (intro agree_new [of p _ None _ "[[]]"])
      (simp_all add: add_slash_def segment_no_delim split_at_none path_join_single_blank blank_iff strip_dot_slash_id)
  with assms True length_segment [of p] show ?thesis
    by (intro that [of "DEFERRED_JOIN_DELIMITER # segment p" "segment p"])
      (simp_all add: join_single_first path_join_single_deferred)
next
  case False
  have "path_join_single None p True = Inr (Some (segment p))"
  proof (cases "do_absolutetype (strip_dot_slash p) = JOIN_ABSOLUTE")
    case abs: True
    with assms show ?thesis by (simp add: path_join_single_absolute)
  next
    case abs: False
    with False assms length_segment [of p] show ?thesis
      using path_join_single_relative [of p True None "[]" "segment p"]
      by (cases "do_absolutetype (strip_dot_slash p)") (auto simp: trim_parents_id add_slash_def)
  qed
  moreover have "agree 1 (segment p) (segment p)"
    using assms by (intro agree_new [of p _ None _ "[]"])
      (simp_all add: add_slash_def segment_no_delim split_at_none)
  ultimately show ?thesis using assms by (intro that) (simp_all add: join_single_first)
qed

lemma agree_step:
  assumes ag: "agree n D J" and p: "\<not> blank p" "deferrable p"
    and sz: "Suc (length D + length p) < BUFSIZE" "Suc (length J + length p) < BUFSIZE"
  obtains D' J' where "path_join_single (Some D) p True = Inr (Some D')"
    and "path_join_single (Some J) p False = Inr (Some J')" and "agree (Suc n) D' J'"
proof -
  let ?g = "segment p"
  note len = length_segment [of p]
  have np: "\<not> prefix ''..'' ?g" using p(2) by (simp add: deferrable_def)
  have step: "path_join_single (Some J) p False = Inr (Some (add_slash J @ ?g))"
    if "do_absolutetype (strip_dot_slash p) \<noteq> JOIN_ABSOLUTE"
    using p(1) np that sz(2) by (simp add: join_single_direct)
  show ?thesis
  proof (cases "do_absolutetype (strip_dot_slash p)")
    case JOIN_ABSOLUTE
    have "agree (Suc n) ?g ?g"
      using p by (intro agree_new [of p _ None _ "[]"]) (simp_all add: add_slash_def segment_no_delim split_at_none)
    with JOIN_ABSOLUTE p sz show ?thesis
      by (intro that [of ?g ?g]) (simp_all add: path_join_single_absolute)
  next
    case JOIN_RELATIVE
    have "path_join_single (Some D) p True = Inr (Some (add_slash D @ ?g))"
      using JOIN_RELATIVE p np sz(1) len by (intro path_join_single_relative) (auto simp: trim_parents_id)
    moreover have "agree (Suc n) (add_slash D @ ?g) (add_slash J @ ?g)"
      using agree_append [OF ag p JOIN_RELATIVE] by (rule agree_mono) simp
    ultimately show ?thesis using step JOIN_RELATIVE by (intro that) simp_all
  next
    case JOIN_MAYBE_ABSOLUTE
    have "agree (Suc n) (D @ DEFERRED_JOIN_DELIMITER # ?g) (add_slash J @ ?g)"
      using agree_join [OF ag] p sz(2) JOIN_MAYBE_ABSOLUTE
      by (intro agree_new [of p _ "Some J" _ "split_at DEFERRED_JOIN_DELIMITER D"])
        (auto simp: split_at_delim split_at_none segment_no_delim deferrable_def)
    then show ?thesis
      using step JOIN_MAYBE_ABSOLUTE p sz len
      by (intro that [of "D @ DEFERRED_JOIN_DELIMITER # ?g" "add_slash J @ ?g"])
        (simp_all add: path_join_single_deferred)
  qed
qed

lemma agree_parts:
  "\<forall>p \<in> set ps. deferrable p \<Longrightarrow> agree n D J \<Longrightarrow>
     needed (Some D) ps < BUFSIZE \<Longrightarrow> needed (Some J) ps < BUFSIZE \<Longrightarrow>
     \<exists>D' J'. join_parts True ps (Some D) = Inr (Some D') \<and> join_parts False ps (Some J) = Inr (Some J')
       \<and> agree (n + length ps) D' J'"
proof (induction ps arbitrary: n D J)
  case (Cons p ps)
  show ?case
  proof (cases "blank p")
    case True
    with Cons.IH [of n D J] Cons.prems agree_mono show ?thesis
      by (fastforce simp: path_join_single_blank)
  next
    case False
    have sz: "Suc (length D + length p) < BUFSIZE" "Suc (length J + length p) < BUFSIZE"
      using Cons.prems by (auto simp: needed_def)
    have p: "deferrable p" using Cons.prems by simp
    from agree_step [OF Cons.prems(2) False p sz] obtain D' J' where n:
        "path_join_single (Some D) p True = Inr (Some D')"
        "path_join_single (Some J) p False = Inr (Some J')" "agree (Suc n) D' J'" .
    have "length D' \<le> length D + Suc (length p)" "length J' \<le> length J + Suc (length p)"
      using path_join_single_bound [of "Some D" p True] path_join_single_bound [of "Some J" p False] sz n
      by auto
    then have "needed (Some D') ps < BUFSIZE" "needed (Some J') ps < BUFSIZE"
      using Cons.prems(3,4) needed_mono [of "Some D'" "Some D" "Suc (length p)" ps]
        needed_mono [of "Some J'" "Some J" "Suc (length p)" ps] by simp_all
    with Cons.IH [of "Suc n" D' J'] Cons.prems n show ?thesis by simp
  qed
qed simp

lemma set_drop_segment: "set (drop_segment s) \<subseteq> set s"
  by (auto simp: drop_segment_def dest: in_set_takeD split: option.splits)

lemma trim_parents_set:
  "trim_parents buf seg = (b, g) \<Longrightarrow> set b \<subseteq> set buf \<and> set g \<subseteq> set seg"
proof (induction buf seg arbitrary: b g rule: trim_parents.induct)
  case (1 buf seg)
  have tl: "set (if peek r = SLASH then tl r else r) \<subseteq> set r" for r by (cases r) auto
  show ?case
  proof (cases "buf \<noteq> [] \<and> 2 \<le> length seg \<and> take 2 seg = ''..'' \<and> \<not> untrimmable (last_segment buf)")
    case True
    let ?r = "drop 2 seg"
    from True "1.prems" have
      "trim_parents (drop_segment buf) (if peek ?r = SLASH then tl ?r else ?r) = (b, g)"
      by (simp add: trim_parents.simps [of buf seg] Let_def)
    with True "1.IH" have "set b \<subseteq> set (drop_segment buf) \<and> set g \<subseteq> set ?r"
      using tl [of ?r] subset_trans by (metis (no_types, lifting))
    with set_drop_segment [of buf] set_drop_subset [of 2 seg] show ?thesis by blast
  next
    case False
    with "1.prems" show ?thesis by (subst (asm) trim_parents.simps) (auto split: if_splits)
  qed
qed

lemma map_sum_store: "map_sum id Some (store n s) = Inr b \<longleftrightarrow> length s < n \<and> b = Some s"
  by (auto simp: store_def)

lemma path_join_single_cstring:
  assumes "path_join_single buffer p d = Inr b" and "is_cstring p" "is_cstring (content buffer)"
  shows "is_cstring (content b)"
proof (cases "blank p")
  case True
  with assms show ?thesis by (simp add: path_join_single_blank)
next
  case False
  obtain x y where t: "trim_parents (content buffer) (segment p) = (x, y)" by fastforce
  have "is_cstring x" "is_cstring y" "is_cstring (segment p)"
    using trim_parents_set [OF t] assms(2,3) set_segment [of p] by (auto simp: is_cstring_def)
  with assms(1,3) False t show ?thesis
    by (auto simp: path_join_single_def blank_def segment_def content_def Let_def map_sum_store
        DEFERRED_JOIN_DELIMITER_def split: join_type.splits if_splits)
qed

lemma join_parts_cstring:
  "join_parts d ps buffer = Inr b \<Longrightarrow> \<forall>p \<in> set ps. is_cstring p \<Longrightarrow> is_cstring (content buffer) \<Longrightarrow>
     is_cstring (content b)"
proof (induction ps arbitrary: buffer)
  case (Cons p ps)
  then obtain b' where b: "path_join_single buffer p d = Inr b'" "join_parts d ps b' = Inr b"
    by (auto simp: bind_f_Inr_iff)
  with path_join_single_cstring [OF b(1)] Cons show ?case by simp
qed simp

lemma join_parts_agree:
  assumes ps: "\<forall>p \<in> set ps. deferrable p" and "\<exists>p \<in> set ps. \<not> blank p"
    and sz: "(\<Sum>p\<leftarrow>ps. Suc (length p)) < BUFSIZE"
  obtains D J where "join_parts True ps None = Inr (Some D)" and "join_parts False ps None = Inr (Some J)"
    and "agree (Suc (length ps)) D J"
proof -
  from split_list_first_prop [OF assms(2)] obtain bs p qs where
    s: "ps = bs @ p # qs" "\<not> blank p" "\<forall>q \<in> set bs. blank q" by auto
  have p: "deferrable p" "Suc (length p) < BUFSIZE \<or> qs = [] \<and> bs = []"
    using ps sz s by (auto simp: gr0_conv_Suc)
  have r: "Suc (length p) + needed None qs < BUFSIZE" using sz s by (simp add: needed_def)
  then have "Suc (length p) < BUFSIZE" by simp
  from agree_first [OF s(2) p(1) this] obtain D J where f:
      "path_join_single None p True = Inr (Some D)" "path_join_single None p False = Inr (Some J)"
      "agree 1 D J" .
  have "length D \<le> Suc (length p)" "length J \<le> Suc (length p)"
    using path_join_single_bound [of None p True] path_join_single_bound [of None p False] r f by auto
  then have "needed (Some D) qs < BUFSIZE" "needed (Some J) qs < BUFSIZE"
    using r by (simp_all add: needed_def)
  moreover have "\<forall>q \<in> set qs. deferrable q" using ps s by simp
  ultimately obtain D' J' where "join_parts True qs (Some D) = Inr (Some D')"
      "join_parts False qs (Some J) = Inr (Some J')" "agree (1 + length qs) D' J'"
    using agree_parts [OF _ f(3)] by blast
  with f s show ?thesis
    by (intro that [of D' J']) (auto simp: join_parts_append join_parts_blank elim: agree_mono)
qed

text \<open>C2: Resolving a deferred join gives what the immediate join of the same parts gives, when no
  part climbs with \<open>..\<close> or holds the delimiter byte, at least one is not blank, and they fit into
  the buffers (16 KiB and 512 parts).\<close>

theorem deferred_join_roundtrip:
  assumes ps: "\<forall>p \<in> set ps. deferrable p" and nb: "\<exists>p \<in> set ps. \<not> blank p"
    and sz: "(\<Sum>p\<leftarrow>ps. Suc (length p)) + 1 < BUFSIZE" and n: "length ps + 2 \<le> MAX_PARTS"
  shows "\<exists>D. path_deferred_join (map LStr ps) = Inr [LStr D]
    \<and> path_resolve_deferred_join [LStr D] = path_join (map LStr ps)"
proof -
  have cs: "\<forall>p \<in> set ps. is_cstring p" using ps by (simp add: deferrable_def)
  have sz': "(\<Sum>p\<leftarrow>ps. Suc (length p)) < BUFSIZE" using sz by simp
  obtain D J where j: "join_parts True ps None = Inr (Some D)" "join_parts False ps None = Inr (Some J)"
    "agree (Suc (length ps)) D J"
    using join_parts_agree [OF ps nb sz'] .
  have len: "length D < BUFSIZE" "Suc (length J) < BUFSIZE"
    using join_parts_bound [of None ps True] join_parts_bound [of None ps False] sz j(1,2)
    by (auto simp: needed_def)
  have "is_cstring D" using join_parts_cstring [OF j(1) cs] by simp
  moreover have "strncpy_t BUFSIZE D (length D) = D" using len by (simp add: strncpy_t_def)
  moreover note agree_join [OF j(3) len(2)]
  ultimately have "path_resolve_deferred_join [LStr D] = Inr [LStr J]"
    using len n by (auto simp: path_resolve_deferred_join_def strchr_None push_buffer_def Let_def)
  then show ?thesis
    by (simp add: path_deferred_join_def path_join_def path_join_parts [OF cs] j push_buffer_def)
qed

theorem deferred_join_roundtrip_witness:
  "\<exists>D. path_deferred_join (map LStr [''obj/'', '''', ''%{cfg.name}'', ''x.o'']) = Inr [LStr D]
    \<and> path_resolve_deferred_join [LStr D] = path_join (map LStr [''obj/'', '''', ''%{cfg.name}'', ''x.o''])"
proof -
  have d: "deferrable ''obj/''" "deferrable ''''" "deferrable ''%{cfg.name}''" "deferrable ''x.o''"
    and b: "\<not> blank ''obj/''" by code_simp+
  show ?thesis
    by (rule deferred_join_roundtrip) (simp_all add: d b BUFSIZE_def MAX_PARTS_def)
qed

text \<open>With a climbing part the two differ: the deferred join trims across the delimiter, so the
  token and what precedes it are lost, while the immediate join only trims the token.\<close>

theorem deferred_join_climb_differs:
  "path_deferred_join [LStr ''a'', LStr ''%{x}'', LStr ''../y''] = Inr [LStr ''y''] \<and>
   path_resolve_deferred_join [LStr ''y''] = Inr [LStr ''y''] \<and>
   path_join [LStr ''a'', LStr ''%{x}'', LStr ''../y''] = Inr [LStr ''a/y'']"
proof -
  let ?d = "DEFERRED_JOIN_DELIMITER"
  have p: "plain_part True ''a''" "plain_part False ''a''" "plain_part False ''%{x}''" by code_simp+
  have m: "\<not> blank ''%{x}''" "segment ''%{x}'' = ''%{x}''"
      "do_absolutetype (strip_dot_slash ''%{x}'') = JOIN_MAYBE_ABSOLUTE"
      "\<not> blank ''../y''" "segment ''../y'' = ''../y''"
      "do_absolutetype (strip_dot_slash ''../y'') = JOIN_RELATIVE"
      "trim_parents (''a'' @ ?d # ''%{x}'') ''../y'' = ('''', ''y'')"
      "trim_parents ''a/%{x}'' ''../y'' = (''a'', ''y'')" by code_simp+
  have y: "?d \<notin> set ''y''" "is_cstring ''y''" by code_simp+
  have "path_join_single None ''a'' True = Inr (Some ''a'')"
      "path_join_single None ''a'' False = Inr (Some ''a'')"
      "path_join_single (Some ''a'') ''%{x}'' False = Inr (Some ''a/%{x}'')"
    using p by (simp_all add: join_plain_single add_slash_def BUFSIZE_def)
  moreover have "path_join_single (Some ''a'') ''%{x}'' True = Inr (Some (''a'' @ ?d # ''%{x}''))"
    using m by (simp add: path_join_single_deferred BUFSIZE_def)
  moreover have "path_join_single (Some (''a'' @ ?d # ''%{x}'')) ''../y'' True = Inr (Some ''y'')"
    using m path_join_single_relative [of "''../y''" True "Some (''a'' @ ?d # ''%{x}'')" "''''" "''y''"]
    by (simp add: add_slash_def BUFSIZE_def)
  moreover have "path_join_single (Some ''a/%{x}'') ''../y'' False = Inr (Some ''a/y'')"
    using m path_join_single_relative [of "''../y''" False "Some ''a/%{x}''" "''a''" "''y''"]
    by (simp add: add_slash_def BUFSIZE_def)
  ultimately have "join_parts True [''a'', ''%{x}'', ''../y''] None = Inr (Some ''y'')"
      "join_parts False [''a'', ''%{x}'', ''../y''] None = Inr (Some ''a/y'')" by simp_all
  with path_join_parts [of "[''a'', ''%{x}'', ''../y'']"] y show ?thesis
    by (simp add: path_join_def path_deferred_join_def path_resolve_deferred_join_def
        push_buffer_def strncpy_t_def BUFSIZE_def)
qed

end
