(* ===== verification/Path_Normalize.thy ===== *)
theory Path_Normalize
  imports Lua_API
begin

text \<open>
  \<open>src/host/path_normalize.c\<close>: removal of \<open>.\<close>, \<open>..\<close> and repeated separators from the file paths in
  a string, around tokens, quotes and white space, which are copied. The scanner is shown to
  compute, for each path of the string, the reference semantics of a stack of components.

  \<open>normalize_substring\<close> gets the bytes from \<open>srcPtr\<close> up to \<open>srcEnd\<close> as a list. The C code also reads
  \<open>*srcEnd\<close>, which its only caller leaves at the end of the string, at white space or at the start
  of a token: none of them is a separator, a dot, a colon or a letter, so that reading it has the
  outcome of reading the terminator.
\<close>

section \<open>One path\<close>


definition is_quote :: "char \<Rightarrow> bool" where
  "is_quote c \<longleftrightarrow> c = CHR 0x22 \<or> c = CHR 0x27"

definition emit :: "nat \<Rightarrow> cstring \<Rightarrow> cstring \<Rightarrow> fault + cstring" where
  \<comment> \<open>\<open>*(dstPtr++) = ..\<close> for each byte of \<open>w\<close>, into a destination of \<open>room\<close> bytes\<close>
  "emit room out w = (if length out + length w \<le> room then Inr (out @ w) else Inl OutOfBounds)"

fun skip_seps :: "cstring \<Rightarrow> cstring" where
  "skip_seps s =
     (if s \<noteq> [] \<and> (is_sep (peek s) \<or> peek s = DOT \<and> (tl s = [] \<or> is_sep (peek (tl s))))
      then skip_seps (tl s) else s)"

declare skip_seps.simps [simp del]

definition at_parent :: "cstring \<Rightarrow> bool" where
  "at_parent s \<longleftrightarrow> peek s = DOT \<and> peek (tl s) = DOT \<and> (drop 2 s = [] \<or> is_sep (peek (drop 2 s)))"

definition drop_folder :: "cstring \<Rightarrow> cstring" where
  \<comment> \<open>\<open>while (--dstPtr != dstRoot && !IS_SEP(dstPtr[-1]));\<close>\<close>
  "drop_folder body = rev (dropWhile (\<lambda>c. \<not> is_sep c) (rev (butlast body)))"

lemma length_skip_seps: "length (skip_seps s) \<le> length s"
proof (induction s rule: skip_seps.induct)
  case (1 s)
  then show ?case by (subst skip_seps.simps) (auto intro: order_trans)
qed

function normalize_loop :: "nat \<Rightarrow> cstring \<Rightarrow> cstring \<Rightarrow> nat \<Rightarrow> fault + cstring" where
  "normalize_loop room src body folderDepth =
     (if src = [] then Inr body
      else
        let s = skip_seps src in
        if s = [] then Inr body
        else if at_parent s then
          (if 0 < folderDepth then normalize_loop room (drop 3 s) (drop_folder body) (folderDepth - 1)
           else bind_f (emit room body ''../'') (\<lambda>b. normalize_loop room (drop 3 s) b folderDepth))
        else
          bind_f (emit room body (takeWhile (\<lambda>c. \<not> is_sep c) s)) (\<lambda>b.
            case dropWhile (\<lambda>c. \<not> is_sep c) s of
              [] \<Rightarrow> Inr b
            | _ # rest \<Rightarrow>
                bind_f (emit room b ''/'') (\<lambda>b. normalize_loop room rest b (Suc folderDepth))))"
  by pat_completeness auto
termination
proof (relation "measure (\<lambda>(room, src, body, folderDepth). length src)", goal_cases)
  case (2 room src body folderDepth s)
  with length_skip_seps [of src] show ?case by (cases "skip_seps src") auto
next
  case (3 room src body folderDepth s x)
  with length_skip_seps [of src] show ?case by (cases "skip_seps src") auto
next
  case (4 room src body folderDepth s x y ys z)
  have "length (dropWhile (\<lambda>c. \<not> is_sep c) s) \<le> length s" by (rule length_dropWhile_le)
  with 4 length_skip_seps [of src] show ?case by simp
qed simp

declare normalize_loop.simps [simp del]

definition trim_seps :: "cstring \<Rightarrow> cstring" where
  "trim_seps body = rev (dropWhile is_sep (rev body))"

definition drive_part :: "cstring \<Rightarrow> cstring \<times> cstring" where
  "drive_part s = (if isalpha_c (peek s) \<and> peek (tl s) = CHR '':'' then (take 2 s, drop 2 s) else ([], s))"

definition sep_part :: "cstring \<Rightarrow> cstring \<times> cstring" where
  "sep_part s =
     (if is_sep (peek s) then (if is_sep (peek (tl s)) then (''//'', drop 2 s) else (''/'', tl s))
      else ([], s))"

definition normalize_substring :: "nat \<Rightarrow> cstring \<Rightarrow> cstring \<Rightarrow> fault + cstring" where
  "normalize_substring sz src dst =
     (let (drive, src1) = drive_part src; (sep, src2) = sep_part src1 in
      bind_f (emit sz dst (drive @ sep)) (\<lambda>root.
        map_sum id (\<lambda>body. root @ trim_seps body) (normalize_loop (sz - length root) src2 [] 0)))"

section \<open>Tokens\<close>

text \<open>A kind of token is given by its opening bytes and its closing byte.\<close>

definition PREMAKE_TOKEN :: "cstring \<times> char" where "PREMAKE_TOKEN = (''%{'', CHR ''}'')"
definition WIN_ENVVAR :: "cstring \<times> char" where "WIN_ENVVAR = (''%'', CHR ''%'')"
definition VS_VAR :: "cstring \<times> char" where "VS_VAR = (''$('', CHR '')'')"
definition UNIX_ENVVAR :: "cstring \<times> char" where "UNIX_ENVVAR = (''${'', CHR ''}'')"

definition starts :: "cstring \<times> char \<Rightarrow> cstring \<Rightarrow> bool" where
  "starts kind p = prefix (fst kind) p"

definition token_start :: "cstring \<Rightarrow> bool" where
  "token_start p \<longleftrightarrow> starts WIN_ENVVAR p \<or> starts VS_VAR p \<or> starts UNIX_ENVVAR p \<or> starts PREMAKE_TOKEN p"

lemmas token_defs = PREMAKE_TOKEN_def WIN_ENVVAR_def VS_VAR_def UNIX_ENVVAR_def starts_def token_start_def

definition do_skip_for :: "cstring \<times> char \<Rightarrow> cstring \<Rightarrow> fault + cstring" where
  \<comment> \<open>the closing byte is looked for from the first opening byte on, and past the terminator\<close>
  "do_skip_for kind p =
     (if starts kind p then
        (case strchr p (snd kind) of None \<Rightarrow> Inl OutOfBounds | Some r \<Rightarrow> Inr (tl r))
      else Inr p)"

lemma do_skip_for_length:
  "do_skip_for kind p = Inr q \<Longrightarrow> length q \<le> length p \<and> (fst kind \<noteq> [] \<and> starts kind p \<longrightarrow> length q < length p)"
  by (auto simp: do_skip_for_def neq_Nil_conv split: if_splits option.splits dest!: strchr_SomeD)

definition skip_kinds :: "cstring \<Rightarrow> fault + cstring" where
  \<comment> \<open>the body of the loop of \<open>skip_tokens\<close>\<close>
  "skip_kinds p =
     bind_f (do_skip_for PREMAKE_TOKEN p) (\<lambda>p.
     bind_f (do_skip_for WIN_ENVVAR p) (\<lambda>p.
     bind_f (do_skip_for VS_VAR p) (do_skip_for UNIX_ENVVAR)))"

lemma skip_kinds_length:
  assumes "skip_kinds p = Inr q"
  shows "length q \<le> length p \<and> (token_start q \<longrightarrow> length q < length p)"
proof -
  obtain p1 p2 p3 where ps: "do_skip_for PREMAKE_TOKEN p = Inr p1" "do_skip_for WIN_ENVVAR p1 = Inr p2"
      "do_skip_for VS_VAR p2 = Inr p3" "do_skip_for UNIX_ENVVAR p3 = Inr q"
    using assms by (auto simp: skip_kinds_def bind_f_Inr_iff)
  note len = ps [THEN do_skip_for_length]
  have False if "length q = length p" "token_start q"
  proof -
    from that len have l: "length p1 = length p" "length p2 = length p1" "length p3 = length p2"
        "length q = length p3" by linarith+
    with len have n: "\<not> starts PREMAKE_TOKEN p" "\<not> starts WIN_ENVVAR p1" "\<not> starts VS_VAR p2"
        "\<not> starts UNIX_ENVVAR p3"
      by (auto simp: PREMAKE_TOKEN_def WIN_ENVVAR_def VS_VAR_def UNIX_ENVVAR_def)
    with ps that show False by (simp add: do_skip_for_def token_start_def)
  qed
  moreover have "length q \<le> length p" using len by linarith
  ultimately show ?thesis using le_neq_implies_less by blast
qed

function skip_tokens :: "cstring \<Rightarrow> fault + cstring" where
  \<comment> \<open>what follows the skipped bytes; the C code returns how many there are\<close>
  "skip_tokens p = bind_f (skip_kinds p) (\<lambda>q. if token_start q then skip_tokens q else Inr q)"
  by pat_completeness auto
termination
  by (relation "measure length") (auto dest: skip_kinds_length)

declare skip_tokens.simps [simp del]

section \<open>The whole string\<close>

text \<open>Where the sub-path that starts here ends: at white space or at the next token.\<close>

primrec sub_length :: "cstring \<Rightarrow> nat" where
  "sub_length [] = 0"
| "sub_length (c # p) = (if isspace_c c \<or> token_start (c # p) then 0 else Suc (sub_length p))"

text \<open>
  One pass of the loop of \<open>path_normalize\<close>. \<open>prev\<close> is \<open>readPtr[-1]\<close>, which exists when
  \<open>readPtr != path\<close>; at the head of the loop \<open>readPtr\<close> and \<open>endPtr\<close> are the same.
\<close>

definition put_token :: "char option \<Rightarrow> cstring \<Rightarrow> cstring \<Rightarrow> fault + cstring" where
  "put_token prev out token =
     (if token = [] then Inr out
      else bind_f
        (case prev of
           None \<Rightarrow> Inr out
         | Some c \<Rightarrow> if out \<noteq> [] \<and> is_sep c \<and> \<not> is_sep (last out) then emit BUFSIZE out [c] else Inr out)
        (\<lambda>out. emit BUFSIZE out token))"

definition put_quote :: "cstring \<Rightarrow> cstring \<Rightarrow> (fault + cstring) \<times> cstring" where
  "put_quote out sub =
     (if sub \<noteq> [] \<and> is_quote (hd sub) then (emit BUFSIZE out [hd sub], tl sub) else (Inr out, sub))"

definition normalize_pass :: "char option \<Rightarrow> cstring \<Rightarrow> cstring \<Rightarrow> fault + (cstring \<times> cstring)" where
  "normalize_pass prev p out =
     bind_f (skip_tokens p) (\<lambda>rest.
     bind_f (put_token prev out (take (length p - length rest) p)) (\<lambda>out.
       let sub = take (sub_length rest) rest; after = drop (sub_length rest) rest;
           (quoted, path) = put_quote out sub in
       bind_f quoted (\<lambda>out.
       bind_f (normalize_substring BUFSIZE path out) (\<lambda>out.
       bind_f (emit BUFSIZE out (takeWhile isspace_c after)) (\<lambda>out.
         Inr (dropWhile isspace_c after, out))))))"
lemma skip_tokens_length: "skip_tokens p = Inr q \<Longrightarrow> length q \<le> length p"
proof (induction p arbitrary: q rule: skip_tokens.induct)
  case (1 p)
  then obtain p' where p: "skip_kinds p = Inr p'" "(if token_start p' then skip_tokens p' else Inr p') = Inr q"
    by (subst (asm) (2) skip_tokens.simps) (auto simp: bind_f_Inr_iff)
  with 1 skip_kinds_length [OF p(1)] show ?case by (fastforce split: if_splits)
qed

lemma skip_tokens_start: "skip_tokens p = Inr q \<Longrightarrow> \<not> token_start q"
proof (induction p arbitrary: q rule: skip_tokens.induct)
  case (1 p)
  then obtain p' where p: "skip_kinds p = Inr p'" "(if token_start p' then skip_tokens p' else Inr p') = Inr q"
    by (subst (asm) (2) skip_tokens.simps) (auto simp: bind_f_Inr_iff)
  with 1 show ?case by (auto split: if_splits)
qed

lemma sub_length_le: "sub_length p \<le> length p"
  by (induction p) auto

lemma normalize_pass_length:
  assumes "normalize_pass prev p out = Inr (p', out')" and "p \<noteq> []"
  shows "length p' < length p"
proof -
  obtain rest where r: "skip_tokens p = Inr rest"
      and p': "p' = dropWhile isspace_c (drop (sub_length rest) rest)"
    using assms(1) unfolding normalize_pass_def Let_def case_prod_beta
    by (auto simp: bind_f_Inr_iff)
  have le: "length p' \<le> length rest - sub_length rest"
    unfolding p' using length_dropWhile_le [of isspace_c "drop (sub_length rest) rest"] by simp
  show ?thesis
  proof (cases "length rest < length p")
    case True
    with le show ?thesis by simp
  next
    case False
    with skip_tokens_length [OF r] assms(2) obtain c t where c: "rest = c # t" "length rest = length p"
      by (cases rest) auto
    with le skip_tokens_start [OF r] p' show ?thesis
      using length_dropWhile_le [of isspace_c t] by (auto split: if_splits)
  qed
qed

function normalize_all :: "char option \<Rightarrow> cstring \<Rightarrow> cstring \<Rightarrow> fault + cstring" where
  "normalize_all prev p out =
     (if p = [] then Inr out
      else bind_f (normalize_pass prev p out) (\<lambda>(p', out').
        normalize_all (Some (last (take (length p - length p') p))) p' out'))"
  by pat_completeness auto
termination
  by (relation "measure (\<lambda>(prev, p, out). length p)") (auto dest: normalize_pass_length)

declare normalize_all.simps [simp del]

definition trim_spaces :: "cstring \<Rightarrow> cstring" where
  "trim_spaces out = rev (dropWhile isspace_c (rev out))"

definition leading_spaces :: "cstring \<Rightarrow> cstring" where
  "leading_spaces path = takeWhile isspace_c path"

definition normalize_string :: "cstring \<Rightarrow> fault + cstring" where
  "normalize_string path =
     (let readPtr = dropWhile isspace_c path; skipped = leading_spaces path;
          prev = (if skipped = [] then None else Some (last skipped)) in
      bind_f (normalize_all prev readPtr []) (\<lambda>out. store BUFSIZE (trim_spaces out)))"

definition path_normalize :: "lval list \<Rightarrow> lua_ret" where
  "path_normalize args =
     bind_f (luaL_checkstring args 1) (\<lambda>path. map_sum id (\<lambda>s. [LStr s]) (normalize_string path))"

text \<open>The call of the scripted \<open>path.normalize\<close>, which a script may override, into a buffer of the
  caller: \<open>script\<close> is the function that the global \<open>path.normalize\<close> holds.\<close>

definition do_normalize :: "(lval list \<Rightarrow> lua_ret) \<Rightarrow> cstring \<Rightarrow> fault + cstring" where
  "do_normalize script path =
     bind_f (script [LStr path]) (\<lambda>results.
     bind_f (luaL_checkstring [case results of [] \<Rightarrow> LNil | v # _ \<Rightarrow> v] 1) (store BUFSIZE))"

section \<open>Reference: a stack of components\<close>

text \<open>
  The components of a path are the runs of bytes between separators, without \<open>.\<close>. A component
  \<open>..\<close> removes the component before it, unless there is none or it is \<open>..\<close> itself.
\<close>

definition components :: "cstring \<Rightarrow> cstring list" where
  "components s = filter (\<lambda>c. c \<noteq> ''.'') (strtok_all is_sep s)"

definition push :: "cstring list \<Rightarrow> cstring \<Rightarrow> cstring list" where
  "push st c = (if c = ''..'' \<and> st \<noteq> [] \<and> last st \<noteq> ''..'' then butlast st else st @ [c])"

definition resolve :: "cstring list \<Rightarrow> cstring list" where
  "resolve cs = foldl push [] cs"

definition render :: "cstring list \<Rightarrow> cstring" where
  "render st = concat (map (\<lambda>c. c @ [SLASH]) st)"

definition joined :: "cstring list \<Rightarrow> cstring" where
  "joined st = butlast (render st)"

definition root_of :: "cstring \<Rightarrow> cstring" where
  "root_of s = fst (drive_part s) @ fst (sep_part (snd (drive_part s)))"

definition below_root :: "cstring \<Rightarrow> cstring" where
  "below_root s = snd (sep_part (snd (drive_part s)))"

text \<open>The normal form of a path.\<close>

definition normal_path :: "cstring \<Rightarrow> cstring" where
  "normal_path s = root_of s @ joined (resolve (components (below_root s)))"

text \<open>Stacks that the rule above builds: some \<open>..\<close>, then names.\<close>

definition is_component :: "cstring \<Rightarrow> bool" where
  "is_component c \<longleftrightarrow> c \<noteq> [] \<and> c \<noteq> ''.'' \<and> (\<forall>x \<in> set c. \<not> is_sep x)"

definition stack :: "cstring list \<Rightarrow> bool" where
  "stack st \<longleftrightarrow> (\<forall>c \<in> set st. is_component c) \<and>
     (\<exists>k ns. st = replicate k ''..'' @ ns \<and> ''..'' \<notin> set ns)"

lemma render_simps [simp]: "render [] = []" "render (st @ [c]) = render st @ c @ [SLASH]"
  "render (c # st) = c @ SLASH # render st"
  by (simp_all add: render_def)

lemma stack_Nil [simp]: "stack []"
  by (simp add: stack_def)

definition names_in :: "cstring list \<Rightarrow> nat" where
  "names_in st = length (filter (\<lambda>c. c \<noteq> ''..'') st)"

lemma names_in_pos: "stack st \<Longrightarrow> 0 < names_in st \<longleftrightarrow> st \<noteq> [] \<and> last st \<noteq> ''..''"
proof -
  assume "stack st"
  then obtain k ns where st: "st = replicate k ''..'' @ ns" "''..'' \<notin> set ns" unfolding stack_def by blast
  then have "filter (\<lambda>c. c \<noteq> ''..'') st = ns" by (auto simp: filter_id_conv)
  moreover have "st \<noteq> [] \<and> last st \<noteq> ''..'' \<longleftrightarrow> ns \<noteq> []"
    using st by (cases k; cases ns rule: rev_cases) (auto simp: last_replicate)
  ultimately show ?thesis by (simp add: names_in_def)
qed

lemma stack_push:
  assumes "stack st" and "is_component c"
  shows "stack (push st c)"
proof -
  obtain k ns where st: "st = replicate k ''..'' @ ns" "''..'' \<notin> set ns" "\<forall>c \<in> set st. is_component c"
    using assms(1) unfolding stack_def by blast
  show ?thesis
  proof (cases "c = ''..'' \<and> st \<noteq> [] \<and> last st \<noteq> ''..''")
    case True
    with st have "ns \<noteq> []" by (auto simp: last_replicate)
    with st have b: "butlast st = replicate k ''..'' @ butlast ns" by (simp add: butlast_append)
    have "''..'' \<notin> set (butlast ns)" "\<forall>c \<in> set (butlast st). is_component c"
      using st by (auto dest: in_set_butlastD)
    with b True show ?thesis unfolding stack_def push_def by auto
  next
    case False
    show ?thesis
    proof (cases "c = ''..''")
      case True
      with False st have "ns = []" by (cases ns rule: rev_cases) auto
      with True False st assms(2) show ?thesis
        unfolding stack_def push_def
        by (auto intro!: exI [of _ "Suc k"] exI [of _ "[]"] simp: replicate_append_same)
    next
      case c: False
      with st assms(2) show ?thesis
        unfolding stack_def push_def by (auto intro!: exI [of _ k] exI [of _ "ns @ [c]"])
    qed
  qed
qed

lemma names_in_push:
  "stack st \<Longrightarrow> names_in (push st c) =
     (if c \<noteq> ''..'' then Suc (names_in st) else names_in st - 1)"
proof (cases "c = ''..'' \<and> st \<noteq> [] \<and> last st \<noteq> ''..''")
  case True
  then obtain st' d where "st = st' @ [d]" by (cases st rule: rev_cases) auto
  with True show ?thesis by (simp add: names_in_def push_def)
next
  case False
  assume "stack st"
  with False names_in_pos [of st] show ?thesis by (auto simp: names_in_def push_def)
qed

lemma stack_resolve: "stack st \<Longrightarrow> \<forall>c \<in> set cs. is_component c \<Longrightarrow> stack (foldl push st cs)"
  by (induction cs arbitrary: st) (auto simp: stack_push)

subsection \<open>The scanner computes the reference\<close>

lemma components_sep [simp]: "is_sep c \<Longrightarrow> components (c # s) = components s"
  by (simp add: components_def)

lemma components_Nil [simp]: "components [] = []"
  by (simp add: components_def)

lemma components_word:
  assumes "w \<noteq> []" "\<forall>c \<in> set w. \<not> is_sep c" "rest = [] \<or> is_sep (hd rest)"
  shows "components (w @ rest) = (if w = ''.'' then [] else [w]) @ components (tl rest)"
proof (cases rest)
  case Nil
  with assms show ?thesis by (simp add: components_def strtok_all_single)
next
  case (Cons c t)
  with assms show ?thesis by (simp add: components_def strtok_all_token)
qed

lemma components_skip: "components (skip_seps s) = components s"
proof (induction s rule: skip_seps.induct)
  case (1 s)
  show ?case
  proof (cases "s \<noteq> [] \<and> (is_sep (peek s) \<or> peek s = DOT \<and> (tl s = [] \<or> is_sep (peek (tl s))))")
    case True
    then obtain c t where s: "s = c # t" "is_sep c \<or> c = DOT \<and> (t = [] \<or> is_sep (peek t))"
      by (cases s) auto
    have "components t = components s"
    proof (cases "is_sep c")
      case False
      with s have "c = DOT" "t = [] \<or> is_sep (hd t)" by (auto simp: peek_def split: list.splits)
      with components_word [of "''.''" t] s show ?thesis by (cases t) auto
    qed (simp add: s)
    with 1 True s show ?thesis by (subst skip_seps.simps) simp
  next
    case False
    then have "skip_seps s = s" by (subst skip_seps.simps) auto
    then show ?thesis by simp
  qed
qed

lemma skip_seps_word:
  assumes "skip_seps s \<noteq> []"
  obtains w rest where "skip_seps s = w @ rest" "w \<noteq> []" "w \<noteq> ''.''" "\<forall>c \<in> set w. \<not> is_sep c"
    "rest = [] \<or> is_sep (hd rest)" "takeWhile (\<lambda>c. \<not> is_sep c) (skip_seps s) = w"
    "dropWhile (\<lambda>c. \<not> is_sep c) (skip_seps s) = rest"
proof -
  let ?t = "skip_seps s"
  have stop: "\<not> (is_sep (peek t) \<or> peek t = DOT \<and> (tl t = [] \<or> is_sep (peek (tl t))))"
    if "skip_seps s = t" "t \<noteq> []" for t
    using that
  proof (induction s rule: skip_seps.induct)
    case (1 s)
    then show ?case by (subst (asm) (2) skip_seps.simps) (auto split: if_splits)
  qed
  from stop [OF refl assms] have n: "\<not> is_sep (hd ?t)" "?t \<noteq> [DOT]" "hd ?t = DOT \<longrightarrow> \<not> is_sep (hd (tl ?t))"
    using assms by (cases ?t; cases "tl ?t"; auto)+
  let ?w = "takeWhile (\<lambda>c. \<not> is_sep c) ?t" and ?r = "dropWhile (\<lambda>c. \<not> is_sep c) ?t"
  have "?w \<noteq> []" using n(1) assms by (cases ?t) auto
  moreover have "?w \<noteq> ''.''" using n assms by (cases ?t; cases "tl ?t") auto
  moreover have "?r = [] \<or> is_sep (hd ?r)" using hd_dropWhile [of "\<lambda>c. \<not> is_sep c" ?t] by auto
  moreover have "\<forall>c \<in> set ?w. \<not> is_sep c" by (auto dest: set_takeWhileD)
  ultimately show ?thesis by (intro that [of ?w ?r]) simp_all
qed

lemma skip_seps_Nil: "skip_seps s = [] \<Longrightarrow> components s = []"
  using components_skip [of s] by simp

lemma at_parent_word:
  assumes "w \<noteq> []" "\<forall>c \<in> set w. \<not> is_sep c" "rest = [] \<or> is_sep (hd rest)"
  shows "at_parent (w @ rest) \<longleftrightarrow> w = ''..''" and "w = ''..'' \<Longrightarrow> drop 3 (w @ rest) = tl rest"
proof -
  show "at_parent (w @ rest) \<longleftrightarrow> w = ''..''"
    using assms by (cases w; cases "tl w"; cases "tl (tl w)"; cases rest) (auto simp: at_parent_def)
  show "w = ''..'' \<Longrightarrow> drop 3 (w @ rest) = tl rest" by (simp add: drop_Suc eval_nat_numeral)
qed

lemma render_end: "render st = [] \<or> last (render st) = SLASH"
  by (cases st rule: rev_cases) auto

lemma drop_folder_render:
  assumes "\<forall>x \<in> set c. \<not> is_sep x"
  shows "drop_folder (render (st @ [c])) = render st"
proof -
  have "dropWhile (\<lambda>x. \<not> is_sep x) (rev (render st)) = rev (render st)"
    using render_end [of st] by (cases "render st" rule: rev_cases) auto
  moreover have "dropWhile (\<lambda>x. \<not> is_sep x) (rev c @ rev (render st)) = dropWhile (\<lambda>x. \<not> is_sep x) (rev (render st))"
    using assms by (intro dropWhile_append2) simp
  ultimately show ?thesis by (simp add: drop_folder_def butlast_append)
qed

lemma drop_folder_push:
  assumes "stack st" "0 < names_in st"
  shows "drop_folder (render st) = render (push st ''..'')"
proof -
  from assms names_in_pos obtain st' c where st: "st = st' @ [c]" "c \<noteq> ''..''"
    by (cases st rule: rev_cases) auto
  moreover from st assms(1) have "\<forall>x \<in> set c. \<not> is_sep x" by (simp add: stack_def is_component_def)
  ultimately show ?thesis using drop_folder_render [of c st'] by (simp add: push_def)
qed

lemma length_drop_folder: "length (drop_folder b) \<le> length b"
proof -
  have "length (drop_folder b) \<le> length (butlast b)"
    unfolding drop_folder_def length_rev by (rule order_trans [OF length_dropWhile_le]) simp
  then show ?thesis by simp
qed

lemma normalize_loop_render:
  "src = [] \<or> length (render st) + length src < room \<Longrightarrow> stack st \<Longrightarrow>
   \<exists>body. normalize_loop room src (render st) (names_in st) = Inr body
     \<and> (let R = render (foldl push st (components src)) in body = R \<or> body @ [SLASH] = R)
     \<and> length body \<le> length (render st) + length src + (if src = [] then 0 else 1)"
proof (induction "length src" arbitrary: src st rule: less_induct)
  case less
  show ?case
  proof (cases "src = [] \<or> skip_seps src = []")
    case True
    then show ?thesis by (auto simp: normalize_loop.simps [of room src] skip_seps_Nil)
  next
    case False
    then have ne: "src \<noteq> []" "skip_seps src \<noteq> []" by auto
    from skip_seps_word [OF ne(2)] obtain w rest where w: "skip_seps src = w @ rest" "w \<noteq> []" "w \<noteq> ''.''"
        "\<forall>c \<in> set w. \<not> is_sep c" "rest = [] \<or> is_sep (hd rest)"
        "takeWhile (\<lambda>c. \<not> is_sep c) (skip_seps src) = w" "dropWhile (\<lambda>c. \<not> is_sep c) (skip_seps src) = rest" .
    have comps: "components src = w # components (tl rest)"
      using components_word [OF w(2,4,5)] components_skip [of src] w(1,3) by simp
    have len: "length w + length rest \<le> length src" using length_skip_seps [of src] w(1) by simp
    have shorter: "length (tl rest) < length src" using len w(2) by (cases w) auto
    have "is_component w" using w(2-4) by (simp add: is_component_def)
    then have st: "stack (push st w)" using less.prems(2) by (rule stack_push [rotated])
    note par = at_parent_word [OF w(2,4,5)]
    show ?thesis
    proof (cases "w = ''..''")
      case parent: True
      note IH = less.hyps [OF shorter _ st]
      show ?thesis
      proof (cases "0 < names_in st")
        case True
        have push: "render (push st w) = drop_folder (render st)" "names_in (push st w) = names_in st - 1"
          using drop_folder_push [OF less.prems(2) True] names_in_push [OF less.prems(2)] parent by simp_all
        have step: "normalize_loop room src (render st) (names_in st) =
            normalize_loop room (tl rest) (render (push st w)) (names_in (push st w))"
          using ne True par w(1) parent push by (subst normalize_loop.simps) (simp add: Let_def)
        have le: "length (render (push st w)) \<le> length (render st)"
          unfolding push by (rule length_drop_folder)
        then have "tl rest = [] \<or> length (render (push st w)) + length (tl rest) < room"
          using less.prems(1) shorter ne by auto
        from IH [OF this] step comps le shorter ne show ?thesis
          by (auto simp: Let_def split: if_splits)
      next
        case False
        have push: "render (push st w) = render st @ ''../''" "names_in (push st w) = 0" "names_in st = 0"
          using False names_in_pos [OF less.prems(2)] names_in_push [OF less.prems(2)] parent
          by (auto simp: push_def)
        have src: "2 + length rest \<le> length src" using len parent by simp
        then have "emit room (render st) ''../'' = Inr (render (push st w))"
          using less.prems(1) ne push by (auto simp: emit_def)
        then have step: "normalize_loop room src (render st) (names_in st) =
            normalize_loop room (tl rest) (render (push st w)) (names_in (push st w))"
          using ne par w(1) parent push by (subst normalize_loop.simps) (simp add: Let_def)
        have "tl rest = [] \<or> length (render (push st w)) + length (tl rest) < room"
          using less.prems(1) src ne push by (cases rest) auto
        from IH [OF this] step comps src ne push show ?thesis
          by (cases rest) (auto simp: Let_def split: if_splits)
      qed
    next
      case name: False
      have push: "render (push st w) = render st @ w @ [SLASH]" "names_in (push st w) = Suc (names_in st)"
        using names_in_push [OF less.prems(2), of w] name by (simp_all add: push_def)
      have e1: "emit room (render st) w = Inr (render st @ w)"
        using less.prems(1) ne len by (auto simp: emit_def)
      show ?thesis
      proof (cases rest)
        case Nil
        then have "normalize_loop room src (render st) (names_in st) = Inr (render st @ w)"
          using ne par w(1,4) name e1
          by (subst normalize_loop.simps)
            (simp add: Let_def takeWhile_eq_all_conv [THEN iffD2] dropWhile_eq_Nil_conv [THEN iffD2])
        with Nil comps len push ne show ?thesis by (simp add: Let_def)
      next
        case (Cons c t)
        have e2: "emit room (render st @ w) ''/'' = Inr (render (push st w))"
          using less.prems(1) ne len push Cons by (auto simp: emit_def)
        have step: "normalize_loop room src (render st) (names_in st) =
            normalize_loop room (tl rest) (render (push st w)) (names_in (push st w))"
          using ne par w(1,6,7) name e1 e2 Cons push by (subst normalize_loop.simps) (simp add: Let_def)
        have "tl rest = [] \<or> length (render (push st w)) + length (tl rest) < room"
          using less.prems(1) len ne push Cons by auto
        from less.hyps [OF shorter this st] step comps len ne push Cons show ?thesis
          by (auto simp: Let_def split: if_splits)
      qed
    qed
  qed
qed

lemma trim_render:
  assumes "stack st" "body = render st \<or> body @ [SLASH] = render st"
  shows "trim_seps body = joined st"
proof (cases st rule: rev_cases)
  case Nil
  with assms show ?thesis by (auto simp: trim_seps_def joined_def)
next
  case (snoc st' c)
  with assms(1) have c: "c \<noteq> []" "\<forall>x \<in> set c. \<not> is_sep x" by (auto simp: stack_def is_component_def)
  then have l: "rev (render st' @ c) = last c # tl (rev c) @ rev (render st')" "\<not> is_sep (last c)"
    by (cases c rule: rev_cases; simp)+
  have "trim_seps (render st' @ c) = render st' @ c" "trim_seps (render st' @ c @ [SLASH]) = render st' @ c"
    using l(2) c(1) by (cases c rule: rev_cases; simp add: trim_seps_def)+
  with assms(2) snoc show ?thesis by (auto simp: joined_def butlast_append)
qed

lemma components_ok: "\<forall>c \<in> set (components s). is_component c"
  using strtok_all_word by (auto simp: components_def is_component_def)

lemma stack_components: "stack (resolve (components s))"
  unfolding resolve_def by (intro stack_resolve components_ok) simp

lemma root_split:
  "length (root_of s) + length (below_root s) = length s"
  "root_of s = [] \<or> below_root s = [] \<or> length (root_of s) \<le> length s"
proof -
  have "is_sep (peek t) \<Longrightarrow> t \<noteq> []" "is_sep (peek (tl t)) \<Longrightarrow> tl t \<noteq> []" for t by auto
  then have sep: "length (fst (sep_part t)) + length (snd (sep_part t)) = length t" for t
    by (cases t; cases "tl t") (auto simp: sep_part_def)
  have "length (fst (drive_part s)) + length (snd (drive_part s)) = length s"
    by (auto simp: drive_part_def)
  then show "length (root_of s) + length (below_root s) = length s"
    using sep [of "snd (drive_part s)"] by (simp add: root_of_def below_root_def)
  then show "root_of s = [] \<or> below_root s = [] \<or> length (root_of s) \<le> length s" by simp
qed

lemma normalize_substring_normal:
  assumes "length dst + length s < sz"
  shows "normalize_substring sz s dst = Inr (dst @ normal_path s)"
proof -
  have l: "length dst + length (root_of s) + length (below_root s) < sz"
    using assms root_split(1) [of s] by simp
  then have e: "emit sz dst (root_of s) = Inr (dst @ root_of s)" by (simp add: emit_def)
  have "below_root s = [] \<or> length (render []) + length (below_root s) < sz - length (dst @ root_of s)"
    using l by auto
  from normalize_loop_render [OF this stack_Nil] obtain body where b:
      "normalize_loop (sz - length (dst @ root_of s)) (below_root s) [] 0 = Inr body"
      "body = render (resolve (components (below_root s)))
        \<or> body @ [SLASH] = render (resolve (components (below_root s)))"
    by (auto simp: names_in_def resolve_def Let_def)
  have "normalize_substring sz s dst =
      bind_f (emit sz dst (root_of s)) (\<lambda>root. map_sum id (\<lambda>body. root @ trim_seps body)
        (normalize_loop (sz - length root) (below_root s) [] 0))"
    by (simp add: normalize_substring_def case_prod_beta root_of_def below_root_def)
  then show ?thesis
    using e b(1) trim_render [OF stack_components b(2)] by (simp add: normal_path_def)
qed

section \<open>Paths without tokens, white space and quotes\<close>

definition simple_path :: "cstring \<Rightarrow> bool" where
  "simple_path p \<longleftrightarrow> is_cstring p \<and>
     (\<forall>c \<in> set p. \<not> isspace_c c \<and> \<not> is_quote c \<and> c \<noteq> CHR ''%'' \<and> c \<noteq> CHR ''$'')"

lemma simple_no_token: "simple_path p \<Longrightarrow> \<not> token_start p"
  by (cases p) (auto simp: simple_path_def token_defs)

lemma simple_tl: "simple_path (c # p) \<Longrightarrow> simple_path p"
  by (simp add: simple_path_def)

lemma skip_tokens_none: "\<not> token_start p \<Longrightarrow> skip_tokens p = Inr p"
  by (subst skip_tokens.simps) (simp add: skip_kinds_def do_skip_for_def token_start_def)

lemma sub_length_simple: "simple_path p \<Longrightarrow> sub_length p = length p"
  by (induction p) (auto simp: simple_no_token simple_tl dest: simple_tl simp: simple_path_def token_defs)

lemma set_render: "set (render st) \<subseteq> insert SLASH (\<Union> (set ` set st))"
  by (auto simp: render_def)

lemma set_joined: "set (joined st) \<subseteq> insert SLASH (\<Union> (set ` set st))"
  unfolding joined_def using set_render [of st] by (auto dest: in_set_butlastD)

lemma set_push: "\<Union> (set ` set (push st c)) \<subseteq> \<Union> (set ` set st) \<union> set c"
  by (auto simp: push_def dest: in_set_butlastD)

lemma set_resolve: "\<Union> (set ` set (foldl push st cs)) \<subseteq> \<Union> (set ` set st) \<union> \<Union> (set ` set cs)"
proof (induction cs arbitrary: st)
  case (Cons c cs)
  from Cons [of "push st c"] set_push [of st c] show ?case by auto
qed simp

lemma set_strtok: "c \<in> set (strtok_all d s) \<Longrightarrow> set c \<subseteq> set s"
  using strtok_all_word by blast

lemma length_render_components: "length (render (components s)) \<le> Suc (length s)"
proof (induction "length s" arbitrary: s rule: less_induct)
  case less
  show ?case
  proof (cases "skip_seps s = []")
    case True
    then show ?thesis by (simp add: skip_seps_Nil)
  next
    case False
    from skip_seps_word [OF this] obtain w rest where w: "skip_seps s = w @ rest" "w \<noteq> []" "w \<noteq> ''.''"
        "\<forall>c \<in> set w. \<not> is_sep c" "rest = [] \<or> is_sep (hd rest)" .
    have c: "components s = w # components (tl rest)"
      using components_word [OF w(2,4,5)] components_skip [of s] w(1,3) by simp
    have l: "length w + length rest \<le> length s" using length_skip_seps [of s] w(1) by simp
    show ?thesis
    proof (cases rest)
      case (Cons x t)
      with l w(2) have "length (render (components t)) \<le> Suc (length t)" by (intro less) auto
      with c l Cons show ?thesis by simp
    qed (use c l in simp)
  qed
qed

lemma render_append: "render (st @ st') = render st @ render st'"
  by (simp add: render_def)

lemma length_render_push: "length (render (push st c)) \<le> length (render st) + Suc (length c)"
  by (cases st rule: rev_cases) (auto simp: push_def render_append)

lemma length_render_resolve:
  "length (render (foldl push st cs)) \<le> length (render st) + length (render cs)"
proof (induction cs arbitrary: st)
  case (Cons c cs)
  from Cons [of "push st c"] length_render_push [of st c] show ?case by simp
qed simp

lemma length_normal_path: "length (normal_path s) \<le> length s"
proof -
  have "length (render (resolve (components (below_root s)))) \<le> Suc (length (below_root s))"
    using length_render_resolve [of "[]"] length_render_components [of "below_root s"]
    unfolding resolve_def by (auto intro: order_trans)
  then show ?thesis using root_split(1) [of s] by (simp add: normal_path_def joined_def)
qed

lemma set_root: "set (root_of s) \<union> set (below_root s) \<subseteq> insert SLASH (set s)"
proof -
  have "set (fst (drive_part s)) \<union> set (snd (drive_part s)) \<subseteq> set s"
    by (auto simp: drive_part_def dest: in_set_takeD in_set_dropD)
  moreover have "set (fst (sep_part t)) \<subseteq> {SLASH}" "set (snd (sep_part t)) \<subseteq> set t" for t
    by (cases t; auto simp: sep_part_def dest: in_set_dropD)+
  ultimately show ?thesis unfolding root_of_def below_root_def by fastforce
qed

lemma set_joined_resolve: "set (joined (resolve (components t))) \<subseteq> insert SLASH (set t)"
proof -
  have "\<Union> (set ` set (components t)) \<subseteq> set t"
    using set_strtok by (fastforce simp: components_def)
  then show ?thesis
    using set_joined [of "resolve (components t)"] set_resolve [of "[]" "components t"]
    unfolding resolve_def by fastforce
qed

lemma set_normal_path: "set (normal_path s) \<subseteq> insert SLASH (set s)"
  using set_root [of s] set_joined_resolve by (fastforce simp: normal_path_def)

lemma simple_normal_path: "simple_path p \<Longrightarrow> simple_path (normal_path p)"
proof -
  have "\<not> isspace_c SLASH" "\<not> is_quote SLASH" by code_simp+
  then show "simple_path p \<Longrightarrow> ?thesis"
    using set_normal_path [of p] by (fastforce simp: simple_path_def is_cstring_def)
qed

lemma normalize_string_simple:
  assumes p: "simple_path p" and l: "length p < BUFSIZE"
  shows "normalize_string p = Inr (normal_path p)"
proof -
  have ns: "\<not> isspace_c c" if "c \<in> set q" "simple_path q" for c q using that by (auto simp: simple_path_def)
  have dw: "dropWhile isspace_c q = q" "takeWhile isspace_c q = []" if "simple_path q" for q
    using ns [OF _ that] by (cases q; auto)+
  have pass: "normalize_pass None p [] = Inr ([], normal_path p)" if "p \<noteq> []"
  proof -
    have "\<not> is_quote (hd p)" using p that by (auto simp: simple_path_def)
    then show ?thesis
      using p l by (simp add: normalize_pass_def skip_tokens_none simple_no_token put_token_def
          sub_length_simple put_quote_def normalize_substring_normal emit_def length_normal_path
          order_trans [OF length_normal_path less_imp_le])
  qed
  have "normalize_all None p [] = Inr (normal_path p)"
  proof (cases "p = []")
    case True
    then have "normal_path p = []"
      by (simp add: normal_path_def root_of_def below_root_def drive_part_def sep_part_def char_defs resolve_def joined_def)
    with True show ?thesis by (simp add: normalize_all.simps)
  next
    case False
    with pass show ?thesis by (simp add: normalize_all.simps [of None p] normalize_all.simps [of _ "[]"])
  qed
  moreover have "trim_spaces (normal_path p) = normal_path p"
    using dw(1) [of "rev (normal_path p)"] simple_normal_path [OF p]
    by (simp add: trim_spaces_def simple_path_def is_cstring_def)
  ultimately show ?thesis
    using dw [OF p] length_normal_path [of p] l
    by (simp add: normalize_string_def leading_spaces_def Let_def)
qed

text \<open>C3: On a path without tokens, white space and quotes, \<open>path.normalize\<close> computes the reference
  semantics: the root, followed by the components, from which the stack rule has removed every \<open>.\<close>
  and every \<open>..\<close> that has a name before it, with one slash between two of them and none at the end.\<close>

theorem path_normalize_normal_form:
  assumes "simple_path p" and "length p < BUFSIZE"
  shows "path_normalize [LStr p] = Inr [LStr (normal_path p)]"
proof -
  have "is_cstring p" using assms(1) by (simp add: simple_path_def)
  with normalize_string_simple [OF assms] show ?thesis by (simp add: path_normalize_def)
qed

theorem path_normalize_normal_form_witness:
  "path_normalize [LStr ''c:/a/./../../b//c/''] = Inr [LStr ''c:/../b/c'']"
proof -
  have "simple_path ''c:/a/./../../b//c/''" "normal_path ''c:/a/./../../b//c/'' = ''c:/../b/c''"
    by code_simp+
  then show ?thesis
    using path_normalize_normal_form [of "''c:/a/./../../b//c/''"] by (simp add: BUFSIZE_def)
qed

subsection \<open>Normal forms are stable\<close>

lemma joined_Cons: "joined (c # st) = (if st = [] then c else c @ SLASH # joined st)"
proof (cases st)
  case (Cons d st')
  then have "render st \<noteq> []" by simp
  with Cons show ?thesis by (simp add: joined_def butlast_append)
qed (simp add: joined_def)

lemma components_joined: "\<forall>c \<in> set st. is_component c \<Longrightarrow> components (joined st) = st"
proof (induction st)
  case (Cons c st)
  then have c: "c \<noteq> []" "c \<noteq> ''.''" "\<forall>x \<in> set c. \<not> is_sep x" by (simp_all add: is_component_def)
  from Cons components_word [OF c(1,3), of "[]"] components_word [OF c(1,3), of "SLASH # joined st"] c(2)
  show ?case by (simp add: joined_Cons)
qed (simp add: joined_def)

lemma resolve_stack: "stack st \<Longrightarrow> resolve st = st"
proof (induction st rule: rev_induct)
  case (snoc c st)
  from snoc.prems obtain k ns where s: "st @ [c] = replicate k ''..'' @ ns" "''..'' \<notin> set ns"
      "\<forall>x \<in> set (st @ [c]). is_component x" unfolding stack_def by blast
  have st: "stack st \<and> (c = ''..'' \<longrightarrow> st = [] \<or> last st = ''..'')"
  proof (cases ns rule: rev_cases)
    case Nil
    with s obtain k' where "k = Suc k'" by (cases k) auto
    with s Nil have "st = replicate k' ''..''" by (simp add: replicate_append_same [symmetric])
    moreover have "\<forall>x \<in> set st. is_component x" using s(3) by simp
    ultimately show ?thesis
      unfolding stack_def by (cases "k' = 0") (auto intro!: exI [of _ k'] exI [of _ "[]"])
  next
    case (snoc ns' d)
    with s have "st = replicate k ''..'' @ ns'" "c = d" by auto
    with s snoc show ?thesis unfolding stack_def by auto
  qed
  with snoc.IH show ?case by (auto simp: resolve_def push_def)
qed (simp add: resolve_def)

lemma joined_start: "\<forall>c \<in> set st. is_component c \<Longrightarrow> \<not> is_sep (peek (joined st))"
proof (cases st)
  case (Cons c st')
  moreover assume "\<forall>c \<in> set st. is_component c"
  ultimately have "c \<noteq> []" "\<not> is_sep (hd c)" by (simp_all add: is_component_def)
  with Cons show ?thesis by (cases c) (auto simp: joined_Cons)
qed (simp add: joined_def)

text \<open>A colon below the root could turn the first component into a drive; the statements exclude it.\<close>

definition drive_free :: "cstring \<Rightarrow> bool" where
  "drive_free p \<longleftrightarrow> CHR '':'' \<notin> set (snd (drive_part p))"

lemma normal_path_parts:
  assumes "drive_free p"
  shows "root_of (normal_path p) = root_of p"
    and "below_root (normal_path p) = joined (resolve (components (below_root p)))"
proof -
  let ?j = "joined (resolve (components (below_root p)))"
  obtain d b where d: "drive_part p = (d, b)" by fastforce
  obtain r t where r: "sep_part b = (r, t)" by fastforce
  have st: "\<forall>c \<in> set (resolve (components t)). is_component c" for t
    using stack_components [of t] by (simp add: stack_def)
  note start = joined_start [OF st, of "below_root p"]
  have "set ?j \<subseteq> insert SLASH (set t)"
    using set_joined_resolve [of t] by (simp add: below_root_def d r)
  moreover have "set t \<subseteq> set b" using r by (cases b) (auto simp: sep_part_def dest: in_set_dropD split: if_splits)
  ultimately have colon: "CHR '':'' \<notin> set ?j" using assms d by (auto simp: drive_free_def)
  have r_cases: "r = [] \<or> r = ''/'' \<or> r = ''//''" using r by (auto simp: sep_part_def split: if_splits)
  have n: "normal_path p = d @ r @ ?j" by (simp add: normal_path_def root_of_def d r)
  have "drive_part (d @ r @ ?j) = (d, r @ ?j)"
  proof (cases "d = []")
    case True
    have "peek (tl (r @ ?j)) \<noteq> CHR '':''"
      using colon r_cases by (cases ?j; cases "tl ?j") auto
    with True show ?thesis by (simp add: drive_part_def)
  next
    case False
    with d obtain a where "d = [a, CHR '':'']" "isalpha_c a"
      by (cases p; cases "tl p") (auto simp: drive_part_def split: if_splits)
    then show ?thesis by (simp add: drive_part_def)
  qed
  moreover have "sep_part (r @ ?j) = (r, ?j)"
    using r_cases start by (auto simp: sep_part_def)
  ultimately show "root_of (normal_path p) = root_of p" "below_root (normal_path p) = ?j"
    by (simp_all add: n root_of_def below_root_def d r)
qed

lemma normal_path_idem: "drive_free p \<Longrightarrow> normal_path (normal_path p) = normal_path p"
  using stack_components [of "below_root p"]
  by (simp add: normal_path_def [of "normal_path p"] normal_path_parts components_joined resolve_stack stack_def)
    (simp add: normal_path_def)

text \<open>C26: Normalising is idempotent, and its result is canonical: below the root it is some \<open>..\<close>
  followed by names, none of them empty, \<open>.\<close> or \<open>..\<close>.\<close>

theorem path_normalize_canonical:
  assumes "simple_path p" and "length p < BUFSIZE" and "drive_free p"
  shows "\<exists>q k ns. path_normalize [LStr p] = Inr [LStr q] \<and> path_normalize [LStr q] = Inr [LStr q]
    \<and> q = root_of p @ joined (replicate k ''..'' @ ns)
    \<and> (\<forall>n \<in> set ns. n \<noteq> '''' \<and> n \<noteq> ''.'' \<and> n \<noteq> ''..'' \<and> (\<forall>c \<in> set n. \<not> is_sep c))"
proof -
  let ?q = "normal_path p"
  have "path_normalize [LStr ?q] = Inr [LStr ?q]"
    using normalize_string_simple [of ?q] simple_normal_path [OF assms(1)] length_normal_path [of p]
      assms(2) normal_path_idem [OF assms(3)]
    by (simp add: path_normalize_def simple_path_def)
  moreover have "path_normalize [LStr p] = Inr [LStr ?q]"
    using normalize_string_simple [OF assms(1,2)] assms(1) by (simp add: path_normalize_def simple_path_def)
  moreover obtain k ns where "resolve (components (below_root p)) = replicate k ''..'' @ ns" "''..'' \<notin> set ns"
      "\<forall>n \<in> set ns. is_component n"
    using stack_components [of "below_root p"] unfolding stack_def by auto
  ultimately show ?thesis
    by (intro exI [of _ ?q] exI [of _ k] exI [of _ ns]) (auto simp: normal_path_def is_component_def)
qed

theorem path_normalize_canonical_witness:
  "\<exists>q k ns. path_normalize [LStr ''../a/../b''] = Inr [LStr q] \<and> path_normalize [LStr q] = Inr [LStr q]
    \<and> q = root_of ''../a/../b'' @ joined (replicate k ''..'' @ ns)
    \<and> (\<forall>n \<in> set ns. n \<noteq> '''' \<and> n \<noteq> ''.'' \<and> n \<noteq> ''..'' \<and> (\<forall>c \<in> set n. \<not> is_sep c))"
proof -
  have "simple_path ''../a/../b''" "drive_free ''../a/../b''" by code_simp+
  then show ?thesis by (intro path_normalize_canonical) (simp_all add: BUFSIZE_def)
qed

section \<open>The directory that a path denotes\<close>

text \<open>Following components from a directory, given by the names below its root.\<close>

definition enter :: "cstring list \<Rightarrow> cstring \<Rightarrow> cstring list" where
  "enter dir c = (if c = ''..'' then butlast dir else dir @ [c])"

definition follow :: "cstring list \<Rightarrow> cstring list \<Rightarrow> cstring list" where
  "follow dir cs = foldl enter dir cs"

lemma follow_push: "follow dir (push st c) = enter (follow dir st) c"
  by (cases st rule: rev_cases) (auto simp: follow_def push_def enter_def)

lemma follow_resolve_aux: "follow dir (foldl push st cs) = foldl enter (follow dir st) cs"
  by (induction cs arbitrary: st) (simp_all add: follow_push)

lemma follow_resolve: "follow dir (resolve cs) = follow dir cs"
  using follow_resolve_aux [of dir "[]" cs] by (simp add: resolve_def follow_def)

text \<open>C25: Normalising does not change the directory that a path denotes: the root is kept, and from
  every directory the components of the result lead where those of the argument lead.\<close>

theorem path_normalize_meaning:
  assumes "simple_path p" and "length p < BUFSIZE" and "drive_free p"
  shows "\<exists>q. path_normalize [LStr p] = Inr [LStr q] \<and> root_of q = root_of p \<and>
    (\<forall>dir. follow dir (components (below_root q)) = follow dir (components (below_root p)))"
proof -
  have "components (below_root (normal_path p)) = resolve (components (below_root p))"
    using stack_components [of "below_root p"]
    by (simp add: normal_path_parts [OF assms(3)] components_joined stack_def)
  moreover have "path_normalize [LStr p] = Inr [LStr (normal_path p)]"
    using normalize_string_simple [OF assms(1,2)] assms(1) by (simp add: path_normalize_def simple_path_def)
  ultimately show ?thesis
    by (intro exI [of _ "normal_path p"]) (simp add: normal_path_parts [OF assms(3)] follow_resolve)
qed

theorem path_normalize_meaning_witness:
  "\<exists>q. path_normalize [LStr ''/a//b/../c''] = Inr [LStr q] \<and> root_of q = root_of ''/a//b/../c'' \<and>
    (\<forall>dir. follow dir (components (below_root q)) = follow dir (components (below_root ''/a//b/../c'')))"
proof -
  have "simple_path ''/a//b/../c''" "drive_free ''/a//b/../c''" by code_simp+
  then show ?thesis by (intro path_normalize_meaning) (simp_all add: BUFSIZE_def)
qed

section \<open>Unterminated tokens\<close>

lemma skip_tokens_unterminated:
  "CHR ''}'' \<notin> set t \<Longrightarrow> skip_tokens (''%{'' @ t) = Inl OutOfBounds"
  by (subst skip_tokens.simps) (simp add: skip_kinds_def do_skip_for_def PREMAKE_TOKEN_def starts_def)

text \<open>A string that starts with an unterminated \<open>%{\<close> token makes the scanner run past the end of
  the string, looking for the closing brace.\<close>

theorem path_normalize_overread:
  assumes "CHR ''}'' \<notin> set t" and "is_cstring t"
  shows "path_normalize [LStr (''%{'' @ t)] = Inl OutOfBounds"
proof -
  have "\<not> isspace_c (CHR ''%'')" by code_simp
  with assms skip_tokens_unterminated [OF assms(1)] show ?thesis
    by (simp add: path_normalize_def normalize_string_def leading_spaces_def Let_def
        normalize_all.simps [of _ "CHR ''%'' # _"] normalize_pass_def)
qed

theorem path_normalize_overread_witness: "path_normalize [LStr ''%{cfg.name''] = Inl OutOfBounds"
  using path_normalize_overread [of "''cfg.name''"] by simp

end
