(* ===== verification/Path_Resolve.thy ===== *)
theory Path_Resolve
  imports Path_Absolute Path_Normalize
begin

text \<open>
  \<open>src/host/path_translate.c\<close> and \<open>src/host/path_getabsolute.c\<close>: the translation of separators,
  for a string or for each value of a table, and the resolution of a path against a directory.
\<close>

section \<open>Translating separators\<close>

definition do_translate :: "cstring \<Rightarrow> char \<Rightarrow> string" where
  \<comment> \<open>in place; a separator of NUL leaves NUL bytes in the buffer\<close>
  "do_translate value sep = map (\<lambda>ch. if ch = SLASH \<or> ch = BACKSLASH then sep else ch) value"

definition translate :: "cstring \<Rightarrow> char \<Rightarrow> fault + string" where
  "translate value sep = map_sum id (\<lambda>s. do_translate s sep) (store BUFSIZE value)"

text \<open>
  The loop over a table: stack slot 1 is the table and slot 4 the value of the current entry when
  the separator is the default one. With a separator in slot 2 everything above it is one slot
  higher, and slot 4 is the entry's \<^emph>\<open>key\<close>: reading it as a string converts a number in place, and
  \<open>lua_next\<close> then looks for that string among the keys. It may go on anywhere, so the loop need not
  end; \<open>None\<close> is a call that never returns.
\<close>

definition lua_next_after :: "(lval \<times> lval) list \<Rightarrow> lval \<Rightarrow> (lval \<times> lval) list option" where
  "lua_next_after t k =
     (case dropWhile (\<lambda>e. fst e \<noteq> k) t of [] \<Rightarrow> None | _ # rest \<Rightarrow> Some rest)"

partial_function (option) translate_entries ::
  "bool \<Rightarrow> char \<Rightarrow> (lval \<times> lval) list \<Rightarrow> (lval \<times> lval) list \<Rightarrow> lval list \<Rightarrow> lua_ret option" where
  "translate_entries explicit sep t es acc =
     (case es of
        [] \<Rightarrow> Some (Inr [lua_array acc])
      | (k, v) # rest \<Rightarrow>
          (case lua_tolstring (if explicit then k else v) of
             None \<Rightarrow> Some (Inl (BadArgument 4))
           | Some s \<Rightarrow>
               (case translate (c_view s) sep of
                  Inl e \<Rightarrow> Some (Inl e)
                | Inr r \<Rightarrow>
                    (case (if explicit then lua_next_after t (LStr s) else Some rest) of
                       None \<Rightarrow> Some (Inl (LuaError ''invalid key to next''))
                     | Some es' \<Rightarrow> translate_entries explicit sep t es' (acc @ [LStr (c_view r)])))))"

declare translate_entries.simps [code]

text \<open>\<open>default_sep\<close> is the scripted \<open>path.getDefaultSeparator\<close>.\<close>

definition path_translate :: "(lval list \<Rightarrow> lua_ret) \<Rightarrow> lval list \<Rightarrow> lua_ret option" where
  "path_translate default_sep args =
     (case (if length args = 1
            then bind_f (default_sep []) (\<lambda>rs. luaL_checkstring [case rs of [] \<Rightarrow> LNil | v # _ \<Rightarrow> v] 1)
            else luaL_checkstring args 2) of
        Inl e \<Rightarrow> Some (Inl e)
      | Inr sep \<Rightarrow>
          (case arg args 1 of
             Some (LTable t) \<Rightarrow> translate_entries (length args \<noteq> 1) (peek sep) t t []
           | _ \<Rightarrow> Some (bind_f (luaL_checkstring args 1) (\<lambda>value.
                      map_sum id (\<lambda>r. [LStr (c_view r)]) (translate value (peek sep))))))"

section \<open>Absolute paths\<close>

definition back_up :: "cstring \<Rightarrow> cstring" where
  \<comment> \<open>cuts \<open>result\<close> behind the last slash that is not its last byte, if there is one\<close>
  "back_up result =
     (case strrchr (butlast result) SLASH of
        None \<Rightarrow> result
      | Some r \<Rightarrow> take (Suc (length (butlast result) - length r)) result)"

fun absolute_parts :: "cstring option \<Rightarrow> cstring list \<Rightarrow> cstring \<Rightarrow> fault + cstring" where
  "absolute_parts prev [] result = Inr result"
| "absolute_parts prev (ch # chs) result =
     (if ch = ''..'' \<and>
         (case prev of None \<Rightarrow> True
          | Some p \<Rightarrow> peek p \<noteq> CHR ''$'' \<and> peek p \<noteq> CHR ''%'' \<and> p \<noteq> ''..'')
      then absolute_parts None chs (back_up result)
      else
        bind_f (if ch = ''.'' then Inr result else store BUFSIZE (result @ ch @ ''/''))
          (absolute_parts (Some ch) chs))"

definition remove_trailing_slash :: "cstring \<Rightarrow> fault + cstring" where
  \<comment> \<open>an empty \<open>result\<close> is read at index -1\<close>
  "remove_trailing_slash result =
     (if result = [] then Inl OutOfBounds
      else Inr (if last result = SLASH then butlast result else result))"

text \<open>\<open>cwd\<close> is what \<open>do_getcwd\<close> leaves in the buffer.\<close>

definition do_getabsolute :: "cstring \<Rightarrow> cstring \<Rightarrow> cstring option \<Rightarrow> fault + cstring" where
  "do_getabsolute cwd value relative_to =
     (let base = (if do_isabsolute value then [] else
                    (case relative_to of None \<Rightarrow> cwd | Some r \<Rightarrow> r) @ ''/'') in
      bind_f (store BUFSIZE (base @ value)) (\<lambda>buffer0.
        let buffer = do_translate buffer0 SLASH;
            result = (if peek buffer = SLASH then
                        (if peek (tl buffer) = SLASH then ''//'' else ''/'') else '''') in
        bind_f (absolute_parts None (strtok_all (\<lambda>c. c = SLASH) buffer) result) remove_trailing_slash))"

definition path_getabsolute :: "cstring \<Rightarrow> lval list \<Rightarrow> lua_ret" where
  "path_getabsolute cwd args =
     bind_f (if 1 < length args \<and> arg args 2 \<noteq> Some LNil
             then map_sum id Some (luaL_checkstring args 2) else Inr None) (\<lambda>relative_to.
       case arg args 1 of
         Some (LTable t) \<Rightarrow>
           map_sum id (\<lambda>vs. [lua_array vs])
             (map_f (\<lambda>(k, v).
                case lua_tostring v of
                  None \<Rightarrow> Inl (BadArgument (length args + 3))
                | Some value \<Rightarrow> map_sum id LStr (do_getabsolute cwd value relative_to)) t)
       | _ \<Rightarrow> bind_f (luaL_checkstring args 1) (\<lambda>value.
                map_sum id (\<lambda>s. [LStr s]) (do_getabsolute cwd value relative_to)))"

section \<open>Properties of the translation\<close>

text \<open>Translating a string replaces exactly its separators, and translating the result again
  gives what translating the original gives: the last separator asked for wins.\<close>

theorem path_translate_string:
  assumes "is_cstring s" and "length s < BUFSIZE" and "a \<noteq> NUL" and "is_sep b" and "is_sep a"
  shows "path_translate script [LStr s, LStr [a]] = Some (Inr [LStr (map (\<lambda>c. if is_sep c then a else c) s)])
    \<and> (\<forall>t. path_translate script [LStr s, LStr [a]] = Some (Inr [LStr t]) \<longrightarrow>
          path_translate script [LStr t, LStr [b]] = path_translate script [LStr s, LStr [b]])"
proof -
  have cs': "is_cstring (map (\<lambda>c. if is_sep c then x else c) u)" if "is_sep x" "is_cstring u" for x u
    using that by (auto simp: is_cstring_def)
  have tr: "do_translate u x = map (\<lambda>c. if is_sep c then x else c) u" for u x
    by (simp add: do_translate_def is_sep_def)
  have nul: "x \<noteq> NUL" if "is_sep x" for x using that by auto
  have run: "path_translate script [LStr u, LStr [x]] = Some (Inr [LStr (map (\<lambda>c. if is_sep c then x else c) u)])"
    if "is_sep x" "is_cstring u" "length u < BUFSIZE" for u x
    using that nul [OF that(1)] cs' [OF that(1,2)]
    by (simp add: path_translate_def translate_def tr arg_def)
  have "map (\<lambda>c. if is_sep c then b else c) (map (\<lambda>c. if is_sep c then a else c) s)
      = map (\<lambda>c. if is_sep c then b else c) s" using assms(5) by simp
  with run [OF assms(5,1,2)] run [OF assms(4,1,2)] run [OF assms(4) cs' [OF assms(5,1)]] assms(2)
  show ?thesis by (simp del: map_map)
qed

theorem path_translate_string_witness:
  "path_translate (\<lambda>_. Inr []) [LStr ''a/b'', LStr [BACKSLASH]] = Some (Inr [LStr (''a'' @ BACKSLASH # ''b'')])"
  using path_translate_string [of "''a/b''" BACKSLASH SLASH "\<lambda>_. Inr []"]
  by (simp add: BUFSIZE_def is_sep_def)

lemma lua_next_after_None: "k \<notin> fst ` set t \<Longrightarrow> lua_next_after t k = None"
proof -
  assume "k \<notin> fst ` set t"
  then have "dropWhile (\<lambda>e. fst e \<noteq> k) t = []" by (auto simp: dropWhile_eq_Nil_conv)
  then show ?thesis by (simp only: lua_next_after_def list.case)
qed

lemma translate_values:
  "\<forall>e \<in> set es. \<exists>s. snd e = LStr s \<and> is_cstring s \<and> length s < BUFSIZE \<Longrightarrow>
     translate_entries False sep t es acc = Some (Inr [lua_array (acc @ map (\<lambda>e. case snd e of
       LStr s \<Rightarrow> LStr (c_view (do_translate s sep)) | v \<Rightarrow> v) es)])"
proof (induction es arbitrary: acc)
  case Nil
  then show ?case by (simp add: translate_entries.simps [of False])
next
  case (Cons e es)
  then obtain k s where e: "e = (k, LStr s)" "is_cstring s" "length s < BUFSIZE" by (cases e) auto
  with Cons show ?case by (simp add: translate_entries.simps [of False] translate_def)
qed

text \<open>Without a separator argument the values of a list are translated in their order. With one
  the translation of a list fails: the loop reads the key of the first entry in place of its value,
  turns the number 1 into a string, and \<open>lua_next\<close> does not find that key.\<close>

theorem path_translate_list:
  assumes "script [] = Inr [LStr [sep]]" and "\<forall>s \<in> set (s # ss). is_cstring s \<and> length s < BUFSIZE"
    and "sep \<noteq> NUL"
  shows "path_translate script [lua_array (map LStr (s # ss))] =
      Some (Inr [lua_array (map (\<lambda>s. LStr (c_view (do_translate s sep))) (s # ss))])
    \<and> path_translate script [lua_array (map LStr (s # ss)), LStr [sep]] =
      Some (Inl (LuaError ''invalid key to next''))"
proof
  let ?t = "array_from 1 (map LStr (s # ss))"
  have "\<forall>e \<in> set ?t. \<exists>s. snd e = LStr s \<and> is_cstring s \<and> length s < BUFSIZE"
  proof
    fix e assume "e \<in> set ?t"
    then have "snd e \<in> set (map snd ?t)" by (metis image_eqI list.set_map)
    then show "\<exists>s. snd e = LStr s \<and> is_cstring s \<and> length s < BUFSIZE"
      using assms(2) by (simp only: map_snd_array_from) auto
  qed
  from translate_values [OF this, of sep ?t "[]"]
  have "translate_entries False sep ?t ?t [] =
      Some (Inr [lua_array (map (\<lambda>v. case v of LStr s \<Rightarrow> LStr (c_view (do_translate s sep)) | v \<Rightarrow> v)
        (map snd ?t))])"
    by (simp add: comp_def del: array_from.simps map_snd_array_from)
  then show "path_translate script [lua_array (map LStr (s # ss))] =
      Some (Inr [lua_array (map (\<lambda>s. LStr (c_view (do_translate s sep))) (s # ss))])"
    using assms(1,3) by (simp only: map_snd_array_from)
      (simp add: path_translate_def arg_def lua_array_def comp_def del: array_from.simps)
next
  let ?t = "array_from 1 (map LStr (s # ss))"
  have int: "fst e \<in> range LInt" if "e \<in> set (array_from m vs)" for m vs e
    using that by (induction vs arbitrary: m) auto
  have "LStr (show_int 1) \<notin> fst ` set ?t" by (auto dest: int)
  then have n: "lua_next_after ?t (LStr (show_int 1)) = None" by (rule lua_next_after_None)
  have "show_int 1 = ''1''" by code_simp
  then have "translate (c_view (show_int 1)) sep = Inr (show_int 1)"
    by (simp add: translate_def do_translate_def BUFSIZE_def)
  then show "path_translate script [lua_array (map LStr (s # ss)), LStr [sep]] =
      Some (Inl (LuaError ''invalid key to next''))"
    using n assms(3) by (simp add: path_translate_def arg_def lua_array_def translate_entries.simps [of True])
qed

theorem path_translate_list_witness:
  "path_translate (\<lambda>_. Inr [LStr ''/'']) [lua_array [LStr ''a'']] = Some (Inr [lua_array [LStr ''a'']])"
proof -
  have "do_translate ''a'' (CHR ''/'') = ''a''" by code_simp
  then show ?thesis
    using path_translate_list [of "\<lambda>_. Inr [LStr ''/'']" "CHR ''/''" "''a''" "[]"] by (simp add: BUFSIZE_def)
qed

section \<open>Properties of the resolution\<close>

lemma strtok_translate: "strtok_all (\<lambda>c. c = SLASH) (do_translate s SLASH) = strtok_all is_sep s"
proof (induction "length s" arbitrary: s rule: less_induct)
  case less
  let ?t = "\<lambda>c. if c = SLASH \<or> c = BACKSLASH then SLASH else c" and ?d = "\<lambda>c. c = SLASH"
  have c: "?d (?t c) \<longleftrightarrow> is_sep c" "\<not> is_sep c \<Longrightarrow> ?t c = c" for c by (auto simp: is_sep_def)
  have dw: "dropWhile ?d (map ?t u) = map ?t (dropWhile is_sep u)"
      "dropWhile (\<lambda>x. \<not> ?d x) (map ?t u) = map ?t (dropWhile (\<lambda>x. \<not> is_sep x) u)"
      "takeWhile (\<lambda>x. \<not> ?d x) (map ?t u) = takeWhile (\<lambda>x. \<not> is_sep x) u" for u
    by (induction u) (auto simp: is_sep_def)
  show ?case
  proof (cases "dropWhile is_sep s")
    case Nil
    with dw(1) [of s] have "dropWhile ?d (map ?t s) = []" by (simp only: list.map)
    then have "strtok_all ?d (map ?t s) = []" by (simp only: strtok_all.simps [of ?d "map ?t s"] list.case)
    then show ?thesis using Nil by (simp only: do_translate_def strtok_all.simps [of is_sep s] list.case)
  next
    case (Cons x xs)
    let ?r = "dropWhile (\<lambda>x. \<not> is_sep x) (x # xs)"
    have nx: "\<not> is_sep x" using hd_dropWhile [of is_sep s] Cons by simp
    have "length (x # xs) \<le> length s" using length_dropWhile_le [of is_sep s] by (simp add: Cons)
    moreover have "length ?r < length (x # xs)" using nx length_dropWhile_le [of "\<lambda>x. \<not> is_sep x" xs] by simp
    ultimately have IH: "strtok_all ?d (map ?t ?r) = strtok_all is_sep ?r"
      using less [of ?r] by (simp add: do_translate_def)
    have "strtok_all ?d (map ?t s) =
        takeWhile (\<lambda>c. \<not> ?d c) (map ?t (x # xs)) # strtok_all ?d (dropWhile (\<lambda>c. \<not> ?d c) (map ?t (x # xs)))"
      using dw(1) [of s] Cons by (subst strtok_all.simps) simp
    also have "\<dots> = takeWhile (\<lambda>c. \<not> is_sep c) (x # xs) # strtok_all is_sep ?r"
      by (simp only: dw IH)
    also have "\<dots> = strtok_all is_sep s"
      using Cons by (subst (2) strtok_all.simps) simp
    finally show ?thesis by (simp add: do_translate_def)
  qed
qed

text \<open>Components without a token, which the loop handles as directory names.\<close>

definition plain_component :: "cstring \<Rightarrow> bool" where
  "plain_component c \<longleftrightarrow> c \<noteq> [] \<and> (\<forall>x \<in> set c. \<not> is_sep x) \<and> peek c \<noteq> CHR ''$'' \<and> peek c \<noteq> CHR ''%''"

lemma back_up_root: "back_up ''/'' = ''/''"
  by (simp add: back_up_def)

lemma back_up_snoc:
  assumes "SLASH \<notin> set c"
  shows "back_up (p @ SLASH # c @ [SLASH]) = p @ [SLASH]"
proof -
  have b: "butlast (p @ SLASH # c @ [SLASH]) = p @ SLASH # c" by (simp add: butlast_append)
  then show ?thesis using assms by (simp add: back_up_def b strrchr_append)
qed

lemma back_up_render:
  assumes "SLASH \<notin> set c"
  shows "back_up (SLASH # render (st @ [c])) = SLASH # render st"
proof -
  have "\<exists>p. SLASH # render st = p @ [SLASH]"
    using render_end [of st] by (cases "render st" rule: rev_cases) auto
  then obtain p where p: "SLASH # render st = p @ [SLASH]" by blast
  have "SLASH # render (st @ [c]) = (SLASH # render st) @ c @ [SLASH]" by simp
  also have "\<dots> = p @ SLASH # c @ [SLASH]" by (simp only: p) simp
  finally show ?thesis using back_up_snoc [OF assms, of p] by (simp only: p)
qed

lemma absolute_parts_follow:
  assumes "\<forall>c \<in> set cs. plain_component c" and "prev = None \<or> (\<exists>p. prev = Some p \<and> plain_component p \<and> p \<noteq> ''..'')"
    and "\<forall>c \<in> set st. plain_component c" and "1 + length (render st) + length (render cs) < BUFSIZE"
  shows "absolute_parts prev cs (SLASH # render st) =
    Inr (SLASH # render (follow st (filter (\<lambda>c. c \<noteq> ''.'') cs)))"
  using assms
proof (induction cs arbitrary: prev st)
  case (Cons c cs)
  have c: "plain_component c" using Cons.prems(1) by simp
  show ?case
  proof (cases "c = ''..''")
    case True
    have bk: "back_up (SLASH # render st) = SLASH # render (butlast st)"
    proof (cases st rule: rev_cases)
      case Nil
      then show ?thesis by (simp add: back_up_root)
    next
      case (snoc st' d)
      with Cons.prems(3) have "SLASH \<notin> set d" by (auto simp: plain_component_def)
      with snoc back_up_render [of d st'] show ?thesis by simp
    qed
    have "length (render (butlast st)) \<le> length (render st)"
      by (cases st rule: rev_cases) auto
    with Cons.prems True bk Cons.IH [of None "butlast st"] show ?thesis
      by (auto simp: plain_component_def follow_def enter_def dest: in_set_butlastD)
  next
    case False
    have "length (SLASH # render st @ c @ ''/'') < BUFSIZE" using Cons.prems(4) by simp
    with False c Cons.prems Cons.IH [of "Some c" "st @ [c]"] Cons.IH [of "Some c" st] show ?thesis
      by (auto simp: follow_def enter_def)
  qed
qed (simp add: follow_def)

text \<open>The absolute path of a directory, given by the names below the root; the root itself is \<open>/\<close>.\<close>

definition dir_path :: "cstring list \<Rightarrow> cstring" where
  "dir_path names = concat (map (\<lambda>n. SLASH # n) names)"

lemma dir_path_render: "names \<noteq> [] \<Longrightarrow> SLASH # render names = dir_path names @ [SLASH]"
proof (induction names rule: rev_induct)
  case (snoc n names)
  then show ?case by (cases "names = []") (simp_all add: dir_path_def)
qed simp

lemma length_render_strtok: "length (render (strtok_all is_sep s)) \<le> Suc (length s)"
proof -
  have "length (render cs) = (\<Sum>c\<leftarrow>cs. Suc (length c))" for cs by (induction cs) auto
  then show ?thesis using strtok_all_length [of is_sep s] by simp
qed

definition dir_names :: "cstring list \<Rightarrow> bool" where
  "dir_names names \<longleftrightarrow> (\<forall>n \<in> set names. plain_component n \<and> is_cstring n \<and> n \<noteq> ''.'' \<and> n \<noteq> ''..'')"

lemma dir_path_simps [simp]: "dir_path [] = []" "dir_path (n # ns) = SLASH # n @ dir_path ns"
  by (simp_all add: dir_path_def)

lemma strtok_dir_path:
  "dir_names names \<Longrightarrow> s = [] \<or> is_sep (hd s) \<Longrightarrow> strtok_all is_sep (dir_path names @ s) = names @ strtok_all is_sep s"
proof (induction names)
  case (Cons n names)
  let ?r = "dir_path names @ s"
  have n: "n \<noteq> []" "\<forall>c \<in> set n. \<not> is_sep c" using Cons.prems by (simp_all add: dir_names_def plain_component_def)
  have r: "?r = [] \<or> is_sep (hd ?r)" using Cons.prems(2) by (cases names) auto
  have "strtok_all is_sep (n @ ?r) = n # strtok_all is_sep ?r"
  proof (cases ?r)
    case Nil
    with n show ?thesis by (simp add: strtok_all_single)
  next
    case (Cons x xs)
    with n r show ?thesis by (simp add: strtok_all_token)
  qed
  with Cons show ?case by (simp add: dir_names_def)
qed simp

lemma remove_trailing_dir: "remove_trailing_slash (SLASH # render names) = Inr (dir_path names)"
proof (cases "names = []")
  case False
  then show ?thesis by (simp only: dir_path_render [OF False]) (simp add: remove_trailing_slash_def)
qed (simp add: remove_trailing_slash_def)

lemma do_getabsolute_follow:
  assumes names: "dir_names names" "names \<noteq> []" and rel: "\<not> do_isabsolute value"
    and plain: "\<forall>c \<in> set (strtok_all is_sep value). plain_component c"
    and sz: "length (dir_path names) + length value + 3 < BUFSIZE"
  shows "do_getabsolute cwd value (Some (dir_path names)) = Inr (dir_path (follow names (components value)))"
proof -
  let ?buf = "dir_path names @ ''/'' @ value"
  have st: "strtok_all is_sep ?buf = names @ strtok_all is_sep value"
    using strtok_dir_path [OF names(1), of "''/'' @ value"] by simp
  obtain n ns where ns: "names = n # ns" using names(2) by (cases names) auto
  with names(1) have n: "n \<noteq> []" "\<not> is_sep (hd n)" by (auto simp: dir_names_def plain_component_def)
  have p: "peek (do_translate ?buf SLASH) = SLASH" "peek (tl (do_translate ?buf SLASH)) \<noteq> SLASH"
    using n by (cases n; simp add: ns do_translate_def is_sep_def)+
  have comps: "filter (\<lambda>c. c \<noteq> ''.'') (strtok_all is_sep ?buf) = names @ components value"
    using names(1) unfolding st by (auto simp: components_def dir_names_def filter_id_conv)
  have fo: "follow [] (names @ components value) = follow names (components value)"
  proof -
    have "foldl enter xs names = xs @ names" for xs
      using names(1) by (induction names arbitrary: xs) (auto simp: enter_def dir_names_def)
    then show ?thesis by (simp add: follow_def)
  qed
  have "absolute_parts None (strtok_all is_sep ?buf) (SLASH # render []) =
      Inr (SLASH # render (follow [] (names @ components value)))"
  proof -
    have "\<forall>c \<in> set (strtok_all is_sep ?buf). plain_component c"
      using plain names(1) unfolding st by (auto simp: dir_names_def)
    moreover have "1 + length (render []) + length (render (strtok_all is_sep ?buf)) < BUFSIZE"
      using length_render_strtok [of ?buf] sz by simp
    ultimately show ?thesis using absolute_parts_follow [of _ None "[]"] comps by simp
  qed
  then show ?thesis
    using rel sz p by (simp add: do_getabsolute_def strtok_translate fo remove_trailing_dir Let_def)
qed

text \<open>C28: The absolute path of a relative path is the directory that following its components from
  the base leads to, when neither holds a token; the base is the second argument or the working
  directory. Climbing to or past the root gives the empty string and not \<open>/\<close>.\<close>

theorem path_getabsolute_follow:
  assumes "dir_names names" and "names \<noteq> []" and "is_cstring value" and "\<not> do_isabsolute value"
    and "\<forall>c \<in> set (strtok_all is_sep value). plain_component c"
    and "length (dir_path names) + length value + 3 < BUFSIZE"
  shows "path_getabsolute cwd [LStr value, LStr (dir_path names)] =
      Inr [LStr (dir_path (follow names (components value)))]
    \<and> path_getabsolute (dir_path names) [LStr value] =
      Inr [LStr (dir_path (follow names (components value)))]"
proof -
  have "is_cstring (dir_path names)"
    using assms(1) by (induction names) (auto simp: dir_names_def)
  moreover have "do_getabsolute (dir_path names) value None = do_getabsolute cwd value (Some (dir_path names))"
    by (simp add: do_getabsolute_def)
  ultimately show ?thesis
    using do_getabsolute_follow [OF assms(1,2,4-6)] assms(3)
    by (simp add: path_getabsolute_def arg_def)
qed

theorem path_getabsolute_follow_witness:
  "path_getabsolute '''' [LStr ''../lib//x.c'', LStr ''/home/src''] = Inr [LStr ''/home/lib/x.c''] \<and>
   path_getabsolute '''' [LStr ''../..'', LStr ''/home/src''] = Inr [LStr '''']"
proof
  have f: "dir_names [''home'', ''src'']" "\<not> do_isabsolute ''../lib//x.c''" "\<not> do_isabsolute ''../..''"
      "list_all plain_component (strtok_all is_sep ''../lib//x.c'')"
      "list_all plain_component (strtok_all is_sep ''../..'')"
      "follow [''home'', ''src''] (components ''../lib//x.c'') = [''home'', ''lib'', ''x.c'']"
      "follow [''home'', ''src''] (components ''../..'') = []"
    by code_simp+
  show "path_getabsolute '''' [LStr ''../lib//x.c'', LStr ''/home/src''] = Inr [LStr ''/home/lib/x.c'']"
    using path_getabsolute_follow [of "[''home'', ''src'']" "''../lib//x.c''" "''''"] f
    by (simp add: BUFSIZE_def list_all_iff)
  show "path_getabsolute '''' [LStr ''../..'', LStr ''/home/src''] = Inr [LStr '''']"
    using path_getabsolute_follow [of "[''home'', ''src'']" "''../..''" "''''"] f
    by (simp add: BUFSIZE_def list_all_iff)
qed

text \<open>Two boundary cases of the code: a base of \<open>/\<close> gives a path with two leading slashes (the
  root of a server name), and a path of which nothing is left makes the code read in front of its
  buffer.\<close>

theorem path_getabsolute_boundaries:
  "path_getabsolute cwd [LStr ''x'', LStr ''/''] = Inr [LStr ''//x''] \<and>
   path_getabsolute cwd [LStr ''..'', LStr ''.''] = Inl OutOfBounds"
proof -
  have r: "\<not> do_isabsolute ''x''" "\<not> do_isabsolute ''..''" by code_simp+
  have t: "do_translate ''//x'' SLASH = ''//x''" "do_translate ''./..'' SLASH = ''./..''"
      "strtok_all (\<lambda>c. c = SLASH) ''//x'' = [''x'']" "strtok_all (\<lambda>c. c = SLASH) ''./..'' = [''.'', ''..'']"
      "back_up '''' = ''''" "remove_trailing_slash ''//x/'' = Inr ''//x''" "remove_trailing_slash '''' = Inl OutOfBounds"
    by code_simp+
  show ?thesis
    by (simp add: path_getabsolute_def arg_def do_getabsolute_def r t Let_def BUFSIZE_def)
qed

end
