(* ===== verification/Path_Relative.thy ===== *)
theory Path_Relative
  imports Path_Join Path_Resolve
begin

text \<open>
  \<open>src/host/path_getrelative.c\<close>: the path from one directory to another. The function first calls
  the scripted \<open>path.normalize\<close>, which a project may override; the locale \<open>path_normalizer\<close> states
  what the function relies on, and the built-in normaliser is shown to provide it.
\<close>

section \<open>The function\<close>

definition same_char :: "platform \<Rightarrow> char \<Rightarrow> char \<Rightarrow> bool" where
  "same_char pl a b \<longleftrightarrow> (if pl = Windows then tolower_c a = tolower_c b else a = b)"

definition same_path :: "platform \<Rightarrow> cstring \<Rightarrow> cstring \<Rightarrow> bool" where
  \<comment> \<open>\<open>_stricmp(src, dst) == 0\<close> or \<open>strcmp(src, dst) == 0\<close>\<close>
  "same_path pl src dst \<longleftrightarrow> length src = length dst \<and> list_all2 (same_char pl) src dst"

fun common_last :: "platform \<Rightarrow> cstring \<Rightarrow> cstring \<Rightarrow> int \<Rightarrow> int \<Rightarrow> int" where
  "common_last pl (s # src) (d # dst) i last_sep =
     (if same_char pl s d then common_last pl src dst (i + 1) (if s = SLASH then i else last_sep) else last_sep)"
| "common_last pl _ _ i last_sep = last_sep"

definition count_slashes :: "cstring \<Rightarrow> nat" where
  "count_slashes s = length (filter (\<lambda>c. c = SLASH) s)"

definition relative_from :: "cstring \<Rightarrow> cstring \<Rightarrow> int \<Rightarrow> fault + cstring" where
  \<comment> \<open>the part behind the common directories; \<open>src\<close> and \<open>dst\<close> end in a slash\<close>
  "relative_from src dst last_sep =
     (let count = count_slashes (drop (nat (last_sep + 1)) src) in
      bind_f (store BUFSIZE (up count)) (\<lambda>src.
      bind_f (store BUFSIZE (src @ drop (nat (last_sep + 1)) dst)) (\<lambda>src.
        if src = [] then Inl OutOfBounds else Inr (butlast src))))"

definition path_getrelative :: "platform \<Rightarrow> (lval list \<Rightarrow> lua_ret) \<Rightarrow> lval list \<Rightarrow> lua_ret" where
  "path_getrelative pl norm args =
     bind_f (luaL_checkstring args 1) (\<lambda>p1.
     bind_f (luaL_checkstring args 2) (\<lambda>p2.
     bind_f (do_normalize norm p1) (\<lambda>src.
     bind_f (do_normalize norm p2) (\<lambda>dst.
       if same_path pl src dst then Inr [LStr ''.'']
       else if peek dst = CHR ''$'' then Inr [LStr dst]
       else
         bind_f (store BUFSIZE (src @ ''/'')) (\<lambda>src.
         bind_f (store BUFSIZE (dst @ ''/'')) (\<lambda>dst.
           let last_sep = common_last pl src dst 0 (-1) in
           if last_sep \<le> 0 \<or> last_sep = 2 \<and> peek (tl src) = CHR '':'' then Inr [LStr (butlast dst)]
           else if peek src = SLASH \<and> peek (tl src) = SLASH \<and> last_sep = 1 then Inr [LStr (butlast dst)]
           else map_sum id (\<lambda>r. [LStr r]) (relative_from src dst last_sep)))))))"

section \<open>Directories and the path between them\<close>

text \<open>Names that no earlier step of the code gives a meaning of its own.\<close>

definition ordinary_name :: "cstring \<Rightarrow> bool" where
  "ordinary_name n \<longleftrightarrow> n \<noteq> [] \<and> n \<noteq> ''.'' \<and> n \<noteq> ''..'' \<and> simple_path n \<and>
     (\<forall>c \<in> set n. \<not> is_sep c \<and> c \<noteq> CHR '':'' \<and> c \<noteq> CHR ''!'')"

definition directory :: "cstring list \<Rightarrow> bool" where
  "directory names \<longleftrightarrow> names \<noteq> [] \<and> (\<forall>n \<in> set names. ordinary_name n)"

definition common_names :: "cstring list \<Rightarrow> cstring list \<Rightarrow> cstring list" where
  "common_names a b = longest_common_prefix a b"

text \<open>The reference: one \<open>..\<close> for each directory to leave, then the names to enter.\<close>

definition relative_names :: "cstring list \<Rightarrow> cstring list \<Rightarrow> cstring list" where
  "relative_names a b =
     (let k = length (common_names a b) in replicate (length a - k) ''..'' @ drop k b)"

lemma ordinary_component: "ordinary_name n \<Longrightarrow> is_component n \<and> plain_component n \<and> is_cstring n"
proof -
  assume "ordinary_name n"
  moreover have "peek n \<in> set n" if "n \<noteq> []" using that by (cases n) auto
  ultimately show ?thesis
    unfolding ordinary_name_def simple_path_def plain_component_def is_component_def by metis
qed

lemma ordinary_simple: "ordinary_name n \<Longrightarrow> simple_path n \<and> n \<noteq> ''.'' \<and> n \<noteq> ''..''"
  by (simp add: ordinary_name_def)

lemma directory_dir_names: "directory names \<Longrightarrow> dir_names names"
  using ordinary_component ordinary_simple unfolding directory_def dir_names_def by blast

lemma common_split:
  obtains s t where "a = common_names a b @ s" "b = common_names a b @ t" "s = [] \<or> t = [] \<or> hd s \<noteq> hd t"
proof -
  obtain s t where st: "a = common_names a b @ s" "b = common_names a b @ t"
    unfolding common_names_def
    using longest_common_prefix_prefix1 longest_common_prefix_prefix2 by (metis prefixE)
  have "hd s \<noteq> hd t" if "s \<noteq> []" "t \<noteq> []"
  proof
    assume h: "hd s = hd t"
    have "prefix (common_names a b @ [hd s]) a" "prefix (common_names a b @ [hd s]) b"
      using st h that by (metis append.assoc append_Cons append_Nil list.collapse prefixI)+
    then have "prefix (common_names a b @ [hd s]) (common_names a b)"
      unfolding common_names_def by (rule longest_common_prefix_max_prefix)
    then show False by (auto simp: prefix_def)
  qed
  with st that show ?thesis by blast
qed

lemma relative_names_split:
  assumes "a = common_names a b @ s" "b = common_names a b @ t"
  shows "relative_names a b = replicate (length s) ''..'' @ t"
proof -
  have "length a - length (common_names a b) = length s" "drop (length (common_names a b)) b = t"
    using assms by (metis length_append add_diff_cancel_left', metis append_eq_conv_conj)
  then show ?thesis by (simp add: relative_names_def Let_def)
qed

section \<open>The scan for the common directories\<close>

lemma common_last_append:
  "pl \<noteq> Windows \<Longrightarrow>
     common_last pl (q @ SLASH # x) (q @ SLASH # y) i l = common_last pl x y (i + int (length q) + 1) (i + int (length q))"
  by (induction q arbitrary: i l) (auto simp: same_char_def algebra_simps)

lemma common_last_diff:
  "pl \<noteq> Windows \<Longrightarrow> n \<noteq> m \<Longrightarrow> SLASH \<notin> set n \<Longrightarrow> SLASH \<notin> set m \<Longrightarrow>
     common_last pl (n @ SLASH # x) (m @ SLASH # y) i l = l"
proof (induction n arbitrary: m i)
  case Nil
  then show ?case by (cases m) (auto simp: same_char_def)
next
  case (Cons c n)
  then show ?case by (cases m) (auto simp: same_char_def)
qed

lemma component_no_slash: "is_component n \<Longrightarrow> SLASH \<notin> set n"
  unfolding is_component_def using is_sep_simps(1) by blast

lemma common_last_render:
  assumes "pl \<noteq> Windows" and "\<forall>n \<in> set s \<union> set t. is_component n" and "s = [] \<or> t = [] \<or> hd s \<noteq> hd t"
  shows "common_last pl (SLASH # render (c @ s)) (SLASH # render (c @ t)) 0 (-1) = int (length (render c))"
proof -
  have "\<exists>q. SLASH # render c = q @ [SLASH]"
    using render_end [of c] by (cases "render c" rule: rev_cases) auto
  then obtain q where q: "SLASH # render c = q @ [SLASH]" by blast
  then have lq: "length q = length (render c)" by (metis length_Cons length_append_singleton nat.inject)
  have r: "SLASH # render (c @ u) = q @ SLASH # render u" for u
    using q by (metis append.assoc append_Cons append_Nil render_append)
  have sl: "SLASH \<notin> set n" if "n \<in> set s \<union> set t" for n
    using assms(2) that component_no_slash by blast
  have "common_last pl (render s) (render t) i l = l" for i l
  proof (cases s)
    case (Cons n s')
    note sc = Cons
    show ?thesis
    proof (cases t)
      case (Cons m t')
      with sc assms sl show ?thesis by (simp add: common_last_diff)
    qed (simp add: sc)
  qed simp
  then show ?thesis unfolding r common_last_append [OF assms(1)] by (simp add: lq)
qed
section \<open>What the function relies on\<close>

lemma dir_path_cstring: "directory ns \<Longrightarrow> is_cstring (dir_path ns)"
proof -
  have "dir_names ns \<Longrightarrow> is_cstring (dir_path ns)" by (induction ns) (auto simp: dir_names_def)
  then show "directory ns \<Longrightarrow> ?thesis" using directory_dir_names by blast
qed

locale path_normalizer =
  fixes norm :: "lval list \<Rightarrow> lua_ret"
  assumes norm_directory:
    "directory ns \<Longrightarrow> length (dir_path ns) < BUFSIZE \<Longrightarrow> norm [LStr (dir_path ns)] = Inr [LStr (dir_path ns)]"
begin

lemma do_normalize_directory:
  "directory ns \<Longrightarrow> length (dir_path ns) < BUFSIZE \<Longrightarrow> do_normalize norm (dir_path ns) = Inr (dir_path ns)"
proof -
  assume d: "directory ns" "length (dir_path ns) < BUFSIZE"
  with norm_directory [OF d] dir_path_cstring [OF d(1)] show ?thesis by (simp add: do_normalize_def)
qed

end

lemma same_path_eq: "pl \<noteq> Windows \<Longrightarrow> same_path pl s t \<longleftrightarrow> s = t"
proof -
  assume "pl \<noteq> Windows"
  then have "same_char pl = (=)" by (auto simp: same_char_def fun_eq_iff)
  then show ?thesis by (auto simp: same_path_def list.rel_eq)
qed

lemma count_slashes_render: "\<forall>n \<in> set s. SLASH \<notin> set n \<Longrightarrow> count_slashes (render s) = length s"
proof (induction s)
  case (Cons n s)
  then have "filter (\<lambda>c. c = SLASH) n = []" by (auto simp: filter_empty_conv)
  with Cons show ?case by (simp add: count_slashes_def)
qed (simp add: count_slashes_def)

lemma up_render: "up k = render (replicate k ''..'')"
  by (induction k) simp_all

lemma length_render: "length (render ns) = (\<Sum>n\<leftarrow>ns. Suc (length n))"
  by (induction ns) auto

lemma dir_path_slash: "ns \<noteq> [] \<Longrightarrow> dir_path ns @ [SLASH] = SLASH # render ns"
  using dir_path_render by simp

lemma relative_from_render:
  assumes "\<forall>n \<in> set s. SLASH \<notin> set n" and "s @ t \<noteq> []" and "3 * length s + length (render t) < BUFSIZE"
  shows "relative_from (SLASH # render (c @ s)) (SLASH # render (c @ t)) (int (length (render c))) =
    Inr (joined (replicate (length s) ''..'' @ t))"
proof -
  have nat: "nat (int (length (render c)) + 1) = Suc (length (render c))" by simp
  have drop: "drop (Suc (length (render c))) (SLASH # render (c @ u)) = render u" for u
    by (simp add: render_append)
  have "render (replicate (length s) ''..'' @ t) \<noteq> []" using assms(2) by (cases s; cases t) auto
  then show ?thesis
    using assms count_slashes_render [OF assms(1)]
    unfolding relative_from_def nat drop Let_def
    by (simp add: joined_def render_append flip: up_render)
qed

lemma directory_root_bytes:
  assumes "directory ns"
  obtains c r where "dir_path ns = SLASH # c # r" "c \<noteq> SLASH" "c \<noteq> CHR '':''"
proof -
  from assms obtain n ns' where ns: "ns = n # ns'" and o: "ordinary_name n"
    unfolding directory_def by (metis list.exhaust list.set_intros(1))
  have n: "n \<noteq> []" "\<forall>c \<in> set n. \<not> is_sep c \<and> c \<noteq> CHR '':''"
    using o unfolding ordinary_name_def by blast+
  obtain c n' where c: "n = c # n'" using n(1) by (cases n) auto
  have "dir_path ns = SLASH # c # n' @ dir_path ns'" using ns c by simp
  moreover have "\<not> is_sep c" "c \<noteq> CHR '':''" using n(2) unfolding c by simp_all
  moreover from this(1) have "c \<noteq> SLASH" using is_sep_simps(1) by metis
  ultimately show ?thesis using that by blast
qed

lemma dir_path_inj: "directory a \<Longrightarrow> directory b \<Longrightarrow> dir_path a = dir_path b \<longleftrightarrow> a = b"
proof
  assume d: "directory a" "directory b" and eq: "dir_path a = dir_path b"
  have "strtok_all is_sep (dir_path ns) = ns" if "directory ns" for ns
    using strtok_dir_path [OF directory_dir_names [OF that], of "[]"] by (simp add: append_Nil2)
  from this [OF d(1)] this [OF d(2)] show "a = b" unfolding eq by (rule subst)
qed (rule arg_cong)

context path_normalizer
begin

lemma getrelative_names:
  assumes pl: "pl \<noteq> Windows" and a: "directory a" and b: "directory b"
    and sz: "3 * length (dir_path a) + length (dir_path b) + 1 < BUFSIZE"
  shows "path_getrelative pl norm [LStr (dir_path a), LStr (dir_path b)] =
    Inr [LStr (if a = b then ''.'' else if hd a \<noteq> hd b then dir_path b else joined (relative_names a b))]"
proof -
  note cs = dir_path_cstring [OF a] dir_path_cstring [OF b]
  have ne: "a \<noteq> []" "b \<noteq> []" using a b by (auto simp: directory_def)
  obtain s t where st: "a = common_names a b @ s" "b = common_names a b @ t" "s = [] \<or> t = [] \<or> hd s \<noteq> hd t"
    by (rule common_split)
  define c where "c = common_names a b"
  have ab: "a = c @ s" "b = c @ t" using st(1,2) by (simp_all add: c_def)
  have comp: "\<forall>n \<in> set s \<union> set t. is_component n"
    using a b ordinary_component unfolding directory_def ab by auto
  have slash: "\<forall>n \<in> set s. SLASH \<notin> set n" using comp component_no_slash by blast
  have len: "length (render a) = length (dir_path a)" "length (render b) = length (dir_path b)"
    using arg_cong [OF dir_path_slash [OF ne(1)], of length] arg_cong [OF dir_path_slash [OF ne(2)], of length]
    by simp_all
  have common: "common_last pl (SLASH # render a) (SLASH # render b) 0 (-1) = int (length (render c))"
    unfolding ab by (rule common_last_render [OF pl comp st(3)])
  have first: "c = [] \<longleftrightarrow> hd a \<noteq> hd b"
    using st(3) ne unfolding ab by (cases c) auto
  obtain ca ra where ra: "dir_path a = SLASH # ca # ra" "ca \<noteq> SLASH" "ca \<noteq> CHR '':''"
    using a by (rule directory_root_bytes)
  obtain cb rb where rb: "dir_path b = SLASH # cb # rb" using b by (rule directory_root_bytes)
  define A B where "A = SLASH # render a" and "B = SLASH # render b"
  have AB: "dir_path a @ ''/'' = A" "dir_path b @ ''/'' = B"
    unfolding A_def B_def using dir_path_slash [OF ne(1)] dir_path_slash [OF ne(2)] by simp_all
  then have bytes: "peek (dir_path b) \<noteq> CHR ''$''" "peek (tl A) \<noteq> CHR '':''" "peek (tl A) \<noteq> SLASH"
      "butlast B = dir_path b"
    using ra rb by (auto simp flip: AB)
  have sz': "length A < BUFSIZE" "length B < BUFSIZE" using sz by (simp_all flip: AB)
  have zero: "int (length (render c)) \<le> 0 \<longleftrightarrow> c = []" by (cases c) auto
  have step: "path_getrelative pl norm [LStr (dir_path a), LStr (dir_path b)] =
      (if a = b then Inr [LStr ''.''] else if c = [] then Inr [LStr (dir_path b)]
       else map_sum id (\<lambda>r. [LStr r]) (relative_from A B (int (length (render c)))))"
    using sz cs pl bytes sz' dir_path_inj [OF a b] do_normalize_directory [OF a] do_normalize_directory [OF b]
    by (simp add: path_getrelative_def same_path_eq AB common [folded A_def B_def] Let_def zero [simplified])
  have "relative_from A B (int (length (render c))) = Inr (joined (relative_names a b))" if "a \<noteq> b"
  proof -
    have "length (render t) \<le> length (render b)" by (simp add: ab render_append)
    moreover have "length s \<le> length (render a)"
    proof -
      have "length s \<le> length (render s)" by (induction s) auto
      then show ?thesis by (simp add: ab render_append)
    qed
    ultimately have "3 * length s + length (render t) < BUFSIZE" using sz len by linarith
    moreover have "s @ t \<noteq> []" using that ab by auto
    ultimately show ?thesis
      using relative_from_render [OF slash, of t c] relative_names_split [OF st(1,2)]
      by (simp add: A_def B_def ab [symmetric])
  qed
  then show ?thesis unfolding step using first by simp
qed

end

section \<open>The built-in normaliser provides it\<close>

lemma dir_path_joined: "ns \<noteq> [] \<Longrightarrow> dir_path ns = SLASH # joined ns"
proof -
  assume "ns \<noteq> []"
  then have "dir_path ns @ [SLASH] = SLASH # render ns" "render ns \<noteq> []"
    using dir_path_slash by (simp, cases ns, simp_all)
  then have "butlast (dir_path ns @ [SLASH]) = SLASH # butlast (render ns)" by simp
  then show ?thesis by (simp add: joined_def)
qed

lemma joined_peek: "cs \<noteq> [] \<Longrightarrow> \<forall>c \<in> set cs. is_component c \<Longrightarrow> peek (joined cs) = hd (hd cs) \<and> joined cs \<noteq> []"
  by (cases cs; cases "hd cs") (auto simp: joined_Cons is_component_def)

lemma simple_dir_path: "directory ns \<Longrightarrow> simple_path (dir_path ns)"
proof -
  assume d: "directory ns"
  have s: "\<not> isspace_c SLASH" "\<not> is_quote SLASH" by code_simp+
  have simple_append: "simple_path (SLASH # n @ r)" if "simple_path n" "simple_path r" for n r
    using that s unfolding simple_path_def by auto
  have "simple_path n" if "n \<in> set ns" for n
    using d that ordinary_simple [of n] unfolding directory_def by blast
  then show "simple_path (dir_path ns)"
  proof (induction ns)
    case (Cons n ns)
    then show ?case using simple_append [of n "dir_path ns"] by simp
  qed (simp add: simple_path_def)
qed

lemma normal_dir_path:
  assumes "directory ns"
  shows "normal_path (dir_path ns) = dir_path ns"
proof -
  have comp: "\<forall>n \<in> set ns. is_component n" and ne: "ns \<noteq> []" and dots: "''..'' \<notin> set ns"
    using assms ordinary_component ordinary_simple unfolding directory_def by blast+
  have st: "stack ns" unfolding stack_def using comp dots by (auto intro: exI [of _ 0])
  have "\<not> isalpha_c SLASH" by code_simp
  then have "drive_part (dir_path ns) = ([], dir_path ns)"
    by (simp add: drive_part_def dir_path_joined [OF ne])
  moreover have "sep_part (dir_path ns) = (''/'', joined ns)"
    using joined_start [OF comp] by (simp add: sep_part_def dir_path_joined [OF ne])
  ultimately show ?thesis
    using components_joined [OF comp] resolve_stack [OF st]
    by (simp add: normal_path_def root_of_def below_root_def dir_path_joined [OF ne])
qed

interpretation normalizer: path_normalizer path_normalize
proof
  fix ns assume d: "directory ns" and l: "length (dir_path ns) < BUFSIZE"
  have "normalize_string (dir_path ns) = Inr (dir_path ns)"
    using normalize_string_simple [OF simple_dir_path [OF d] l] normal_dir_path [OF d] by simp
  then show "path_normalize [LStr (dir_path ns)] = Inr [LStr (dir_path ns)]"
    using dir_path_cstring [OF d] by (simp add: path_normalize_def)
qed

text \<open>C27: The relative path between two absolute directories: \<open>.\<close> for the same one, the target
  itself when they do not share their first directory, and otherwise one \<open>..\<close> for each directory of
  the source below the common ones, followed by what the target has below them.\<close>

theorem path_getrelative_names:
  assumes "pl \<noteq> Windows" and "directory a" and "directory b"
    and "3 * length (dir_path a) + length (dir_path b) + 1 < BUFSIZE"
  shows "path_getrelative pl path_normalize [LStr (dir_path a), LStr (dir_path b)] =
    Inr [LStr (if a = b then ''.'' else if hd a \<noteq> hd b then dir_path b else joined (relative_names a b))]"
  using assms by (rule normalizer.getrelative_names)

lemma directory_examples:
  "directory [''home'', ''u'', ''src'']" "directory [''home'', ''lib'']" "directory [''usr'']"
  unfolding directory_def ordinary_name_def Ball_set by code_simp+

theorem path_getrelative_names_witness:
  "path_getrelative Linux path_normalize [LStr ''/home/u/src'', LStr ''/home/lib''] = Inr [LStr ''../../lib'']"
proof -
  have "joined (relative_names [''home'', ''u'', ''src''] [''home'', ''lib'']) = ''../../lib''" by code_simp
  then show ?thesis
    using path_getrelative_names [OF _ directory_examples(1,2), of Linux] by (simp add: BUFSIZE_def)
qed

section \<open>Going there\<close>

lemma do_getabsolute_absolute:
  assumes d: "directory b" and sz: "length (dir_path b) + 2 < BUFSIZE"
  shows "do_getabsolute cwd (dir_path b) base = Inr (dir_path b)"
proof -
  obtain c r where p: "dir_path b = SLASH # c # r" "c \<noteq> SLASH" using directory_root_bytes [OF d] .
  have names: "dir_names b" using directory_dir_names [OF d] .
  have abs: "do_isabsolute (dir_path b)"
    by (simp add: p(1) do_isabsolute_def do_absolutetype_def skip_marks_def)
  have comp: "\<forall>n \<in> set b. is_component n" using d ordinary_component by (simp add: directory_def)
  have tr: "do_translate (dir_path b) SLASH = dir_path b"
  proof -
    have "BACKSLASH \<notin> set (dir_path b)"
      using comp is_sep_simps(2) unfolding is_component_def by (induction b) auto
    then show ?thesis unfolding do_translate_def by (auto intro!: map_idI)
  qed
  have st: "strtok_all (\<lambda>c. c = SLASH) (dir_path b) = b"
    using strtok_translate [of "dir_path b"] strtok_dir_path [OF names, of "[]"] by (simp add: tr)
  have "filter (\<lambda>c. c \<noteq> ''.'') b = b" "follow [] b = b"
  proof -
    show "filter (\<lambda>c. c \<noteq> ''.'') b = b" using names by (auto simp: dir_names_def filter_id_conv)
    have "foldl enter xs b = xs @ b" for xs
      using names by (induction b arbitrary: xs) (auto simp: enter_def dir_names_def)
    then show "follow [] b = b" by (simp add: follow_def)
  qed
  moreover have "1 + length (render []) + length (render b) < BUFSIZE"
    using arg_cong [OF dir_path_slash [of b], of length] d sz by (simp add: directory_def)
  ultimately have "absolute_parts None b (SLASH # render []) = Inr (SLASH # render b)"
    using absolute_parts_follow [of b None "[]"] names by (simp add: dir_names_def)
  moreover have "peek (tl (dir_path b)) \<noteq> SLASH" "peek (dir_path b) = SLASH" using p by simp_all
  ultimately show ?thesis
    using abs tr st sz remove_trailing_dir [of b]
    by (simp add: do_getabsolute_def Let_def)
qed

lemma strtok_joined: "\<forall>c \<in> set cs. is_component c \<Longrightarrow> strtok_all is_sep (joined cs) = cs"
proof (induction cs)
  case (Cons c cs)
  then have c: "c \<noteq> []" "\<forall>x \<in> set c. \<not> is_sep x" by (simp_all add: is_component_def)
  show ?case
  proof (cases "cs = []")
    case True
    with c show ?thesis by (simp add: joined_Cons strtok_all_single)
  next
    case False
    with c Cons show ?thesis by (simp add: joined_Cons strtok_all_token)
  qed
qed (simp add: joined_def)

lemma dotdot_component: "is_component ''..''" "plain_component ''..''"
  unfolding is_component_def plain_component_def Ball_set by code_simp+

lemma is_cstring_joined: "\<forall>c \<in> set cs. is_cstring c \<Longrightarrow> is_cstring (joined cs)"
proof (induction cs)
  case (Cons c cs)
  then show ?case by (simp add: joined_Cons)
qed (simp add: joined_def)

lemma relative_plain:
  assumes "ordinary_name n" and that: "r = [] \<or> peek r = SLASH"
  shows "\<not> do_isabsolute (n @ r)"
proof -
  obtain c n' where n: "n = c # n'" using assms by (cases n) (simp_all add: ordinary_name_def)
  have al: "\<forall>x \<in> set n. \<not> is_sep x \<and> x \<noteq> CHR '':'' \<and> x \<noteq> CHR ''!''" "simple_path n"
    using assms unfolding ordinary_name_def by simp_all
  then have c: "\<not> is_sep c" "c \<noteq> CHR ''!''" "\<not> is_quote c" "c \<noteq> CHR ''%''" "c \<noteq> CHR ''$''"
    unfolding n simple_path_def by simp_all
  have p: "peek (n' @ r) \<noteq> CHR '':''"
  proof (cases n')
    case Nil
    with that show ?thesis by (cases r) auto
  next
    case (Cons d n'')
    with al(1) show ?thesis unfolding n by simp
  qed
  have "skip_marks (n @ r) = n @ r" using c unfolding n by (simp add: skip_marks_def is_quote_def)
  then have "do_absolutetype (n @ r) = JOIN_RELATIVE"
    using c p unfolding n by (simp add: do_absolutetype_def is_sep_def)
  then show ?thesis by (simp add: do_isabsolute_def)
qed

lemma relative_joined:
  assumes "\<forall>n \<in> set t. ordinary_name n"
  shows "\<not> do_isabsolute (joined (replicate k ''..'' @ t))"
proof (cases k)
  case 0
  show ?thesis
  proof (cases t)
    case Nil
    have "\<not> do_isabsolute ''''" by code_simp
    with 0 Nil show ?thesis by (simp add: joined_def)
  next
    case (Cons n t')
    with assms have "ordinary_name n" by simp
    from relative_plain [OF this, of "[]"] relative_plain [OF this, of "SLASH # joined t'"] 0 Cons
    show ?thesis by (simp add: joined_Cons)
  qed
next
  case (Suc k')
  have "do_absolutetype (joined (replicate k ''..'' @ t)) = JOIN_RELATIVE"
    by (simp add: Suc joined_Cons do_absolutetype_dot)
  then show ?thesis by (simp add: do_isabsolute_def)
qed

lemma follow_up: "follow (c @ s) (replicate (length s) ''..'' @ t) = follow c t"
proof (induction s rule: rev_induct)
  case (snoc x s)
  have "follow (c @ s @ [x]) (replicate (Suc (length s)) ''..'' @ t) = follow (c @ s) (replicate (length s) ''..'' @ t)"
    by (simp add: follow_def enter_def butlast_append)
  with snoc show ?case by simp
qed simp

lemma follow_names: "dir_names t \<Longrightarrow> follow c t = c @ t"
  unfolding follow_def by (induction t arbitrary: c) (auto simp: enter_def dir_names_def)

lemma dir_path_append: "dir_path (a @ b) = dir_path a @ dir_path b"
  by (simp add: dir_path_def)

lemma length_dir_path: "length s \<le> length (dir_path s)" "length (render s) = length (dir_path s)"
  by (induction s) auto

lemma length_joined: "length (joined cs) \<le> length (render cs)"
  by (simp add: joined_def)

text \<open>Following the names of a relative path from the first directory.\<close>

lemma getabsolute_names:
  assumes a: "directory (c @ s)" and b: "directory (c @ t)"
    and sz: "4 * length (dir_path (c @ s)) + length (dir_path (c @ t)) + 4 < BUFSIZE"
  defines "cs \<equiv> replicate (length s) ''..'' @ t"
  shows "do_getabsolute cwd (joined cs) (Some (dir_path (c @ s))) = Inr (dir_path (c @ t)) \<and> is_cstring (joined cs)"
proof -
  have na: "dir_names (c @ s)" "c @ s \<noteq> []" using a directory_dir_names by (auto simp: directory_def)
  have t: "\<forall>n \<in> set t. ordinary_name n" using b unfolding directory_def by simp
  have comp: "\<forall>x \<in> set cs. is_component x" "\<forall>x \<in> set cs. plain_component x" "\<forall>x \<in> set cs. is_cstring x"
    using t ordinary_component dotdot_component by (auto simp: cs_def)
  have len: "length s \<le> length (dir_path (c @ s))" "length (render t) \<le> length (dir_path (c @ t))"
    using length_dir_path [of s] length_dir_path [of t] unfolding dir_path_append by simp_all
  have lr: "length (joined cs) \<le> 3 * length s + length (render t)"
    using length_joined [of cs] by (simp add: cs_def render_append flip: up_render)
  have "dir_names t" using b directory_dir_names unfolding dir_names_def by auto
  then have "follow (c @ s) (components (joined cs)) = c @ t"
    using components_joined [OF comp(1)] follow_up [of c s t] follow_names [of t c] by (simp add: cs_def)
  moreover have "\<not> do_isabsolute (joined cs)" unfolding cs_def by (rule relative_joined [OF t])
  moreover have "\<forall>x \<in> set (strtok_all is_sep (joined cs)). plain_component x"
    using strtok_joined [OF comp(1)] comp(2) by simp
  moreover have "length (dir_path (c @ s)) + length (joined cs) + 3 < BUFSIZE" using len lr sz by linarith
  ultimately show ?thesis
    using do_getabsolute_follow [OF na, of "joined cs" cwd] is_cstring_joined [OF comp(3)] by simp
qed

text \<open>C1: Round trip: resolving the relative path against the directory it starts from gives the
  target directory, for any two directories (also without a common part), whatever the working
  directory is.\<close>

theorem getrelative_getabsolute:
  assumes pl: "pl \<noteq> Windows" and a: "directory a" and b: "directory b"
    and sz: "4 * length (dir_path a) + length (dir_path b) + 4 < BUFSIZE"
  shows "\<exists>r. path_getrelative pl path_normalize [LStr (dir_path a), LStr (dir_path b)] = Inr [LStr r]
    \<and> path_getabsolute cwd [LStr r, LStr (dir_path a)] = Inr [LStr (dir_path b)]"
proof -
  define r where "r = (if a = b then ''.'' else if hd a \<noteq> hd b then dir_path b else joined (relative_names a b))"
  have sz': "3 * length (dir_path a) + length (dir_path b) + 1 < BUFSIZE" using sz by simp
  have rel: "path_getrelative pl path_normalize [LStr (dir_path a), LStr (dir_path b)] = Inr [LStr r]"
    unfolding r_def by (rule normalizer.getrelative_names [OF pl a b sz'])
  have na: "dir_names a" "a \<noteq> []" using a directory_dir_names by (auto simp: directory_def)
  obtain s t where st: "a = common_names a b @ s" "b = common_names a b @ t"
    using common_split by blast
  define c where "c = common_names a b"
  have ab: "a = c @ s" "b = c @ t" using st by (simp_all add: c_def)
  consider (same) "a = b" | (far) "a \<noteq> b" "hd a \<noteq> hd b" | (near) "a \<noteq> b" "hd a = hd b" by blast
  then have "do_getabsolute cwd r (Some (dir_path a)) = Inr (dir_path b) \<and> is_cstring r"
  proof cases
    case same
    have d: "\<not> do_isabsolute ''.''" "list_all plain_component (strtok_all is_sep ''.'')" "components ''.'' = []"
      by code_simp+
    from same have "r = ''.''" by (simp add: r_def)
    with same do_getabsolute_follow [OF na d(1)] d(2,3) sz show ?thesis
      by (simp add: follow_def list_all_iff)
  next
    case far
    then have "r = dir_path b" by (simp add: r_def)
    with do_getabsolute_absolute [OF b] dir_path_cstring [OF b] sz show ?thesis by simp
  next
    case near
    then have "r = joined (replicate (length s) ''..'' @ t)" using relative_names_split [OF st] by (simp add: r_def)
    with getabsolute_names [of c s t cwd] a b sz ab show ?thesis by simp
  qed
  with rel dir_path_cstring [OF a] show ?thesis
    by (intro exI [of _ r]) (simp add: path_getabsolute_def arg_def)
qed

theorem getrelative_getabsolute_witness:
  "\<exists>r. path_getrelative Linux path_normalize [LStr ''/home/u/src'', LStr ''/usr''] = Inr [LStr r]
    \<and> path_getabsolute '''' [LStr r, LStr ''/home/u/src''] = Inr [LStr ''/usr'']"
  using getrelative_getabsolute [OF _ directory_examples(1,3), of Linux "''''"] by (simp add: BUFSIZE_def)

end
