(* ===== verification/String_Hash.thy ===== *)
theory String_Hash
  imports Lua_API
begin

text \<open>
  The string helpers of the host: prefix and suffix tests (\<open>string_startswith.c\<close>,
  \<open>string_endswith.c\<close>), the DJB2 hash (\<open>string_hash.c\<close>), the identifiers derived from it
  (\<open>os_uuid.c\<close>) and the conversion of wildcards to Lua patterns (\<open>path_wildcards.c\<close>).
\<close>

unbundle bit_operations_syntax

section \<open>Prefixes and suffixes\<close>

definition string_startswith :: "lval list \<Rightarrow> lua_ret" where
  "string_startswith args =
     bind_f (luaL_optstring args 1) (\<lambda>haystack. bind_f (luaL_optstring args 2) (\<lambda>needle.
       case (haystack, needle) of
         (Some h, Some n) \<Rightarrow> Inr [LBool (strncmp_eq h n (length n))]
       | _ \<Rightarrow> Inr []))"

definition string_endswith :: "lval list \<Rightarrow> lua_ret" where
  "string_endswith args =
     bind_f (luaL_optstring args 1) (\<lambda>haystack. bind_f (luaL_optstring args 2) (\<lambda>needle.
       case (haystack, needle) of
         (Some h, Some n) \<Rightarrow>
           if length n \<le> length h then Inr [LBool (drop (length h - length n) h = n)] else Inr []
       | _ \<Rightarrow> Inr []))"

lemma drop_suffix: "length n \<le> length h \<Longrightarrow> drop (length h - length n) h = n \<longleftrightarrow> suffix n h"
  by (metis append_take_drop_id suffixI suffix_take append_eq_conv_conj suffix_def length_append add_diff_cancel_right')

text \<open>\<open>string.startswith\<close> and \<open>string.endswith\<close> decide the prefix and the suffix relation; a
  needle longer than the haystack gives no result at all in the second case, which a script reads as
  nil.\<close>

theorem startswith_endswith:
  "string_startswith [LStr h, LStr n] = Inr [LBool (prefix (c_view n) (c_view h))] \<and>
   string_endswith [LStr h, LStr n] =
     (if length (c_view h) < length (c_view n) then Inr [] else Inr [LBool (suffix (c_view n) (c_view h))])"
  by (simp add: string_startswith_def string_endswith_def arg_defs strncmp_prefix drop_suffix)

section \<open>DJB2\<close>

text \<open>The value of a \<open>char\<close> in arithmetic: it is signed on most targets and unsigned on some.\<close>

definition char_value :: "bool \<Rightarrow> char \<Rightarrow> 32 word" where
  "char_value signed_char c =
     (if signed_char \<and> 128 \<le> code c then of_nat (code c) - 256 else of_nat (code c))"

primrec hash_chars :: "bool \<Rightarrow> cstring \<Rightarrow> 32 word \<Rightarrow> 32 word" where
  "hash_chars sc [] hash = hash"
| "hash_chars sc (c # str) hash = hash_chars sc str (hash * 33 + char_value sc c)"

definition do_hash :: "bool \<Rightarrow> cstring \<Rightarrow> 32 word \<Rightarrow> 32 word" where
  "do_hash sc str seed = hash_chars sc str (if seed \<noteq> 0 then 5381 * 33 + seed else 5381)"

definition string_hash :: "bool \<Rightarrow> lval list \<Rightarrow> lua_ret" where
  "string_hash sc args =
     bind_f (luaL_checkstring args 1) (\<lambda>str. bind_f (luaL_optinteger args 2 0) (\<lambda>seed.
       Inr [LInt (uint (do_hash sc str (word_of_int seed)))]))"

text \<open>The hash is a polynomial in 33, modulo 2 to the 32.\<close>

primrec djb2 :: "bool \<Rightarrow> cstring \<Rightarrow> 32 word" where
  "djb2 sc [] = 0"
| "djb2 sc (c # str) = char_value sc c * 33 ^ length str + djb2 sc str"

lemma hash_chars_djb2: "hash_chars sc str hash = hash * 33 ^ length str + djb2 sc str"
  by (induction str arbitrary: hash) (simp_all add: algebra_simps)

lemma djb2_append: "djb2 sc (s @ t) = djb2 sc s * 33 ^ length t + djb2 sc t"
  by (induction s) (simp_all add: algebra_simps power_add)

text \<open>The hash of a string is \<open>(5381 * 33 + seed) * 33^n + \<Sum> c\<^sub>i * 33^(n-i)\<close> modulo 2 to the 32, the
  first summand without \<open>seed\<close> for the seed 0; and for text in ASCII it does not depend on the
  signedness of \<open>char\<close>.\<close>

theorem do_hash_polynomial:
  assumes "\<forall>c \<in> set s. code c < 128"
  shows "string_hash sc [LStr s, LInt seed] =
    Inr [LInt (uint ((if word_of_int seed = (0 :: 32 word) then 5381 else 5381 * 33 + word_of_int seed)
      * 33 ^ length (c_view s) + djb2 False (c_view s)))]"
proof -
  have "djb2 sc t = djb2 False t" if "\<forall>c \<in> set t. code c < 128" for t
    using that by (induction t) (auto simp: char_value_def)
  moreover have "\<forall>c \<in> set (c_view s). code c < 128"
    using assms by (auto simp: c_view_def dest: set_takeWhileD)
  ultimately show ?thesis
    by (simp add: string_hash_def arg_defs do_hash_def hash_chars_djb2)
qed

theorem do_hash_polynomial_witness: "string_hash True [LStr ''ab'', LInt 0] = Inr [LInt 5863208]"
proof -
  have "list_all (\<lambda>c. code c < 128) ''ab''" by code_simp
  moreover have "uint (5381 * 33 ^ length ''ab'' + djb2 False ''ab'' :: 32 word) = 5863208" by code_simp
  ultimately show ?thesis
    using do_hash_polynomial [of "''ab''" True 0] by (simp add: list_all_iff)
qed

text \<open>Outside ASCII the hash of the same bytes differs between targets with a signed and with an
  unsigned \<open>char\<close>.\<close>

theorem do_hash_signedness:
  "string_hash True [LStr [CHR 0xC3, CHR 0xA9]] \<noteq> string_hash False [LStr [CHR 0xC3, CHR 0xA9]]"
proof -
  have v: "c_view [CHR 0xC3, CHR 0xA9] = [CHR 0xC3, CHR 0xA9]" by code_simp
  have "uint (do_hash True [CHR 0xC3, CHR 0xA9] 0) \<noteq> uint (do_hash False [CHR 0xC3, CHR 0xA9] 0)" by code_simp
  then show ?thesis by (simp add: string_hash_def arg_defs v)
qed

section \<open>Identifiers\<close>

definition add_bytes :: "32 word \<Rightarrow> 8 word list" where
  \<comment> \<open>the four bytes that \<open>add\<close> stores, lowest first\<close>
  "add_bytes v = map (\<lambda>i. ucast (drop_bit (8 * i) v AND 0xff)) [0, 1, 2, 3]"

definition hex_digit :: "nat \<Rightarrow> char" where
  "hex_digit d = (if d < 10 then char_of (48 + d) else char_of (55 + d))"

definition hex2 :: "8 word \<Rightarrow> string" where
  \<comment> \<open>\<open>%02X\<close>\<close>
  "hex2 b = [hex_digit (unat b div 16), hex_digit (unat b mod 16)]"

definition print_uuid :: "8 word list \<Rightarrow> string" where
  "print_uuid bs =
     concat (map hex2 (take 4 bs)) @ ''-'' @ concat (map hex2 (take 2 (drop 4 bs))) @ ''-'' @
     concat (map hex2 (take 2 (drop 6 bs))) @ ''-'' @ concat (map hex2 (take 2 (drop 8 bs))) @ ''-'' @
     concat (map hex2 (take 6 (drop 10 bs)))"

definition name_bytes :: "bool \<Rightarrow> cstring \<Rightarrow> 8 word list" where
  "name_bytes sc name =
     concat (map (\<lambda>seed. add_bytes (do_hash sc name seed)) [0, 76, 117, 97])"

text \<open>\<open>fresh\<close> is what the system's generator stores, \<open>None\<close> if it stores nothing.\<close>

definition os_uuid :: "bool \<Rightarrow> 8 word list option \<Rightarrow> lval list \<Rightarrow> lua_ret" where
  "os_uuid sc fresh args =
     bind_f (luaL_optstring args 1) (\<lambda>name.
       case name of
         Some n \<Rightarrow> Inr [LStr (print_uuid (name_bytes sc n))]
       | None \<Rightarrow> (case fresh of None \<Rightarrow> Inr [] | Some bs \<Rightarrow> Inr [LStr (print_uuid bs)]))"

lemma length_add_bytes [simp]: "length (add_bytes v) = 4"
  by (simp add: add_bytes_def)

lemma length_name_bytes [simp]: "length (name_bytes sc n) = 16"
  by (simp add: name_bytes_def)

lemma length_hex: "length (concat (map hex2 bs)) = 2 * length bs"
  by (induction bs) (simp_all add: hex2_def)

definition is_hex :: "char \<Rightarrow> bool" where
  "is_hex c \<longleftrightarrow> isdigit_c c \<or> 65 \<le> code c \<and> code c \<le> 70"

lemma hex_digit_ok: "d < 16 \<Longrightarrow> is_hex (hex_digit d)"
  by (auto simp: is_hex_def hex_digit_def isdigit_c_def code_def)

lemma hex2_ok: "c \<in> set (hex2 b) \<Longrightarrow> is_hex c"
proof -
  have "unat b < 256" using unsigned_less [of b] by simp
  then have "unat b div 16 < 16" by simp
  then show "c \<in> set (hex2 b) \<Longrightarrow> ?thesis" by (auto simp: hex2_def hex_digit_ok)
qed

lemma collision_step:
  "length s = length t \<Longrightarrow> djb2 sc s = djb2 sc t \<Longrightarrow> do_hash sc (p @ s @ q) seed = do_hash sc (p @ t @ q) seed"
  by (simp add: do_hash_def hash_chars_djb2 djb2_append)

lemma ab_bA: "djb2 sc ''ab'' = djb2 sc ''bA''"
proof -
  have "djb2 True ''ab'' = djb2 True ''bA''" "djb2 False ''ab'' = djb2 False ''bA''" by code_simp+
  then show ?thesis by (cases sc) simp_all
qed

text \<open>The printed form: five groups of upper-case hexadecimal digits.\<close>

definition uuid_format :: "string \<Rightarrow> bool" where
  "uuid_format u \<longleftrightarrow> (\<exists>a b c d e. u = a @ ''-'' @ b @ ''-'' @ c @ ''-'' @ d @ ''-'' @ e
     \<and> map length [a, b, c, d, e] = [8, 4, 4, 4, 12] \<and> (\<forall>x \<in> set (a @ b @ c @ d @ e). is_hex x))"

lemma print_uuid_format: "length bs = 16 \<Longrightarrow> uuid_format (print_uuid bs)"
proof -
  assume l: "length bs = 16"
  let ?h = "\<lambda>bs. concat (map hex2 bs)"
  have "\<forall>x \<in> set (?h cs). is_hex x" for cs using hex2_ok by auto
  then show ?thesis
    unfolding uuid_format_def print_uuid_def using l
    by (intro exI [of _ "?h (take 4 bs)"] exI [of _ "?h (take 2 (drop 4 bs))"]
        exI [of _ "?h (take 2 (drop 6 bs))"] exI [of _ "?h (take 2 (drop 8 bs))"]
        exI [of _ "?h (take 6 (drop 10 bs))"]) (auto simp: length_hex simp del: set_concat)
qed

text \<open>The identifier of a named entity is a function of the name only, printed as five groups of
  8, 4, 4, 4 and 12 hexadecimal digits. It is not injective: names that differ only in having \<open>bA\<close>
  for \<open>ab\<close> anywhere get the same identifier, since all four hashes agree when one does.\<close>

theorem os_uuid_named:
  assumes "is_cstring p" and "is_cstring q"
  shows "\<exists>u. os_uuid sc fresh [LStr (p @ ''ab'' @ q)] = Inr [LStr u]
    \<and> os_uuid sc fresh' [LStr (p @ ''bA'' @ q)] = Inr [LStr u] \<and> uuid_format u"
proof -
  let ?u = "print_uuid (name_bytes sc (p @ ''ab'' @ q))"
  have "name_bytes sc (p @ ''bA'' @ q) = name_bytes sc (p @ ''ab'' @ q)"
    using collision_step [OF _ ab_bA, of sc p q] by (simp add: name_bytes_def)
  then have "os_uuid sc fresh [LStr (p @ ''ab'' @ q)] = Inr [LStr ?u]"
      "os_uuid sc fresh' [LStr (p @ ''bA'' @ q)] = Inr [LStr ?u]"
    using assms by (simp_all add: os_uuid_def arg_defs)
  moreover have "uuid_format ?u" by (rule print_uuid_format) simp
  ultimately show ?thesis by blast
qed

theorem os_uuid_named_witness:
  "\<exists>u. os_uuid True None [LStr ''lab1''] = Inr [LStr u] \<and> os_uuid True None [LStr ''lbA1''] = Inr [LStr u]
    \<and> uuid_format u"
  using os_uuid_named [of "''l''" "''1''" True None None] by simp

section \<open>Wildcards\<close>

text \<open>What one character of the wildcard is turned into, and what is left to read.\<close>

definition wildcard_piece :: "char \<Rightarrow> string \<Rightarrow> string \<times> string" where
  "wildcard_piece c s =
     (if c \<in> set ''+.-^$()%'' then ([CHR ''%'', c], s)
      else if c = CHR ''*'' then
        (if s \<noteq> [] \<and> hd s = CHR ''*'' then (''.*'', tl s) else (''[^/]*'', s))
      else ([c], s))"

lemma wildcard_piece_length: "length (snd (wildcard_piece c s)) \<le> length s"
  by (simp add: wildcard_piece_def)

function wildcard_loop :: "string \<Rightarrow> string \<Rightarrow> fault + string" where
  "wildcard_loop [] out = Inr out"
| "wildcard_loop (c # s) out =
     (let (piece, rest) = wildcard_piece c s; out' = out @ piece in
      if BUFSIZE < length out' then Inl OutOfBounds
      else if BUFSIZE \<le> length out' then Inl (LuaError ''Wildcards expansion too big.'')
      else wildcard_loop rest out')"
  by pat_completeness auto
termination
  using wildcard_piece_length
  by (relation "measure (\<lambda>(s, out). length s)") (auto simp: less_Suc_eq_le, metis snd_conv)

definition path_wildcards :: "lval list \<Rightarrow> lua_ret" where
  "path_wildcards args =
     bind_f (luaL_checklstring args 1) (\<lambda>input.
       map_sum id (\<lambda>out. [LStr (c_view out)]) (wildcard_loop input []))"

text \<open>The meaning of a wildcard, and the reading of the Lua patterns that the conversion aims at.\<close>

datatype glob = Char char | Segment | Anything

fun glob_items :: "string \<Rightarrow> glob list" where
  "glob_items [] = []"
| "glob_items (c # s) =
     (if c = CHR ''*'' \<and> prefix ''*'' s then Anything # glob_items (tl s)
      else (if c = CHR ''*'' then Segment else Char c) # glob_items s)"

text \<open>In Lua \<open>%c\<close> is the character \<open>c\<close> for a \<open>c\<close> that is not alphanumeric, \<open>[^/]*\<close> a run of
  characters other than \<open>/\<close>, \<open>.*\<close> any run, and a character that is not special itself.\<close>

fun lua_pattern_items :: "string \<Rightarrow> glob list option" where
  "lua_pattern_items [] = Some []"
| "lua_pattern_items (c # s) =
     (if c = CHR ''%'' then
        (case s of
           d # s' \<Rightarrow> if isalpha_c d \<or> isdigit_c d then None
                    else map_option (Cons (Char d)) (lua_pattern_items s')
         | [] \<Rightarrow> None)
      else if prefix ''[^/]*'' (c # s) then map_option (Cons Segment) (lua_pattern_items (drop 4 s))
      else if prefix ''.*'' (c # s) then map_option (Cons Anything) (lua_pattern_items (drop 1 s))
      else if c \<in> set ''^$().[]*+-?'' then None
      else map_option (Cons (Char c)) (lua_pattern_items s))"

function wildcard_expansion :: "string \<Rightarrow> string" where
  "wildcard_expansion [] = []"
| "wildcard_expansion (c # s) = fst (wildcard_piece c s) @ wildcard_expansion (snd (wildcard_piece c s))"
  by pat_completeness auto
termination
  using wildcard_piece_length by (relation "measure length") (auto simp: less_Suc_eq_le)

lemma wildcard_piece_bound: "length (fst (wildcard_piece c s)) \<le> 5"
  by (simp add: wildcard_piece_def)

lemma wildcard_loop_fits:
  "length out + 5 * length s < BUFSIZE \<Longrightarrow> wildcard_loop s out = Inr (out @ wildcard_expansion s)"
proof (induction s arbitrary: out rule: wildcard_expansion.induct)
  case (2 c s)
  obtain piece rest where p: "wildcard_piece c s = (piece, rest)" by fastforce
  then have "length piece \<le> 5" "length rest \<le> length s"
    using wildcard_piece_bound [of c s] wildcard_piece_length [of c s] by simp_all
  with 2 p show ?case by (simp add: Let_def)
qed simp

lemma special_chars:
  "c \<in> set ''+.-^$()%'' \<Longrightarrow> \<not> isalpha_c c \<and> \<not> isdigit_c c"
  "c \<notin> set ''+.-^$()%'' \<Longrightarrow> c \<noteq> CHR ''*'' \<Longrightarrow> c \<notin> set ''[]?'' \<Longrightarrow>
     c \<noteq> CHR ''%'' \<and> c \<noteq> DOT \<and> c \<noteq> CHR ''['' \<and> c \<notin> set ''^$().[]*+-?''"
  by (auto simp: char_defs)

lemma expansion_items:
  "\<forall>c \<in> set s. c \<notin> set ''[]?'' \<Longrightarrow> lua_pattern_items (wildcard_expansion s) = Some (glob_items s)"
proof (induction s rule: wildcard_expansion.induct)
  case (2 c s)
  have sub: "set (snd (wildcard_piece c s)) \<subseteq> set s"
    by (cases s) (auto simp: wildcard_piece_def)
  with 2 have IH: "lua_pattern_items (wildcard_expansion (snd (wildcard_piece c s))) =
      Some (glob_items (snd (wildcard_piece c s)))" by auto
  consider (esc) "c \<in> set ''+.-^$()%''" | (any) s' where "c = CHR ''*''" "s = CHR ''*'' # s'"
    | (seg) "c = CHR ''*''" "\<not> (s \<noteq> [] \<and> hd s = CHR ''*'')"
    | (plain) "c \<notin> set ''+.-^$()%''" "c \<noteq> CHR ''*''" by (cases s) auto
  then show ?case
  proof cases
    case esc
    then have "c \<noteq> CHR ''*''" by auto
    then have "glob_items (c # s) = Char c # glob_items s" by (cases s) simp_all
    with esc IH special_chars(1) [OF esc] show ?thesis by (simp add: wildcard_piece_def)
  next
    case any
    with IH show ?thesis by (simp add: wildcard_piece_def)
  next
    case seg
    then have "glob_items (c # s) = Segment # glob_items s" by (cases s) auto
    moreover have "wildcard_piece c s = (''[^/]*'', s)" using seg by (auto simp: wildcard_piece_def)
    ultimately show ?thesis using IH seg(1) by simp
  next
    case plain
    have "c \<notin> set ''[]?''" using "2.prems" by simp
    note sp = special_chars(2) [OF plain this]
    have "glob_items (c # s) = Char c # glob_items s" using plain(2) by (cases s) simp_all
    moreover have "CHR ''['' \<noteq> c" "DOT \<noteq> c" using sp by (blast dest: sym)+
    ultimately show ?thesis using plain sp IH by (simp add: wildcard_piece_def)
  qed
qed simp

text \<open>C30: The Lua pattern that a wildcard is converted to reads back as the wildcard's own items: each
  \<open>*\<close> a run without slashes, each \<open>**\<close> any run and every other character itself, provided the
  wildcard holds none of \<open>[\<close>, \<open>]\<close>, \<open>?\<close>, which the code does not escape.\<close>

theorem wildcards_roundtrip:
  assumes "is_cstring g" and "\<forall>c \<in> set g. c \<notin> set ''[]?''" and "5 * length g < BUFSIZE"
  shows "\<exists>p. path_wildcards [LStr g] = Inr [LStr p] \<and> lua_pattern_items p = Some (glob_items g)"
proof -
  have "is_cstring (wildcard_expansion g)"
    using assms(1)
  proof (induction g rule: wildcard_expansion.induct)
    case (2 c s)
    have "set (snd (wildcard_piece c s)) \<subseteq> set s" by (cases s) (auto simp: wildcard_piece_def)
    moreover have "is_cstring (fst (wildcard_piece c s))" using "2.prems" by (simp add: wildcard_piece_def)
    ultimately show ?case using 2 by (auto simp: is_cstring_def)
  qed simp
  then show ?thesis
    using wildcard_loop_fits [of "[]" g] assms expansion_items
    by (simp add: path_wildcards_def arg_defs)
qed

theorem wildcards_roundtrip_witness:
  "\<exists>p. path_wildcards [LStr ''src/**/*.c''] = Inr [LStr p] \<and> lua_pattern_items p = Some (glob_items ''src/**/*.c'')"
  by (rule wildcards_roundtrip) (simp_all add: BUFSIZE_def)

text \<open>The check of the buffer comes after the write: when the expansion of one more \<open>*\<close> does not
  fit any more, up to four bytes are written behind the buffer.\<close>

theorem wildcards_overflow:
  assumes "\<forall>c \<in> set g. c \<notin> set ''+.-^$()%*''" and "BUFSIZE < length g + 5" and "length g < BUFSIZE"
  shows "path_wildcards [LStr (g @ ''*'')] = Inl OutOfBounds"
proof -
  have "wildcard_loop (s @ t) out = wildcard_loop t (out @ s)"
    if "\<forall>c \<in> set s. c \<notin> set ''+.-^$()%*''" "length out + length s < BUFSIZE" for s t out
    using that by (induction s arbitrary: out) (simp_all add: wildcard_piece_def)
  from this [OF assms(1), of "[]" "''*''"] assms(2,3) show ?thesis
    by (simp add: path_wildcards_def arg_defs wildcard_piece_def)
qed

theorem wildcards_overflow_witness:
  "path_wildcards [LStr (replicate 16380 (CHR ''a'') @ ''*'')] = Inl OutOfBounds"
  by (rule wildcards_overflow) (simp_all add: BUFSIZE_def)

end
