(* ===== verification/Buffered_IO.thy ===== *)
theory Buffered_IO
  imports Lua_API
begin

text \<open>
  \<open>src/host/buffered_io.c\<close>: the growable byte buffer behind \<open>buffered.new\<close>, \<open>write\<close>, \<open>writeln\<close>,
  \<open>tostring\<close> and \<open>close\<close>. The abstract specification is a list that grows at its end; the locale
  \<open>byte_log\<close> states it, and the C buffer with its capacity is shown to implement it. The buffers
  of a session live in a heap, addressed by the light userdata that scripts hold.

  Capacities are natural numbers: they stay below the size of the address space, far from the
  wrap-around of \<open>size_t\<close>. Allocation is taken to succeed.
\<close>

section \<open>The buffer\<close>

record Buffer =
  capacity :: nat
  buf_length :: nat
  data :: string

definition premake_buffer_init :: Buffer where
  "premake_buffer_init = \<lparr>capacity = 0, buf_length = 0, data = []\<rparr>"

definition premake_buffer_destroy :: "Buffer \<Rightarrow> Buffer" where
  "premake_buffer_destroy b = b\<lparr>capacity := 0, buf_length := 0, data := []\<rparr>"

function grow :: "nat \<Rightarrow> nat \<Rightarrow> nat" where
  "grow required cap =
     (if cap < required then
        grow required (let cap' = (cap * 3) div 2 in if cap' \<le> 65536 then 65536 else cap')
      else cap)"
  by pat_completeness auto
termination
  by (relation "measure (\<lambda>(required, cap). required - cap)") (auto simp: Let_def)

declare grow.simps [simp del]

definition memcpy :: "string \<Rightarrow> nat \<Rightarrow> string \<Rightarrow> string" where
  \<comment> \<open>\<open>memcpy(dst + off, src, len)\<close> where \<open>src\<close> has \<open>len\<close> bytes\<close>
  "memcpy dst off src = take off dst @ src @ drop (off + length src) dst"

definition premake_buffer_puts :: "Buffer \<Rightarrow> string \<Rightarrow> Buffer" where
  "premake_buffer_puts b ptr =
     (let required = buf_length b + length ptr;
          b1 = (if capacity b < required then
                  let cap = grow required (capacity b); zeros = replicate cap NUL in
                  b\<lparr>data := (if 0 < buf_length b then memcpy zeros 0 (take (buf_length b) (data b)) else zeros),
                    capacity := cap\<rparr>
                else b) in
      b1\<lparr>data := memcpy (data b1) (buf_length b1) ptr, buf_length := buf_length b1 + length ptr\<rparr>)"

text \<open>
  \<open>text\<close> holds 2048 bytes, of which \<open>vsnprintf\<close> may fill 2047 with its terminator; \<open>formatted\<close> is the
  output it would have produced, whose length it returns.
\<close>

definition TEXT_SIZE :: nat where "TEXT_SIZE = 2048"

definition premake_buffer_printf :: "Buffer \<Rightarrow> string \<Rightarrow> fault + Buffer" where
  "premake_buffer_printf b formatted =
     (let text = take (TEXT_SIZE - 2) formatted @ [NUL]; len = length formatted in
      if TEXT_SIZE < len then Inl OutOfBounds
      else if length text < len then Inl Uninitialised
      else Inr (premake_buffer_puts b (take len text)))"

section \<open>The functions of the Lua library\<close>

type_synonym heap = "nat \<rightharpoonup> Buffer"

definition lua_touserdata :: "lval list \<Rightarrow> nat \<Rightarrow> nat option" where
  "lua_touserdata args i = (case arg args i of Some (LUser p) \<Rightarrow> Some p | _ \<Rightarrow> None)"

definition deref :: "heap \<Rightarrow> nat option \<Rightarrow> fault + nat \<times> Buffer" where
  \<comment> \<open>a null pointer or a closed buffer is not an object\<close>
  "deref h p = (case p of None \<Rightarrow> Inl OutOfBounds
     | Some a \<Rightarrow> (case h a of None \<Rightarrow> Inl OutOfBounds | Some b \<Rightarrow> Inr (a, b)))"

text \<open>\<open>fresh\<close> is the address that \<open>malloc\<close> returns.\<close>

definition buffered_new :: "nat \<Rightarrow> heap \<Rightarrow> heap \<times> lval list" where
  "buffered_new fresh h = (h(fresh \<mapsto> premake_buffer_init), [LUser fresh])"

definition buffered_write :: "heap \<Rightarrow> lval list \<Rightarrow> fault + heap \<times> lval list" where
  "buffered_write h args =
     bind_f (luaL_checklstring args 2) (\<lambda>s.
     bind_f (deref h (lua_touserdata args 1)) (\<lambda>(p, b).
       Inr (h(p \<mapsto> premake_buffer_puts b s), [])))"

definition luaL_optlstring :: "lval list \<Rightarrow> nat \<Rightarrow> fault + string option" where
  "luaL_optlstring args i =
     (if lua_isnoneornil args i then Inr None else map_sum id Some (luaL_checklstring args i))"

definition buffered_writeln :: "heap \<Rightarrow> lval list \<Rightarrow> fault + heap \<times> lval list" where
  "buffered_writeln h args =
     bind_f (luaL_optlstring args 2) (\<lambda>s.
     bind_f (deref h (lua_touserdata args 1)) (\<lambda>(p, b).
       let b1 = (case s of None \<Rightarrow> b | Some s \<Rightarrow> premake_buffer_puts b s) in
       Inr (h(p \<mapsto> premake_buffer_puts b1 [CHR 0x0D, CHR 0x0A]), [])))"

definition buffered_close :: "heap \<Rightarrow> lval list \<Rightarrow> fault + heap \<times> lval list" where
  "buffered_close h args =
     bind_f (deref h (lua_touserdata args 1)) (\<lambda>(p, b).
       let h1 = h(p \<mapsto> premake_buffer_destroy b) in Inr (h1(p := None), []))"

definition trimmed_length :: "string \<Rightarrow> nat \<Rightarrow> nat" where
  "trimmed_length d len =
     (let len1 = (if 0 < len \<and> d ! (len - 1) = CHR 0x0A then len - 1 else len) in
      if 0 < len1 \<and> d ! (len1 - 1) = CHR 0x0D then len1 - 1 else len1)"

definition buffered_tostring :: "heap \<Rightarrow> lval list \<Rightarrow> fault + lval list" where
  "buffered_tostring h args =
     bind_f (deref h (lua_touserdata args 1)) (\<lambda>(p, b).
       let len = trimmed_length (data b) (buf_length b) in
       Inr [LStr (if 0 < len then take len (data b) else '''')])"

section \<open>Growth\<close>

lemma grow_enough: "required \<le> grow required cap \<and> cap \<le> grow required cap"
proof (induction required cap rule: grow.induct)
  case (1 required cap)
  then show ?case by (subst (1 2) grow.simps) (auto simp: Let_def split: if_splits)
qed



section \<open>The specification: a list that grows at its end\<close>

definition buffer_ok :: "Buffer \<Rightarrow> bool" where
  "buffer_ok b \<longleftrightarrow> length (data b) = capacity b \<and> buf_length b \<le> capacity b"

definition contents :: "Buffer \<Rightarrow> string" where
  "contents b = take (buf_length b) (data b)"

locale byte_log =
  fixes ok :: "'b \<Rightarrow> bool"
    and abs :: "'b \<Rightarrow> string"
    and new :: 'b
    and append :: "'b \<Rightarrow> string \<Rightarrow> 'b"
  assumes new_ok: "ok new" and new_abs: "abs new = []"
    and append_ok: "ok b \<Longrightarrow> ok (append b s)"
    and append_abs: "ok b \<Longrightarrow> abs (append b s) = abs b @ s"
begin

lemma foldl_append: "ok b \<Longrightarrow> ok (foldl append b ss) \<and> abs (foldl append b ss) = abs b @ concat ss"
  by (induction ss arbitrary: b) (simp_all add: append_ok append_abs)

lemma log_concat: "ok (foldl append new ss) \<and> abs (foldl append new ss) = concat ss"
  using foldl_append [OF new_ok] by (simp add: new_abs)

end

lemma puts_ok:
  assumes "buffer_ok b"
  shows "buffer_ok (premake_buffer_puts b s)" and "contents (premake_buffer_puts b s) = contents b @ s"
proof -
  let ?g = "grow (buf_length b + length s) (capacity b)"
  have "buf_length b + length s \<le> ?g" using grow_enough by blast
  then show "buffer_ok (premake_buffer_puts b s)" "contents (premake_buffer_puts b s) = contents b @ s"
    using assms
    by (auto simp: premake_buffer_puts_def buffer_ok_def contents_def memcpy_def Let_def min_def)
qed

interpretation buffer: byte_log buffer_ok contents premake_buffer_init premake_buffer_puts
  by unfold_locales (simp_all add: puts_ok, simp_all add: premake_buffer_init_def buffer_ok_def contents_def)

section \<open>A session with one buffer\<close>

datatype output_op = Write string | Writeln string | EmptyLine

primrec run_op :: "nat \<Rightarrow> heap \<Rightarrow> output_op \<Rightarrow> fault + heap \<times> lval list" where
  "run_op p h (Write s) = buffered_write h [LUser p, LStr s]"
| "run_op p h (Writeln s) = buffered_writeln h [LUser p, LStr s]"
| "run_op p h EmptyLine = buffered_writeln h [LUser p]"

primrec run_ops :: "nat \<Rightarrow> heap \<Rightarrow> output_op list \<Rightarrow> fault + heap" where
  "run_ops p h [] = Inr h"
| "run_ops p h (x # xs) = bind_f (run_op p h x) (\<lambda>(h', _). run_ops p h' xs)"

primrec op_text :: "output_op \<Rightarrow> string" where
  "op_text (Write s) = s"
| "op_text (Writeln s) = s @ [CHR 0x0D, CHR 0x0A]"
| "op_text EmptyLine = [CHR 0x0D, CHR 0x0A]"

text \<open>At most one line feed and then at most one carriage return come off the end.\<close>

definition trim_eol :: "string \<Rightarrow> string" where
  "trim_eol s =
     (let s1 = (if s \<noteq> [] \<and> last s = CHR 0x0A then butlast s else s) in
      if s1 \<noteq> [] \<and> last s1 = CHR 0x0D then butlast s1 else s1)"

lemma trimmed_length_eol:
  assumes "len \<le> length d"
  shows "take (trimmed_length d len) d = trim_eol (take len d)"
proof -
  have l: "last (take n d) = d ! (n - 1)" "butlast (take n d) = take (n - 1) d" if "0 < n" "n \<le> length d" for n
  proof -
    show "last (take n d) = d ! (n - 1)" using that by (subst last_conv_nth) auto
    show "butlast (take n d) = take (n - 1) d" using that by (simp add: butlast_take)
  qed
  have e: "take n d = [] \<longleftrightarrow> n = 0" if "n \<le> length d" for n using that by auto
  define m where "m = (if 0 < len \<and> d ! (len - 1) = CHR 0x0A then len - 1 else len)"
  have m: "m \<le> length d" using assms by (auto simp: m_def)
  have s1: "(if take len d \<noteq> [] \<and> last (take len d) = CHR 0x0A then butlast (take len d) else take len d) = take m d"
    using l [of len] e [of len] assms by (auto simp: m_def)
  have "(if take m d \<noteq> [] \<and> last (take m d) = CHR 0x0D then butlast (take m d) else take m d)
      = take (if 0 < m \<and> d ! (m - 1) = CHR 0x0D then m - 1 else m) d"
    using l [of m] e [of m] m by auto
  then show ?thesis unfolding trim_eol_def trimmed_length_def Let_def s1 m_def [symmetric] by simp
qed

lemma run_op_ok:
  assumes "h p = Some b" and "buffer_ok b"
  shows "\<exists>b'. run_op p h x = Inr (h(p \<mapsto> b'), []) \<and> buffer_ok b' \<and> contents b' = contents b @ op_text x"
proof (cases x)
  case (Write s)
  with assms show ?thesis
    by (intro exI [of _ "premake_buffer_puts b s"])
      (simp add: buffered_write_def deref_def lua_touserdata_def arg_defs puts_ok)
next
  case (Writeln s)
  with assms show ?thesis
    by (intro exI [of _ "premake_buffer_puts (premake_buffer_puts b s) [CHR 0x0D, CHR 0x0A]"])
      (simp add: buffered_writeln_def luaL_optlstring_def deref_def lua_touserdata_def arg_defs puts_ok)
next
  case EmptyLine
  with assms show ?thesis
    by (intro exI [of _ "premake_buffer_puts b [CHR 0x0D, CHR 0x0A]"])
      (simp add: buffered_writeln_def luaL_optlstring_def deref_def lua_touserdata_def arg_defs puts_ok)
qed

lemma run_ops_ok:
  "h p = Some b \<Longrightarrow> buffer_ok b \<Longrightarrow>
     \<exists>b'. run_ops p h xs = Inr (h(p \<mapsto> b')) \<and> buffer_ok b' \<and> contents b' = contents b @ concat (map op_text xs)"
proof (induction xs arbitrary: h b)
  case Nil
  then show ?case by (intro exI [of _ b]) (simp add: fun_upd_idem)
next
  case (Cons x xs)
  from run_op_ok [where x = x and p = p and h = h, OF Cons.prems] obtain b1 where
      r: "run_op p h x = Inr (h(p \<mapsto> b1), [])" "buffer_ok b1" "contents b1 = contents b @ op_text x" by blast
  have "(h(p \<mapsto> b1)) p = Some b1" by simp
  from Cons.IH [where h = "h(p \<mapsto> b1)", OF this r(2)] obtain b' where
      "run_ops p (h(p \<mapsto> b1)) xs = Inr (h(p \<mapsto> b'))" "buffer_ok b'"
      "contents b' = contents b1 @ concat (map op_text xs)" by (auto simp only: fun_upd_upd)
  with r show ?case by (intro exI [of _ b']) (simp add: fun_upd_def)
qed

text \<open>C19: Refinement to text: after any sequence of \<open>write\<close> and \<open>writeln\<close> calls on a new buffer,
  \<open>tostring\<close> gives the concatenation of what was written (each line ended by CR LF), without its last
  end of line, and the other buffers are untouched. After \<open>close\<close>, a use of the buffer is an access
  to freed memory.\<close>

theorem buffered_session:
  "\<exists>h'. run_ops p (fst (buffered_new p h)) ops = Inr h'
     \<and> buffered_tostring h' [LUser p] = Inr [LStr (trim_eol (concat (map op_text ops)))]
     \<and> (\<forall>q. q \<noteq> p \<longrightarrow> h' q = h q)
     \<and> (\<exists>h''. buffered_close h' [LUser p] = Inr (h'', []) \<and> run_op p h'' (Write s) = Inl OutOfBounds
          \<and> (\<forall>q. q \<noteq> p \<longrightarrow> h'' q = h q))"
proof -
  let ?h = "fst (buffered_new p h)"
  have n: "?h p = Some premake_buffer_init" by (simp add: buffered_new_def)
  from run_ops_ok [where p = p and h = ?h and xs = ops, OF n buffer.new_ok] obtain b where
      b: "run_ops p ?h ops = Inr (?h(p \<mapsto> b))" "buffer_ok b" "contents b = concat (map op_text ops)"
    by (auto simp: buffer.new_abs)
  let ?h' = "?h(p \<mapsto> b)"
  have "take (trimmed_length (data b) (buf_length b)) (data b) = trim_eol (contents b)"
    using trimmed_length_eol b(2) by (simp add: contents_def buffer_ok_def)
  then have t: "buffered_tostring ?h' [LUser p] = Inr [LStr (trim_eol (concat (map op_text ops)))]"
    using b(3) by (auto simp: buffered_tostring_def deref_def lua_touserdata_def arg_def Let_def)
  have "buffered_close ?h' [LUser p] = Inr (?h'(p := None), [])"
    by (simp add: buffered_close_def deref_def lua_touserdata_def arg_def Let_def)
  moreover have "run_op p (?h'(p := None)) (Write s) = Inl OutOfBounds"
    by (simp add: buffered_write_def deref_def lua_touserdata_def arg_defs)
  ultimately show ?thesis
    using b(1) t by (intro exI [of _ ?h'] conjI exI [of _ "?h'(p := None)"]) (auto simp: buffered_new_def)
qed

text \<open>A named instance of the statement above, for concrete writes.\<close>

theorem buffered_session_witness:
  "\<exists>h'. run_ops 7 (fst (buffered_new 7 Map.empty)) [Writeln ''a'', Write ''b''] = Inr h'
     \<and> buffered_tostring h' [LUser 7] = Inr [LStr (trim_eol (''a'' @ [CHR 0x0D, CHR 0x0A] @ ''b''))]"
  using buffered_session [of 7 Map.empty "[Writeln ''a'', Write ''b'']" "''''"] by fastforce

section \<open>Formatted output\<close>

text \<open>Formatted output of up to 2046 bytes is appended as it is. One more byte is replaced by a
  NUL, the next length reads a byte that was never written, and anything longer reads behind the
  text buffer: the code appends as many bytes as the output would have had.\<close>

theorem printf_lengths:
  assumes "buffer_ok b"
  shows "case premake_buffer_printf b f of
      Inr b' \<Rightarrow> buffer_ok b' \<and> length f \<le> 2047 \<and>
        contents b' = contents b @ (if length f = 2047 then butlast f @ [NUL] else f)
    | Inl e \<Rightarrow> e = (if length f = 2048 then Uninitialised else OutOfBounds) \<and> 2047 < length f"
proof -
  consider "length f \<le> 2046" | "length f = 2047" | "length f = 2048" | "2048 < length f" by linarith
  then show ?thesis
  proof cases
    case 1
    then show ?thesis using assms by (simp add: premake_buffer_printf_def TEXT_SIZE_def puts_ok)
  next
    case 2
    then show ?thesis using assms by (simp add: premake_buffer_printf_def TEXT_SIZE_def puts_ok butlast_conv_take)
  qed (simp_all add: premake_buffer_printf_def TEXT_SIZE_def)
qed

theorem printf_lengths_witness:
  "case premake_buffer_printf premake_buffer_init ''line'' of
     Inr b' \<Rightarrow> contents b' = ''line'' | Inl e \<Rightarrow> False"
  using printf_lengths [of premake_buffer_init "''line''"]
  by (auto simp: buffer.new_ok buffer.new_abs split: sum.splits)

end
