(* ===== verification/Sha1.thy ===== *)
theory Sha1
  imports Lua_API
begin

text \<open>
  \<open>src/host/string_sha1.c\<close>: SHA-1 as the host computes it, byte by byte into a block buffer that the
  compression function overwrites with the message schedule, and a reference that follows FIPS 180.
  The digest of the code is shown to be that of the reference; \<open>string.sha1\<close> prints it with the two
  digits of every byte exchanged.

  The block buffer is the memory of \<open>uint32_t buffer[16]\<close> on a little-endian machine, a list of 64
  bytes that is read and written both as bytes and as words.
\<close>

unbundle bit_operations_syntax

section \<open>The code\<close>

definition BLOCK_LENGTH :: nat where "BLOCK_LENGTH = 64"

type_synonym regs = "32 word list"

record sha1nfo =
  sha_buffer :: "8 word list"
  sha_state :: regs
  byteCount :: "32 word"
  bufferOffset :: "8 word"

definition le32 :: "8 word \<Rightarrow> 8 word \<Rightarrow> 8 word \<Rightarrow> 8 word \<Rightarrow> 32 word" where
  "le32 b0 b1 b2 b3 = ucast b0 OR push_bit 8 (ucast b1) OR push_bit 16 (ucast b2) OR push_bit 24 (ucast b3)"

definition byte_of :: "nat \<Rightarrow> 32 word \<Rightarrow> 8 word" where
  "byte_of k w = ucast (drop_bit (8 * k) w)"

definition read_word :: "8 word list \<Rightarrow> nat \<Rightarrow> 32 word" where
  "read_word m i = le32 (m ! (4 * i)) (m ! (4 * i + 1)) (m ! (4 * i + 2)) (m ! (4 * i + 3))"

definition write_word :: "8 word list \<Rightarrow> nat \<Rightarrow> 32 word \<Rightarrow> 8 word list" where
  "write_word m i w =
     m[4 * i := byte_of 0 w, 4 * i + 1 := byte_of 1 w, 4 * i + 2 := byte_of 2 w, 4 * i + 3 := byte_of 3 w]"

definition sha1_init :: "sha1nfo \<Rightarrow> sha1nfo" where
  "sha1_init s =
     s\<lparr>sha_state := [0x67452301, 0xefcdab89, 0x98badcfe, 0x10325476, 0xc3d2e1f0],
       byteCount := 0, bufferOffset := 0\<rparr>"

definition sha1_rol32 :: "32 word \<Rightarrow> nat \<Rightarrow> 32 word" where
  "sha1_rol32 number bits = push_bit bits number OR drop_bit (32 - bits) number"

definition round_t :: "nat \<Rightarrow> 32 word \<Rightarrow> 32 word \<Rightarrow> 32 word \<Rightarrow> 32 word" where
  "round_t i b c d =
     (if i < 20 then (d XOR (b AND (c XOR d))) + 0x5a827999
      else if i < 40 then (b XOR c XOR d) + 0x6ed9eba1
      else if i < 60 then ((b AND c) OR (d AND (b OR c))) + 0x8f1bbcdc
      else (b XOR c XOR d) + 0xca62c1d6)"

type_synonym five = "32 word \<times> 32 word \<times> 32 word \<times> 32 word \<times> 32 word"

definition sha1_round :: "nat \<Rightarrow> five \<times> 8 word list \<Rightarrow> five \<times> 8 word list" where
  "sha1_round i s =
     (case s of ((a, b, c, d, e), buf) \<Rightarrow>
        let buf1 = (if 16 \<le> i then
                      let t = read_word buf ((i + 13) AND 15) XOR read_word buf ((i + 8) AND 15) XOR
                              read_word buf ((i + 2) AND 15) XOR read_word buf (i AND 15) in
                      write_word buf (i AND 15) (sha1_rol32 t 1)
                    else buf);
            t = round_t i b c d + (sha1_rol32 a 5 + e + read_word buf1 (i AND 15)) in
        ((t, a, sha1_rol32 b 30, c, d), buf1))"

definition sha1_hashBlock :: "sha1nfo \<Rightarrow> sha1nfo" where
  "sha1_hashBlock s =
     (let st = sha_state s;
          ((a, b, c, d, e), buf) =
            foldl (\<lambda>x i. sha1_round i x) ((st ! 0, st ! 1, st ! 2, st ! 3, st ! 4), sha_buffer s) [0..<80] in
      s\<lparr>sha_buffer := buf,
        sha_state := [st ! 0 + a, st ! 1 + b, st ! 2 + c, st ! 3 + d, st ! 4 + e]\<rparr>)"

definition sha1_addUncounted :: "sha1nfo \<Rightarrow> 8 word \<Rightarrow> sha1nfo" where
  "sha1_addUncounted s x =
     (let s1 = s\<lparr>sha_buffer := (sha_buffer s)[unat (bufferOffset s) XOR 3 := x],
                 bufferOffset := bufferOffset s + 1\<rparr> in
      if bufferOffset s1 = of_nat BLOCK_LENGTH then (sha1_hashBlock s1)\<lparr>bufferOffset := 0\<rparr> else s1)"

definition sha1_writebyte :: "sha1nfo \<Rightarrow> 8 word \<Rightarrow> sha1nfo" where
  "sha1_writebyte s x = sha1_addUncounted (s\<lparr>byteCount := byteCount s + 1\<rparr>) x"

definition sha1_write :: "sha1nfo \<Rightarrow> 8 word list \<Rightarrow> sha1nfo" where
  "sha1_write s bytes = foldl sha1_writebyte s bytes"

lemma addUncounted_offset:
  "bufferOffset (sha1_addUncounted s x) = (if bufferOffset s + 1 = 64 then 0 else bufferOffset s + 1)"
  by (simp add: sha1_addUncounted_def BLOCK_LENGTH_def Let_def)

function pad_zeros :: "sha1nfo \<Rightarrow> sha1nfo" where
  "pad_zeros s = (if bufferOffset s \<noteq> 56 then pad_zeros (sha1_addUncounted s 0) else s)"
  by pat_completeness auto
termination
proof (relation "measure (\<lambda>s. unat (56 - bufferOffset s))", goal_cases)
  case (2 s)
  let ?o = "bufferOffset s"
  show ?case
  proof (cases "?o = 63")
    case True
    then show ?thesis by (simp add: addUncounted_offset)
  next
    case False
    have "?o + 1 \<noteq> 64"
    proof
      assume "?o + 1 = 64"
      then have "?o = 64 - 1" by (simp only: eq_diff_eq)
      with False show False by simp
    qed
    moreover have "unat (56 - (?o + 1)) < unat (56 - ?o)"
    proof -
      have "56 - ?o \<noteq> 0" using 2 by simp
      then have "unat (56 - ?o - 1) < unat (56 - ?o)" by (rule measure_unat)
      then show ?thesis by (simp only: diff_diff_add)
    qed
    ultimately show ?thesis by (simp add: addUncounted_offset)
  qed
qed simp

declare pad_zeros.simps [simp del]

definition sha1_pad :: "sha1nfo \<Rightarrow> sha1nfo" where
  "sha1_pad s =
     (let n = byteCount s in
      foldl sha1_addUncounted (pad_zeros (sha1_addUncounted s 0x80))
        [0, 0, 0, ucast (drop_bit 29 n), ucast (drop_bit 21 n), ucast (drop_bit 13 n), ucast (drop_bit 5 n),
         ucast (push_bit 3 n)])"

definition swap_bytes :: "32 word \<Rightarrow> 32 word" where
  "swap_bytes w =
     (push_bit 24 w AND 0xff000000) OR (push_bit 8 w AND 0x00ff0000) OR
     (drop_bit 8 w AND 0x0000ff00) OR (drop_bit 24 w AND 0x000000ff)"

definition sha1_result :: "sha1nfo \<Rightarrow> 8 word list" where
  \<comment> \<open>the memory of the state, whose words have been swapped\<close>
  "sha1_result s =
     concat (map (\<lambda>w. map (\<lambda>k. byte_of k (swap_bytes w)) [0, 1, 2, 3]) (sha_state (sha1_pad s)))"

definition int2hex :: "nat \<Rightarrow> char" where
  "int2hex d = ''0123456789ABCDEF'' ! d"

definition byte_value :: "char \<Rightarrow> 8 word" where
  "byte_value c = of_nat (code c)"

text \<open>\<open>stack\<close> is the uninitialised \<open>sha1nfo\<close> on the stack.\<close>

definition string_sha1 :: "sha1nfo \<Rightarrow> lval list \<Rightarrow> lua_ret" where
  "string_sha1 stack args =
     bind_f (luaL_checklstring args 1) (\<lambda>str.
       let result = sha1_result (sha1_write (sha1_init stack) (map byte_value str)) in
       Inr [LStr (concat (map (\<lambda>r. [int2hex (unat (r AND 0x0f)), int2hex (unat (drop_bit 4 r))]) result))])"

section \<open>The reference\<close>

text \<open>FIPS 180, section 6.1.\<close>

definition be32 :: "8 word \<Rightarrow> 8 word \<Rightarrow> 8 word \<Rightarrow> 8 word \<Rightarrow> 32 word" where
  "be32 b0 b1 b2 b3 = le32 b3 b2 b1 b0"

definition block_word :: "8 word list \<Rightarrow> nat \<Rightarrow> 32 word" where
  "block_word m i = be32 (m ! (4 * i)) (m ! (4 * i + 1)) (m ! (4 * i + 2)) (m ! (4 * i + 3))"

definition rotl :: "nat \<Rightarrow> 32 word \<Rightarrow> 32 word" where
  "rotl n w = push_bit n w OR drop_bit (32 - n) w"

fun schedule :: "8 word list \<Rightarrow> nat \<Rightarrow> 32 word" where
  "schedule m t =
     (if t < 16 then block_word m t
      else rotl 1 (schedule m (t - 3) XOR schedule m (t - 8) XOR schedule m (t - 14) XOR schedule m (t - 16)))"

declare schedule.simps [simp del]

definition f_fips :: "nat \<Rightarrow> 32 word \<Rightarrow> 32 word \<Rightarrow> 32 word \<Rightarrow> 32 word" where
  "f_fips t x y z =
     (if t \<le> 19 then (x AND y) XOR (NOT x AND z)
      else if t \<le> 39 then x XOR y XOR z
      else if t \<le> 59 then (x AND y) XOR (x AND z) XOR (y AND z)
      else x XOR y XOR z)"

definition k_fips :: "nat \<Rightarrow> 32 word" where
  "k_fips t = (if t \<le> 19 then 0x5a827999 else if t \<le> 39 then 0x6ed9eba1
               else if t \<le> 59 then 0x8f1bbcdc else 0xca62c1d6)"

definition step_fips :: "8 word list \<Rightarrow> nat \<Rightarrow> five \<Rightarrow> five" where
  "step_fips m t r =
     (case r of (a, b, c, d, e) \<Rightarrow>
        (rotl 5 a + f_fips t b c d + e + k_fips t + schedule m t, a, rotl 30 b, c, d))"

definition compress :: "regs \<Rightarrow> 8 word list \<Rightarrow> regs" where
  "compress h m =
     (case foldl (\<lambda>r t. step_fips m t r) (h ! 0, h ! 1, h ! 2, h ! 3, h ! 4) [0..<80] of
        (a, b, c, d, e) \<Rightarrow> [h ! 0 + a, h ! 1 + b, h ! 2 + c, h ! 3 + d, h ! 4 + e])"

definition blocks :: "8 word list \<Rightarrow> 8 word list list" where
  "blocks bs = map (\<lambda>i. take 64 (drop (64 * i) bs)) [0..<length bs div 64]"

definition initial_hash :: regs where
  "initial_hash = [0x67452301, 0xefcdab89, 0x98badcfe, 0x10325476, 0xc3d2e1f0]"

definition padding :: "nat \<Rightarrow> 8 word list" where
  \<comment> \<open>the bit 1, zeros up to 64 bits before the end of a block, and the length in bits\<close>
  "padding n =
     0x80 # replicate ((119 - n mod 64) mod 64) 0 @
     map (\<lambda>i. ucast (drop_bit (56 - 8 * i) (of_nat (8 * n) :: 64 word))) [0..<8]"

definition sha1_fips :: "8 word list \<Rightarrow> 8 word list" where
  "sha1_fips m =
     concat (map (\<lambda>w. map (\<lambda>k. byte_of (3 - k) w) [0, 1, 2, 3])
       (foldl compress initial_hash (blocks (m @ padding (length m)))))"

section \<open>Bytes and words\<close>

lemma bit_le32:
  "bit (le32 b0 b1 b2 b3) n \<longleftrightarrow>
     n < 8 \<and> bit b0 n \<or> 8 \<le> n \<and> n < 16 \<and> bit b1 (n - 8) \<or> 16 \<le> n \<and> n < 24 \<and> bit b2 (n - 16)
     \<or> 24 \<le> n \<and> n < 32 \<and> bit b3 (n - 24)"
  by (auto simp: le32_def bit_simps dest: bit_imp_le_length)

lemma le32_bytes: "le32 (byte_of 0 w) (byte_of 1 w) (byte_of 2 w) (byte_of 3 w) = w"
proof (rule bit_word_eqI)
  fix n assume "n < LENGTH(32)"
  then consider "n < 8" | "8 \<le> n" "n < 16" | "16 \<le> n" "n < 24" | "24 \<le> n" "n < 32" by fastforce
  then show "bit (le32 (byte_of 0 w) (byte_of 1 w) (byte_of 2 w) (byte_of 3 w)) n \<longleftrightarrow> bit w n"
    by cases (simp_all add: bit_le32 byte_of_def bit_simps less_diff_conv2)
qed

lemma length_write_word [simp]: "length (write_word m i w) = length m"
  by (simp add: write_word_def)

lemma read_write_same: "4 * i + 3 < length m \<Longrightarrow> read_word (write_word m i w) i = w"
  using le32_bytes [of w] by (simp add: read_word_def write_word_def nth_list_update)

lemma read_write_other: "i \<noteq> j \<Longrightarrow> read_word (write_word m i w) j = read_word m j"
  by (simp add: read_word_def write_word_def nth_list_update)

section \<open>One block\<close>

lemma rol_rotl: "sha1_rol32 w n = rotl n w"
  by (simp add: sha1_rol32_def rotl_def)

lemma round_fips: "round_t t b c d = f_fips t b c d + k_fips t"
proof -
  have ch: "d XOR (b AND (c XOR d)) = (b AND c) XOR (NOT b AND d)"
    by (rule bit_word_eqI) (auto simp: bit_simps)
  have maj: "(b AND c) OR (d AND (b OR c)) = (b AND c) XOR (b AND d) XOR (c AND d)"
    by (rule bit_word_eqI) (auto simp: bit_simps)
  consider "t \<le> 19" | "\<not> t \<le> 19" "t \<le> 39" | "\<not> t \<le> 39" "t \<le> 59" | "\<not> t \<le> 59" by linarith
  then show ?thesis
    by cases (simp_all add: round_t_def f_fips_def k_fips_def ch maj)
qed

lemma mod16: "(i :: nat) AND 15 = i mod 16"
  using take_bit_eq_mask [of 4 i] by (simp add: take_bit_eq_mod mask_eq_exp_minus_1)

text \<open>The buffer as the schedule of the block \<open>m\<close>, before round \<open>t\<close>.\<close>

definition holds_schedule :: "8 word list \<Rightarrow> 8 word list \<Rightarrow> nat \<Rightarrow> bool" where
  "holds_schedule m buf t \<longleftrightarrow> length buf = 64 \<and>
     (if t < 16 then (\<forall>j < 16. read_word buf j = block_word m j)
      else (\<forall>j. t - 16 \<le> j \<and> j < t \<longrightarrow> read_word buf (j mod 16) = schedule m j))"

lemma holds_schedule_old:
  assumes "holds_schedule m buf t" and "16 \<le> t" and "1 \<le> k" and "k \<le> 16"
  shows "read_word buf ((t - k) mod 16) = schedule m (t - k)"
  using assms by (simp add: holds_schedule_def)

lemma round_step:
  assumes "holds_schedule m buf t"
  shows "\<exists>buf'. sha1_round t (r, buf) = (step_fips m t r, buf') \<and> holds_schedule m buf' (Suc t)"
proof -
  obtain a b c d e where r: "r = (a, b, c, d, e)" by (cases r) auto
  define buf' where "buf' = (if 16 \<le> t then
      let x = read_word buf ((t + 13) AND 15) XOR read_word buf ((t + 8) AND 15) XOR
              read_word buf ((t + 2) AND 15) XOR read_word buf (t AND 15) in
      write_word buf (t AND 15) (sha1_rol32 x 1) else buf)"
  have W: "read_word buf' (t AND 15) = schedule m t" and H: "holds_schedule m buf' (Suc t)"
  proof -
    have len: "length buf = 64" using assms by (simp add: holds_schedule_def)
    have sched: "read_word buf' (t mod 16) = schedule m t"
    proof (cases "16 \<le> t")
      case True
      have idx: "(t + 13) mod 16 = (t - 3) mod 16" "(t + 8) mod 16 = (t - 8) mod 16"
          "(t + 2) mod 16 = (t - 14) mod 16" "t mod 16 = (t - 16) mod 16"
      proof -
        have s: "t + 13 = (t - 3) + 16" "t + 8 = (t - 8) + 16" "t + 2 = (t - 14) + 16" "t = (t - 16) + 16"
          using True by simp_all
        show "(t + 13) mod 16 = (t - 3) mod 16" by (subst s(1)) (rule mod_add_self2)
        show "(t + 8) mod 16 = (t - 8) mod 16" by (subst s(2)) (rule mod_add_self2)
        show "(t + 2) mod 16 = (t - 14) mod 16" by (subst s(3)) (rule mod_add_self2)
        show "t mod 16 = (t - 16) mod 16" by (subst (1) s(4)) (rule mod_add_self2)
      qed
      have "t mod 16 < 16" by simp
      then have "4 * (t mod 16) + 3 < length buf" unfolding len by linarith
      then have "read_word buf' (t mod 16) =
          rotl 1 (schedule m (t - 3) XOR schedule m (t - 8) XOR schedule m (t - 14) XOR schedule m (t - 16))"
        using True holds_schedule_old [OF assms True, of 3] holds_schedule_old [OF assms True, of 8]
          holds_schedule_old [OF assms True, of 14] holds_schedule_old [OF assms True, of 16]
        by (simp add: buf'_def mod16 read_write_same rol_rotl Let_def idx(1-3) del: add_2_eq_Suc')
          (simp add: idx(4) [symmetric])
      then show ?thesis using True by (simp add: schedule.simps [of m t])
    next
      case False
      with assms show ?thesis by (simp add: buf'_def holds_schedule_def schedule.simps [of m t])
    qed
    then show "read_word buf' (t AND 15) = schedule m t" by (simp add: mod16)
    show "holds_schedule m buf' (Suc t)"
    proof (cases "16 \<le> t")
      case True
      have "read_word buf' (j mod 16) = schedule m j" if "Suc t - 16 \<le> j" "j < t" for j
      proof -
        have "j mod 16 \<noteq> t mod 16"
        proof
          assume "j mod 16 = t mod 16"
          then have "16 dvd t - j" using that(2) by (metis less_imp_le mod_eq_dvd_iff_nat)
          with that show False by (auto dest: dvd_imp_le)
        qed
        then show ?thesis
          using assms that True by (simp add: buf'_def mod16 read_write_other Let_def holds_schedule_def)
      qed
      with sched len True show ?thesis
        by (auto simp: holds_schedule_def buf'_def Let_def less_Suc_eq)
    next
      case False
      show ?thesis
      proof (cases "t = 15")
        case True
        have "read_word buf (j mod 16) = schedule m j" if "j < 16" for j
          using assms that True by (simp add: holds_schedule_def schedule.simps [of m j])
        with True len show ?thesis by (simp add: holds_schedule_def buf'_def)
      next
        case t15: False
        with False assms show ?thesis by (simp add: holds_schedule_def buf'_def)
      qed
    qed
  qed
  have "sha1_round t (r, buf) =
      ((round_t t b c d + (sha1_rol32 a 5 + e + read_word buf' (t AND 15)), a, sha1_rol32 b 30, c, d), buf')"
    by (simp only: sha1_round_def r prod.case buf'_def Let_def)
  also have "\<dots> = (step_fips m t r, buf')"
    unfolding W by (simp add: step_fips_def r rol_rotl round_fips algebra_simps)
  finally have "sha1_round t (r, buf) = (step_fips m t r, buf')" .
  with H show ?thesis by blast
qed

lemma rounds:
  assumes "holds_schedule m buf 0"
  shows "\<exists>buf'. foldl (\<lambda>x i. sha1_round i x) (r, buf) [0..<n] = (foldl (\<lambda>r t. step_fips m t r) r [0..<n], buf')
    \<and> holds_schedule m buf' n"
proof (induction n)
  case 0
  with assms show ?case by simp
next
  case (Suc n)
  then obtain buf' where b:
      "foldl (\<lambda>x i. sha1_round i x) (r, buf) [0..<n] = (foldl (\<lambda>r t. step_fips m t r) r [0..<n], buf')"
      "holds_schedule m buf' n" by blast
  from round_step [OF b(2)] obtain buf'' where
      "sha1_round n (foldl (\<lambda>r t. step_fips m t r) r [0..<n], buf') =
        (step_fips m n (foldl (\<lambda>r t. step_fips m t r) r [0..<n]), buf'')" "holds_schedule m buf'' (Suc n)"
    by blast
  with b show ?case by simp
qed

text \<open>The code stores byte \<open>k\<close> of a block at \<open>k XOR 3\<close>, which makes the words big-endian.\<close>

definition stored :: "8 word list \<Rightarrow> 8 word list \<Rightarrow> bool" where
  "stored buf m \<longleftrightarrow> length buf = 64 \<and> (\<forall>k < length m. buf ! (k XOR 3) = m ! k)"

lemma xor3: "i < 16 \<Longrightarrow> (4 * i) XOR 3 = 4 * i + 3 \<and> (4 * i + 1) XOR 3 = 4 * i + 2
    \<and> (4 * i + 2) XOR 3 = 4 * i + 1 \<and> (4 * i + 3) XOR 3 = 4 * i" for i :: nat
proof -
  have "\<forall>i \<in> set [0..<16]. (4 * i) XOR 3 = 4 * i + 3 \<and> (4 * i + 1) XOR 3 = 4 * i + 2
    \<and> (4 * i + 2) XOR 3 = 4 * i + 1 \<and> (4 * i + 3) XOR 3 = 4 * (i :: nat)" by code_simp
  then show "i < 16 \<Longrightarrow> ?thesis" by simp
qed

lemma xor3_bound: "k < 64 \<Longrightarrow> k XOR 3 < 64" and xor3_inj: "j < 64 \<Longrightarrow> k < 64 \<Longrightarrow> j XOR 3 = k XOR 3 \<Longrightarrow> j = k"
  for j k :: nat
proof -
  have "\<forall>k \<in> set [0..<64]. k XOR 3 < (64 :: nat) \<and> (k XOR 3) XOR 3 = k" by code_simp
  then have x: "k < 64 \<Longrightarrow> k XOR 3 < 64 \<and> (k XOR 3) XOR 3 = k" for k :: nat by simp
  then show "k < 64 \<Longrightarrow> k XOR 3 < 64" by blast
  show "j < 64 \<Longrightarrow> k < 64 \<Longrightarrow> j XOR 3 = k XOR 3 \<Longrightarrow> j = k" using x by metis
qed

lemma stored_schedule:
  assumes "stored buf m" and "length m = 64"
  shows "holds_schedule m buf 0"
proof -
  have "read_word buf j = block_word m j" if "j < 16" for j
  proof -
    have s: "\<And>k. k < 64 \<Longrightarrow> buf ! (k XOR 3) = m ! k" using assms by (simp add: stored_def)
    have "4 * j < 64" "4 * j + 1 < 64" "4 * j + 2 < 64" "4 * j + 3 < 64" using that by simp_all
    from this [THEN s] xor3 [OF that] show ?thesis
      by (simp add: read_word_def block_word_def be32_def)
  qed
  with assms(1) show ?thesis by (simp add: holds_schedule_def stored_def)
qed

lemma hashBlock_compress:
  assumes "stored (sha_buffer s) m" and "length m = 64"
  shows "sha_state (sha1_hashBlock s) = compress (sha_state s) m
    \<and> length (sha_buffer (sha1_hashBlock s)) = 64
    \<and> byteCount (sha1_hashBlock s) = byteCount s"
proof -
  let ?st = "sha_state s"
  from rounds [OF stored_schedule [OF assms], of "(?st ! 0, ?st ! 1, ?st ! 2, ?st ! 3, ?st ! 4)" 80]
  obtain buf' where b: "foldl (\<lambda>x i. sha1_round i x) ((?st ! 0, ?st ! 1, ?st ! 2, ?st ! 3, ?st ! 4), sha_buffer s) [0..<80] =
      (foldl (\<lambda>r t. step_fips m t r) (?st ! 0, ?st ! 1, ?st ! 2, ?st ! 3, ?st ! 4) [0..<80], buf')"
      "holds_schedule m buf' 80" by blast
  obtain a b c d e where r:
      "foldl (\<lambda>r t. step_fips m t r) (?st ! 0, ?st ! 1, ?st ! 2, ?st ! 3, ?st ! 4) [0..<80] = (a, b, c, d, e)"
    by (metis surj_pair)
  have "length buf' = 64" using b(2) by (simp add: holds_schedule_def)
  then show ?thesis
    unfolding sha1_hashBlock_def compress_def Let_def b(1) r by simp
qed

section \<open>The stream of bytes\<close>

definition absorbed :: "sha1nfo \<Rightarrow> 8 word list \<Rightarrow> bool" where
  "absorbed s bs \<longleftrightarrow>
     sha_state s = foldl compress initial_hash (blocks bs) \<and> unat (bufferOffset s) = length bs mod 64 \<and>
     stored (sha_buffer s) (drop (64 * (length bs div 64)) bs)"

lemma stored_update:
  assumes "stored buf m" and "length m < 64"
  shows "stored (buf[length m XOR 3 := x]) (m @ [x])"
  unfolding stored_def
proof (intro conjI allI impI)
  show "length (buf[length m XOR 3 := x]) = 64" using assms(1) by (simp add: stored_def)
  fix k assume k: "k < length (m @ [x])"
  show "buf[length m XOR 3 := x] ! (k XOR 3) = (m @ [x]) ! k"
  proof (cases "k = length m")
    case True
    with assms xor3_bound [OF assms(2)] show ?thesis by (simp add: stored_def)
  next
    case False
    with k have lt: "k < length m" by simp
    then have "k XOR 3 \<noteq> length m XOR 3" using xor3_inj [of k "length m"] assms(2) False by linarith
    with lt assms(1) show ?thesis by (simp add: stored_def nth_append)
  qed
qed

lemma blocks_partial: "Suc (length bs) mod 64 \<noteq> 0 \<Longrightarrow> blocks (bs @ [x]) = blocks bs"
proof -
  assume ne: "Suc (length bs) mod 64 \<noteq> 0"
  then have d: "Suc (length bs) div 64 = length bs div 64" by (metis div_Suc)
  have "take 64 (drop (64 * i) (bs @ [x])) = take 64 (drop (64 * i) bs)" if "i < length bs div 64" for i
  proof -
    from that have "64 * i + 64 \<le> length bs" by (metis Suc_leI div_times_less_eq_dividend less_eq_Suc_le
      mult.commute mult_Suc_right mult_le_mono2 add.commute order_trans)
    then show ?thesis by simp
  qed
  then show ?thesis by (simp add: blocks_def d)
qed

lemma blocks_full:
  assumes "Suc (length bs) mod 64 = 0"
  shows "blocks (bs @ [x]) = blocks bs @ [drop (64 * (length bs div 64)) bs @ [x]]"
    and "length bs mod 64 = 63" and "Suc (length bs) div 64 = Suc (length bs div 64)"
proof -
  show m: "length bs mod 64 = 63" using assms by presburger
  show d: "Suc (length bs) div 64 = Suc (length bs div 64)" using assms by (simp add: div_Suc)
  have l: "length bs = 64 * (length bs div 64) + 63" using m by (metis mult_div_mod_eq)
  have "take 64 (drop (64 * i) (bs @ [x])) = take 64 (drop (64 * i) bs)" if "i < length bs div 64" for i
  proof -
    from that l have "64 * i + 64 \<le> length bs" by linarith
    then show ?thesis by simp
  qed
  moreover have "take 64 (drop (64 * (length bs div 64)) (bs @ [x])) = drop (64 * (length bs div 64)) bs @ [x]"
    using l by simp
  ultimately show "blocks (bs @ [x]) = blocks bs @ [drop (64 * (length bs div 64)) bs @ [x]]"
    by (simp add: blocks_def d)
qed

lemma absorbed_add:
  assumes "absorbed s bs"
  shows "absorbed (sha1_addUncounted s x) (bs @ [x]) \<and> byteCount (sha1_addUncounted s x) = byteCount s"
proof -
  let ?m = "drop (64 * (length bs div 64)) bs"
  let ?s = "s\<lparr>sha_buffer := (sha_buffer s)[unat (bufferOffset s) XOR 3 := x], bufferOffset := bufferOffset s + 1\<rparr>"
  have st: "sha_state s = foldl compress initial_hash (blocks bs)" and off: "unat (bufferOffset s) = length bs mod 64"
    and sto: "stored (sha_buffer s) ?m" using assms by (simp_all add: absorbed_def)
  have lm: "length ?m = length bs mod 64" by (simp add: minus_mult_div_eq_mod)
  have "length ?m < 64" unfolding lm by simp
  from stored_update [where x = x, OF sto this] have "stored ((sha_buffer s)[unat (bufferOffset s) XOR 3 := x]) (?m @ [x])"
    unfolding lm off .
  then have sto': "stored (sha_buffer ?s) (?m @ [x])" by simp
  have off': "unat (bufferOffset s + 1) = Suc (length bs mod 64)"
    using off by (simp add: unat_word_ariths)
  have eq: "bufferOffset s + 1 = 64 \<longleftrightarrow> Suc (length bs) mod 64 = 0"
  proof -
    have "bufferOffset s + 1 = 64 \<longleftrightarrow> unat (bufferOffset s + 1) = unat (64 :: 8 word)" by (simp only: word_unat_eq_iff)
    also have "\<dots> \<longleftrightarrow> Suc (length bs) mod 64 = 0" unfolding off' by (simp add: mod_Suc)
    finally show ?thesis .
  qed
  show ?thesis
  proof (cases "Suc (length bs) mod 64 = 0")
    case True
    note f = blocks_full [OF True]
    have "length (?m @ [x]) = 64" using f(2) lm by simp
    from hashBlock_compress [OF sto' this] show ?thesis
      using True eq f st by (simp add: sha1_addUncounted_def BLOCK_LENGTH_def Let_def absorbed_def stored_def)
  next
    case False
    have "Suc (length bs) div 64 = length bs div 64" "Suc (length bs) mod 64 = Suc (length bs mod 64)"
      using False by (metis div_Suc, metis mod_Suc)
    then show ?thesis
      using False eq st sto' off' blocks_partial [OF False]
      by (simp add: sha1_addUncounted_def BLOCK_LENGTH_def Let_def absorbed_def)
  qed
qed

lemma absorbed_adds:
  "absorbed s bs \<Longrightarrow> absorbed (foldl sha1_addUncounted s xs) (bs @ xs)
     \<and> byteCount (foldl sha1_addUncounted s xs) = byteCount s"
proof (induction xs arbitrary: s bs)
  case (Cons x xs)
  from Cons.IH [of "sha1_addUncounted s x" "bs @ [x]"] absorbed_add [OF Cons.prems] show ?case by simp
qed simp

lemma absorbed_count: "absorbed (s\<lparr>byteCount := n\<rparr>) bs \<longleftrightarrow> absorbed s bs"
  by (simp add: absorbed_def)

lemma absorbed_write:
  "absorbed s bs \<Longrightarrow> absorbed (sha1_write s xs) (bs @ xs) \<and> byteCount (sha1_write s xs) = byteCount s + of_nat (length xs)"
proof (induction xs arbitrary: s bs)
  case (Cons x xs)
  let ?s = "s\<lparr>byteCount := byteCount s + 1\<rparr>"
  have "absorbed ?s bs" using Cons.prems by (simp add: absorbed_count)
  from absorbed_add [OF this] Cons.IH [of "sha1_writebyte s x" "bs @ [x]"] show ?case
    by (simp add: sha1_write_def sha1_writebyte_def)
qed (simp add: sha1_write_def)

lemma absorbed_init: "length (sha_buffer s) = 64 \<Longrightarrow> absorbed (sha1_init s) []"
  by (simp add: absorbed_def sha1_init_def initial_hash_def blocks_def stored_def)

lemma pad_count: "r < 64 \<Longrightarrow> (120 - r) mod 64 = (if r \<le> 56 then 56 - r else 120 - r)" for r :: nat
proof (cases "r \<le> 56")
  case True
  then have "120 - r = (56 - r) + 64" by simp
  then have "(120 - r) mod 64 = (56 - r) mod 64" by (simp only: mod_add_self2)
  with True show ?thesis by simp
qed simp

lemma absorbed_zeros:
  "absorbed s bs \<Longrightarrow> absorbed (pad_zeros s) (bs @ replicate ((120 - length bs mod 64) mod 64) 0)
     \<and> byteCount (pad_zeros s) = byteCount s"
proof (induction s arbitrary: bs rule: pad_zeros.induct)
  case (1 s)
  have off: "unat (bufferOffset s) = length bs mod 64" using 1(2) by (simp add: absorbed_def)
  have eq: "bufferOffset s = 56 \<longleftrightarrow> length bs mod 64 = 56"
    using off by (simp add: word_unat_eq_iff)
  show ?case
  proof (cases "length bs mod 64 = 56")
    case True
    with eq have "pad_zeros s = s" by (simp add: pad_zeros.simps [of s])
    with True 1(2) show ?thesis by simp
  next
    case False
    with eq have p: "pad_zeros s = pad_zeros (sha1_addUncounted s 0)" by (simp add: pad_zeros.simps [of s])
    have "(120 - length bs mod 64) mod 64 = Suc ((120 - Suc (length bs) mod 64) mod 64)"
    proof (cases "length bs mod 64 = 63")
      case True
      then have "Suc (length bs) mod 64 = 0" by (simp add: mod_Suc)
      with True show ?thesis by simp
    next
      case n63: False
      have lt: "length bs mod 64 < 64" by simp
      with n63 have "Suc (length bs) mod 64 = Suc (length bs mod 64)" by (simp add: mod_Suc)
      moreover have "(120 - r) mod 64 = Suc ((120 - Suc r) mod 64)" if "r < 63" "r \<noteq> 56" for r :: nat
        using that pad_count [of r] pad_count [of "Suc r"] by (cases "r \<le> 55") simp_all
      ultimately show ?thesis using False n63 lt by simp
    qed
    moreover from False eq have "bufferOffset s \<noteq> 56" by simp
    ultimately show ?thesis
      using "1.IH" [of "bs @ [0]"] absorbed_add [OF 1(2), of 0] p by simp
  qed
qed

lemma unat_word_eqI: "unat v = unat w \<Longrightarrow> v = w"
  by (simp add: word_unat_eq_iff)

lemma length_bytes:
  assumes "n < 2 ^ 32"
  shows "map (\<lambda>i. ucast (drop_bit (56 - 8 * i) (of_nat (8 * n) :: 64 word)) :: 8 word) [0..<8] =
    (let c = of_nat n :: 32 word in
     [0, 0, 0, ucast (drop_bit 29 c), ucast (drop_bit 21 c), ucast (drop_bit 13 c), ucast (drop_bit 5 c),
      ucast (push_bit 3 c)])"
proof -
  let ?w = "of_nat (8 * n) :: 64 word" and ?c = "of_nat n :: 32 word"
  let ?h = "\<lambda>k. ucast (drop_bit k ?w) :: 8 word"
  have w: "unat ?w = 8 * n" using assms by (simp only: unsigned_of_nat take_bit_eq_mod) simp
  have c: "unat ?c = n" using assms by (simp only: unsigned_of_nat take_bit_eq_mod) simp
  have uw: "unat (?h k) = (8 * n) div 2 ^ k mod 256" for k
    using assms by (simp only: unsigned_ucast_eq unsigned_drop_bit_eq w)
      (simp add: drop_bit_eq_div take_bit_eq_mod)
  have uc: "unat (ucast (drop_bit k ?c) :: 8 word) = n div 2 ^ k mod 256" for k
    using assms by (simp only: unsigned_ucast_eq unsigned_drop_bit_eq c)
      (simp add: drop_bit_eq_div take_bit_eq_mod)
  have low: "?h (k + 3) = ucast (drop_bit k ?c)" for k
  proof (rule unat_word_eqI)
    have "(8 * n) div 2 ^ (k + 3) = n div 2 ^ k"
      using div_mult_mult1 [of 8 n "2 ^ k"] by (simp add: power_add mult.commute)
    then show "unat (?h (k + 3)) = unat (ucast (drop_bit k ?c) :: 8 word)" unfolding uw uc by simp
  qed
  have high: "?h k = 0" if "40 \<le> k" for k
  proof -
    have "(8 * n) < 2 ^ k"
    proof -
      have "8 * n < 2 ^ 35" using assms by simp
      also have "(2 :: nat) ^ 35 \<le> 2 ^ k" using that by (intro power_increasing) simp_all
      finally show ?thesis .
    qed
    then have "unat (?h k) = unat (0 :: 8 word)" unfolding uw by simp
    then show ?thesis by (rule unat_word_eqI)
  qed
  have last: "?h 0 = ucast (push_bit 3 ?c)"
  proof -
    have "push_bit 3 ?c = of_nat (8 * n)" by (simp add: push_bit_eq_mult)
    then have "unat (ucast (push_bit 3 ?c) :: 8 word) = (8 * n) mod 256"
      by (simp only: unsigned_ucast_eq unsigned_of_nat take_bit_take_bit) (simp add: take_bit_eq_mod)
    moreover have "unat (?h 0) = (8 * n) mod 256" unfolding uw by simp
    ultimately show ?thesis by (intro unat_word_eqI) simp
  qed
  have "[0..<8] = [0, 1, 2, 3, 4, 5, 6, 7 :: nat]" by (simp add: upt_rec)
  then show ?thesis
    using high [of 56] high [of 48] high [of 40] low [of 29] low [of 21] low [of 13] low [of 5] last
    by (simp add: Let_def)
qed

lemma sha1_pad_padding:
  assumes "absorbed s bs" and "byteCount s = of_nat (length bs)" and "length bs < 2 ^ 32"
  shows "absorbed (sha1_pad s) (bs @ padding (length bs))"
proof -
  let ?s1 = "sha1_addUncounted s 0x80"
  have a1: "absorbed ?s1 (bs @ [0x80])" "byteCount ?s1 = byteCount s" using absorbed_add [OF assms(1)] by simp_all
  let ?z = "replicate ((120 - length (bs @ [0x80 :: 8 word]) mod 64) mod 64) (0 :: 8 word)"
  have a2: "absorbed (pad_zeros ?s1) ((bs @ [0x80]) @ ?z)" using absorbed_zeros [OF a1(1)] by simp
  have z: "(120 - length (bs @ [0x80 :: 8 word]) mod 64) mod 64 = (119 - length bs mod 64) mod 64"
  proof (cases "length bs mod 64 = 63")
    case True
    then have "Suc (length bs) mod 64 = 0" by (simp add: mod_Suc)
    with True show ?thesis by simp
  next
    case False
    then have "Suc (length bs) mod 64 = Suc (length bs mod 64)" by (simp add: mod_Suc)
    then show ?thesis by simp
  qed
  from absorbed_adds [OF a2, of "map (\<lambda>i. ucast (drop_bit (56 - 8 * i) (of_nat (8 * length bs) :: 64 word))) [0..<8]"]
  show ?thesis
    unfolding sha1_pad_def Let_def padding_def z length_bytes [OF assms(3)] assms(2) by simp
qed

lemma swap_bytes_of:
  "byte_of 0 (swap_bytes w) = byte_of 3 w" "byte_of 1 (swap_bytes w) = byte_of 2 w"
  "byte_of 2 (swap_bytes w) = byte_of 1 w" "byte_of 3 (swap_bytes w) = byte_of 0 w"
proof -
  have eq: "u = v" if "\<forall>n \<in> set [0..<8]. bit u n \<longleftrightarrow> bit v n" for u v :: "8 word"
    by (rule bit_word_eqI) (use that in simp)
  have l: "[0..<8] = [0, 1, 2, 3, 4, 5, 6, 7 :: nat]" by (simp add: upt_rec)
  show "byte_of 0 (swap_bytes w) = byte_of 3 w" "byte_of 1 (swap_bytes w) = byte_of 2 w"
    "byte_of 2 (swap_bytes w) = byte_of 1 w" "byte_of 3 (swap_bytes w) = byte_of 0 w"
    by (rule eq, simp add: l byte_of_def swap_bytes_def bit_simps)+
qed

section \<open>The digest\<close>

lemma sha1_result_fips:
  assumes "length (sha_buffer stack) = 64" and "length bs < 2 ^ 32"
  shows "sha1_result (sha1_write (sha1_init stack) bs) = sha1_fips bs"
proof -
  let ?s = "sha1_write (sha1_init stack) bs"
  from absorbed_write [OF absorbed_init [OF assms(1)], of bs]
  have "absorbed ?s bs" "byteCount ?s = of_nat (length bs)" by (simp_all add: sha1_init_def)
  from sha1_pad_padding [OF this assms(2)]
  have "sha_state (sha1_pad ?s) = foldl compress initial_hash (blocks (bs @ padding (length bs)))"
    by (simp add: absorbed_def)
  then show ?thesis by (simp add: sha1_result_def sha1_fips_def swap_bytes_of [simplified])
qed

definition hex_swapped :: "8 word \<Rightarrow> string" where
  \<comment> \<open>the low digit in front of the high one\<close>
  "hex_swapped b = [int2hex (unat b mod 16), int2hex (unat b div 16)]"

text \<open>C4: \<open>string.sha1\<close> computes the SHA-1 digest of FIPS 180 of the bytes of a string (of less than
  4 GiB), whatever the stack held before, with any byte values and also across blocks; but it prints
  every byte with its two hexadecimal digits exchanged.\<close>

theorem string_sha1_fips:
  assumes "length (sha_buffer stack) = 64" and "length s < 2 ^ 32"
  shows "string_sha1 stack [LStr s] =
    Inr [LStr (concat (map hex_swapped (sha1_fips (map byte_value s))))]"
proof -
  have lo: "unat (b AND 0x0f :: 8 word) = unat b mod 16" for b :: "8 word"
  proof -
    have "b AND 0x0f = take_bit 4 b" by (simp add: take_bit_eq_mask mask_eq_exp_minus_1)
    then show ?thesis by (simp only: unsigned_take_bit_eq) (simp add: take_bit_eq_mod)
  qed
  have hi: "unat (drop_bit 4 b :: 8 word) = unat b div 16" for b :: "8 word"
  proof -
    have "unat b < 2 ^ 8" using unsigned_less [of b] by simp
    then show ?thesis by (simp only: unsigned_drop_bit_eq) (simp add: drop_bit_eq_div take_bit_eq_mod)
  qed
  have "length (map byte_value s) < 2 ^ 32" using assms(2) by simp
  from sha1_result_fips [OF assms(1) this] show ?thesis
    by (simp add: string_sha1_def arg_defs hex_swapped_def [abs_def] lo hi Let_def)
qed

definition clean_stack :: sha1nfo where
  "clean_stack = \<lparr>sha_buffer = replicate 64 0, sha_state = replicate 5 0, byteCount = 0, bufferOffset = 0\<rparr>"

theorem string_sha1_fips_witness:
  "string_sha1 clean_stack [LStr ''abc''] = Inr [LStr (concat (map hex_swapped (sha1_fips [97, 98, 99])))]"
proof -
  have "map byte_value ''abc'' = [97, 98, 99]" by code_simp
  then show ?thesis using string_sha1_fips [of clean_stack "''abc''"] by (simp add: clean_stack_def)
qed

end
