(* ===== verification/Criteria.thy ===== *)
theory Criteria
  imports Lua_API "HOL-Library.Multiset"
begin

text \<open>
  \<open>src/host/criteria_matches.c\<close>: the compilation of filter terms and their evaluation against a
  context. A criteria is a conjunction of patterns, a pattern a disjunction of words. The evaluation
  also records, as it goes, whether one of the words that decided a pattern was matched by the name
  of the file that is being filtered. The declarative semantics below has no such state.

  \<open>string.match\<close> is a Lua function that the code fetches from the global table on every call, so it
  is a parameter \<open>smatch\<close>.
\<close>

section \<open>Compiled criteria\<close>

record Word =
  word :: "cstring option"
  word_prefix :: "cstring option"
  word_matchesFiles :: bool
  assertion :: bool
  wildcard :: bool

record Pattern =
  pat_matchesFiles :: bool
  pat_words :: "Word list"

record Patterns =
  prefixed :: bool
  filePatterns :: nat
  patterns :: "Pattern list"








section \<open>Evaluation\<close>

text \<open>A disjunction that stops at the first success.\<close>

primrec any_f :: "('a \<Rightarrow> fault + bool) \<Rightarrow> 'a list \<Rightarrow> fault + bool" where
  "any_f f [] = Inr False"
| "any_f f (x # xs) = bind_f (f x) (\<lambda>b. if b then Inr True else any_f f xs)"

lemma any_f_cong [fundef_cong]:
  "xs = ys \<Longrightarrow> (\<And>x. x \<in> set ys \<Longrightarrow> f x = g x) \<Longrightarrow> any_f f xs = any_f g ys"
  by (induction ys arbitrary: xs) (auto simp: bind_f_def split: sum.splits)

lemma any_f_Inr: "(\<And>x. x \<in> set xs \<Longrightarrow> f x = Inr (P x)) \<Longrightarrow> any_f f xs = Inr (\<exists>x \<in> set xs. P x)"
  by (induction xs) auto

definition match :: "(lval list \<Rightarrow> lua_ret) \<Rightarrow> cstring \<Rightarrow> Word \<Rightarrow> fault + bool" where
  "match smatch val w =
     (if wildcard w then
        bind_f (smatch [LStr val, case word w of None \<Rightarrow> LNil | Some s \<Rightarrow> LStr s]) (\<lambda>rs.
          let r = (case rs of [] \<Rightarrow> LNil | v # _ \<Rightarrow> v) in
          Inr (lua_isstring r \<and> lua_tostring r = Some val))
      else (case word w of None \<Rightarrow> Inl OutOfBounds | Some s \<Rightarrow> Inr (val = s)))"

lemma rawgeti_cases: "rawgeti t i = LNil \<or> rawgeti t i \<in> snd ` set t"
  by (auto simp: rawgeti_def rawget_def dest!: map_of_SomeD intro: rev_image_eqI split: option.splits)

lemma size_rawgeti: "size (rawgeti t i) < size (LTable t)"
proof -
  have "size v < size (LTable t)" if "(k, v) \<in> set t" for k v
    using that by (induction t) auto
  then show ?thesis using rawgeti_cases [of t i] by auto
qed

function testValue :: "(lval list \<Rightarrow> lua_ret) \<Rightarrow> Word \<Rightarrow> lval \<Rightarrow> fault + bool" where
  "testValue smatch w v =
     (case v of
        LTable t \<Rightarrow> any_f (testValue smatch w) (map (rawgeti t) [1..<Suc (rawlen v)])
      | _ \<Rightarrow> (case lua_tostring v of None \<Rightarrow> Inr False | Some val \<Rightarrow> match smatch val w))"
  by pat_completeness auto
termination
proof (relation "measure (\<lambda>(smatch, w, v). size v)", goal_cases)
  case (2 smatch w v t x)
  then show ?case using size_rawgeti [of t] by auto
qed simp

declare testValue.simps [simp del]

text \<open>Both tests return whether the word holds and the new value of \<open>*fileMatched\<close>.\<close>

definition testWithPrefix ::
  "(lval list \<Rightarrow> lua_ret) \<Rightarrow> (lval \<times> lval) list \<Rightarrow> cstring option \<Rightarrow> Word \<Rightarrow> cstring \<Rightarrow> bool \<Rightarrow>
     fault + bool \<times> bool" where
  "testWithPrefix smatch context filename w p fileMatched =
     (if word_matchesFiles w \<and> filename = None then Inr (False, fileMatched)
      else
        bind_f (testValue smatch w (rawget context (LStr p))) (\<lambda>result.
          Inr (if result then assertion w else \<not> assertion w,
               if word_matchesFiles w \<and> result = assertion w then True else fileMatched)))"

definition testNoPrefix ::
  "(lval list \<Rightarrow> lua_ret) \<Rightarrow> (lval \<times> lval) list \<Rightarrow> cstring option \<Rightarrow> Word \<Rightarrow> bool \<Rightarrow> fault + bool \<times> bool" where
  "testNoPrefix smatch context filename w fileMatched =
     bind_f (case filename of
               Some f \<Rightarrow> if assertion w then match smatch f w else Inr False
             | None \<Rightarrow> Inr False) (\<lambda>byFile.
       if byFile then Inr (True, True)
       else
         bind_f (any_f (testValue smatch w) (map snd context)) (\<lambda>found.
           Inr (if found then assertion w else \<not> assertion w, fileMatched)))"

definition testWord ::
  "(lval list \<Rightarrow> lua_ret) \<Rightarrow> (lval \<times> lval) list \<Rightarrow> cstring option \<Rightarrow> Word \<Rightarrow> bool \<Rightarrow> fault + bool \<times> bool" where
  "testWord smatch context filename w fileMatched =
     (case word_prefix w of
        Some p \<Rightarrow> testWithPrefix smatch context filename w p fileMatched
      | None \<Rightarrow> testNoPrefix smatch context filename w fileMatched)"

primrec test_words ::
  "(Word \<Rightarrow> bool \<Rightarrow> fault + bool \<times> bool) \<Rightarrow> Word list \<Rightarrow> bool \<Rightarrow> fault + bool \<times> bool" where
  "test_words test [] fileMatched = Inr (False, fileMatched)"
| "test_words test (w # ws) fileMatched =
     bind_f (test w fileMatched) (\<lambda>(matched, fm). if matched then Inr (True, fm) else test_words test ws fm)"

primrec test_patterns ::
  "(Word \<Rightarrow> bool \<Rightarrow> fault + bool \<times> bool) \<Rightarrow> Pattern list \<Rightarrow> bool \<Rightarrow> fault + bool \<times> bool" where
  "test_patterns test [] fileMatched = Inr (True, fileMatched)"
| "test_patterns test (p # ps) fileMatched =
     bind_f (test_words test (pat_words p) fileMatched) (\<lambda>(matched, fm).
       if matched then test_patterns test ps fm else Inr (False, fm))"

definition context_file :: "(lval \<times> lval) list \<Rightarrow> cstring option" where
  "context_file context = lua_tostring (rawget context (LStr ''files''))"

text \<open>An empty list of results is the \<open>return 0\<close> of a criteria that cannot match any file.\<close>

definition criteria_matches ::
  "(lval list \<Rightarrow> lua_ret) \<Rightarrow> Patterns \<Rightarrow> (lval \<times> lval) list \<Rightarrow> lua_ret" where
  "criteria_matches smatch pats context =
     (let filename = context_file context in
      if prefixed pats \<and> filename \<noteq> None \<and> filePatterns pats = 0 then Inr []
      else
        bind_f (test_patterns (testWord smatch context filename) (patterns pats) (filename = None))
          (\<lambda>(matched, fileMatched).
             Inr [LBool (if filename \<noteq> None \<and> \<not> fileMatched then False else matched)]))"

section \<open>Declarative semantics\<close>

text \<open>Whether a string, or a value of the context with everything it contains, fits a word.\<close>

definition fits :: "(cstring \<Rightarrow> cstring \<Rightarrow> bool) \<Rightarrow> Word \<Rightarrow> cstring \<Rightarrow> bool" where
  "fits glob w s \<longleftrightarrow> (case word w of None \<Rightarrow> False | Some p \<Rightarrow> if wildcard w then glob s p else s = p)"

function value_fits :: "(cstring \<Rightarrow> bool) \<Rightarrow> lval \<Rightarrow> bool" where
  "value_fits f v =
     (case v of
        LTable t \<Rightarrow> (\<exists>i \<in> {1..rawlen v}. value_fits f (rawgeti t i))
      | _ \<Rightarrow> (case lua_tostring v of None \<Rightarrow> False | Some s \<Rightarrow> f s))"
  by pat_completeness auto
termination
  by (relation "measure (\<lambda>(f, v). size v)") (use size_rawgeti in auto)

declare value_fits.simps [simp del]

definition by_file :: "(cstring \<Rightarrow> cstring \<Rightarrow> bool) \<Rightarrow> (lval \<times> lval) list \<Rightarrow> Word \<Rightarrow> bool" where
  \<comment> \<open>the word holds because of the file name\<close>
  "by_file glob context w \<longleftrightarrow>
     (case context_file context of None \<Rightarrow> False
      | Some f \<Rightarrow>
          (case word_prefix w of
             None \<Rightarrow> assertion w \<and> fits glob w f
           | Some p \<Rightarrow> word_matchesFiles w \<and> value_fits (fits glob w) (rawget context (LStr p)) = assertion w))"

definition word_holds :: "(cstring \<Rightarrow> cstring \<Rightarrow> bool) \<Rightarrow> (lval \<times> lval) list \<Rightarrow> Word \<Rightarrow> bool" where
  "word_holds glob context w \<longleftrightarrow>
     (case word_prefix w of
        Some p \<Rightarrow>
          \<not> (word_matchesFiles w \<and> context_file context = None) \<and>
          value_fits (fits glob w) (rawget context (LStr p)) = assertion w
      | None \<Rightarrow>
          by_file glob context w \<or> (\<exists>v \<in> snd ` set context. value_fits (fits glob w) v) = assertion w)"

definition criteria_spec :: "(cstring \<Rightarrow> cstring \<Rightarrow> bool) \<Rightarrow> Patterns \<Rightarrow> (lval \<times> lval) list \<Rightarrow> bool" where
  "criteria_spec glob pats context \<longleftrightarrow>
     (\<forall>p \<in> set (patterns pats). \<exists>w \<in> set (pat_words p). word_holds glob context w) \<and>
     (context_file context \<noteq> None \<longrightarrow>
        \<not> (prefixed pats \<and> filePatterns pats = 0) \<and>
        (\<exists>p \<in> set (patterns pats). \<exists>w. find (word_holds glob context) (pat_words p) = Some w \<and> by_file glob context w))"

text \<open>What the evaluation relies on: every word has a text, and \<open>string.match\<close> does not fail on the
  wildcards of the criteria; \<open>glob s p\<close> says that the pattern \<open>p\<close> matches the whole of \<open>s\<close>.\<close>

definition whole_match :: "lua_ret \<Rightarrow> cstring \<Rightarrow> bool" where
  "whole_match r s \<longleftrightarrow> (case r of Inr (v # _) \<Rightarrow> lua_tostring v = Some s | _ \<Rightarrow> False)"

definition smatch_decides ::
  "(lval list \<Rightarrow> lua_ret) \<Rightarrow> (cstring \<Rightarrow> cstring \<Rightarrow> bool) \<Rightarrow> Word \<Rightarrow> bool" where
  "smatch_decides smatch glob w \<longleftrightarrow>
     (\<exists>p. word w = Some p \<and>
       (wildcard w \<longrightarrow> (\<forall>s. \<exists>rs. smatch [LStr s, LStr p] = Inr rs \<and> glob s p = whole_match (Inr rs) s)))"

section \<open>The evaluation computes the semantics\<close>

lemma match_fits: "smatch_decides smatch glob w \<Longrightarrow> match smatch s w = Inr (fits glob w s)"
proof -
  assume d: "smatch_decides smatch glob w"
  then obtain p where p: "word w = Some p" unfolding smatch_decides_def by blast
  show ?thesis
  proof (cases "wildcard w")
    case True
    with d p obtain rs where "smatch [LStr s, LStr p] = Inr rs" "glob s p = whole_match (Inr rs) s"
      unfolding smatch_decides_def by auto
    with p True show ?thesis
      by (cases rs) (auto simp: match_def fits_def whole_match_def lua_isstring_def lua_tostring_def Let_def)
  qed (simp add: match_def fits_def p)
qed

lemma testValue_fits:
  "smatch_decides smatch glob w \<Longrightarrow> testValue smatch w v = Inr (value_fits (fits glob w) v)"
proof (induction smatch w v rule: testValue.induct)
  case (1 smatch w v)
  show ?case
  proof (cases "\<exists>t. v = LTable t")
    case True
    then obtain t where t: "v = LTable t" by blast
    have "any_f (testValue smatch w) (map (rawgeti t) [1..<Suc (rawlen v)]) =
        Inr (\<exists>x \<in> set (map (rawgeti t) [1..<Suc (rawlen v)]). value_fits (fits glob w) x)"
      using 1 t by (intro any_f_Inr) blast
    also have "(\<exists>x \<in> set (map (rawgeti t) [1..<Suc (rawlen v)]). value_fits (fits glob w) x)
        = value_fits (fits glob w) v"
      by (subst (2) value_fits.simps) (auto simp: t atLeastLessThanSuc_atLeastAtMost simp del: upt_Suc)
    finally show ?thesis using t by (subst testValue.simps) simp
  next
    case False
    then show ?thesis
      using match_fits [OF 1(2)]
      by (subst testValue.simps, subst value_fits.simps) (auto split: lval.splits option.splits)
  qed
qed

lemma by_file_holds: "by_file glob context w \<Longrightarrow> word_holds glob context w"
  by (auto simp: by_file_def word_holds_def split: option.splits)

lemma testWord_holds:
  assumes "smatch_decides smatch glob w"
  shows "testWord smatch context (context_file context) w fm =
    Inr (word_holds glob context w, fm \<or> by_file glob context w)"
proof (cases "word_prefix w")
  case (Some p)
  then show ?thesis
    by (auto simp: testWord_def testWithPrefix_def testValue_fits [OF assms] word_holds_def by_file_def
        split: option.splits)
next
  case None
  have "any_f (testValue smatch w) (map snd context) =
      Inr (\<exists>v \<in> set (map snd context). value_fits (fits glob w) v)"
    by (intro any_f_Inr) (rule testValue_fits [OF assms])
  with None show ?thesis
    by (auto simp: testWord_def testNoPrefix_def match_fits [OF assms] word_holds_def by_file_def
        split: option.splits)
qed

lemma test_words_holds:
  assumes "\<forall>w \<in> set ws. smatch_decides smatch glob w"
  shows "test_words (testWord smatch context (context_file context)) ws fm =
    Inr (\<exists>w \<in> set ws. word_holds glob context w,
         fm \<or> (\<exists>w. find (word_holds glob context) ws = Some w \<and> by_file glob context w))"
  using assms
proof (induction ws arbitrary: fm)
  case (Cons w ws)
  then show ?case using by_file_holds [where glob = glob and w = w] by (auto simp: testWord_holds)
qed simp

lemma test_patterns_holds:
  assumes "\<forall>p \<in> set ps. \<forall>w \<in> set (pat_words p). smatch_decides smatch glob w"
  obtains fm' where "test_patterns (testWord smatch context (context_file context)) ps fm =
      Inr (\<forall>p \<in> set ps. \<exists>w \<in> set (pat_words p). word_holds glob context w, fm')"
    and "(\<forall>p \<in> set ps. \<exists>w \<in> set (pat_words p). word_holds glob context w) \<Longrightarrow> fm' = (fm \<or>
      (\<exists>p \<in> set ps. \<exists>w. find (word_holds glob context) (pat_words p) = Some w \<and> by_file glob context w))"
  using assms
proof (induction ps arbitrary: fm thesis)
  case Nil
  then show ?case by simp
next
  case (Cons p ps)
  let ?fm = "fm \<or> (\<exists>w. find (word_holds glob context) (pat_words p) = Some w \<and> by_file glob context w)"
  have tw: "test_words (testWord smatch context (context_file context)) (pat_words p) fm =
      Inr (\<exists>w \<in> set (pat_words p). word_holds glob context w, ?fm)"
    using Cons.prems(2) by (intro test_words_holds) simp
  show ?case
  proof (cases "\<exists>w \<in> set (pat_words p). word_holds glob context w")
    case True
    obtain fm' where "test_patterns (testWord smatch context (context_file context)) ps ?fm =
        Inr (\<forall>p \<in> set ps. \<exists>w \<in> set (pat_words p). word_holds glob context w, fm')"
      "(\<forall>p \<in> set ps. \<exists>w \<in> set (pat_words p). word_holds glob context w) \<Longrightarrow> fm' = (?fm \<or>
        (\<exists>p \<in> set ps. \<exists>w. find (word_holds glob context) (pat_words p) = Some w \<and> by_file glob context w))"
      using Cons.IH [of ?fm] Cons.prems(2) by auto
    with tw True show ?thesis by (intro Cons.prems(1) [of fm']) auto
  next
    case False
    with tw show ?thesis by (intro Cons.prems(1) [of ?fm]) auto
  qed
qed

lemma criteria_matches_spec:
  assumes "\<forall>p \<in> set (patterns pats). \<forall>w \<in> set (pat_words p). smatch_decides smatch glob w"
  shows "criteria_matches smatch pats context =
    (if prefixed pats \<and> context_file context \<noteq> None \<and> filePatterns pats = 0 then Inr []
     else Inr [LBool (criteria_spec glob pats context)])"
proof -
  obtain fm' where f: "test_patterns (testWord smatch context (context_file context)) (patterns pats) (context_file context = None) =
      Inr (\<forall>p \<in> set (patterns pats). \<exists>w \<in> set (pat_words p). word_holds glob context w, fm')"
    "(\<forall>p \<in> set (patterns pats). \<exists>w \<in> set (pat_words p). word_holds glob context w) \<Longrightarrow> fm' = (context_file context = None \<or>
      (\<exists>p \<in> set (patterns pats). \<exists>w. find (word_holds glob context) (pat_words p) = Some w \<and> by_file glob context w))"
    using test_patterns_holds [OF assms, of "context" "context_file context = None"] by blast
  then show ?thesis by (auto simp: criteria_matches_def criteria_spec_def Let_def)
qed

text \<open>C8: Evaluating a criteria decides its declarative meaning: every pattern has a word that holds,
  and when the context names a file, some pattern is decided by a word that matches the file (the
  first word of it that holds), which patterns written for prefixed terms can only do when one of
  them is about files. No result at all is the answer that such a criteria cannot match.\<close>

theorem criteria_matches_meaning:
  assumes "\<forall>p \<in> set (patterns pats). \<forall>w \<in> set (pat_words p). smatch_decides smatch glob w"
  shows "(criteria_matches smatch pats ctx = Inr [LBool True] \<longleftrightarrow> criteria_spec glob pats ctx)
    \<and> (criteria_matches smatch pats ctx = Inr [LBool False] \<or> criteria_matches smatch pats ctx = Inr []
         \<longleftrightarrow> \<not> criteria_spec glob pats ctx)"
  unfolding criteria_matches_spec [OF assms] by (auto simp: criteria_spec_def)

definition plain_word :: "cstring \<Rightarrow> cstring option \<Rightarrow> bool \<Rightarrow> Word" where
  "plain_word w p a = \<lparr>word = Some w, word_prefix = p, word_matchesFiles = (p = Some ''files''),
     assertion = a, wildcard = False\<rparr>"

lemma plain_word_decides: "smatch_decides smatch glob (plain_word w p a)"
  by (simp add: smatch_decides_def plain_word_def)

definition debug_not_windows :: Patterns where
  "debug_not_windows =
     \<lparr>prefixed = True, filePatterns = 0,
      patterns = [\<lparr>pat_matchesFiles = False, pat_words = [plain_word ''debug'' (Some ''configurations'') True]\<rparr>,
                  \<lparr>pat_matchesFiles = False, pat_words = [plain_word ''windows'' (Some ''system'') False]\<rparr>]\<rparr>"

theorem criteria_matches_meaning_witness:
  "criteria_matches (\<lambda>_. Inr []) debug_not_windows
     [(LStr ''configurations'', lua_array [LStr ''debug'', LStr ''static'']), (LStr ''system'', LStr ''linux'')] =
   Inr [LBool True]"
proof -
  let ?c = "[(LStr ''configurations'', lua_array [LStr ''debug'', LStr ''static'']), (LStr ''system'', LStr ''linux'')]"
  have d: "\<forall>p \<in> set (patterns debug_not_windows). \<forall>w \<in> set (pat_words p). smatch_decides (\<lambda>_. Inr []) (=) w"
    by (simp add: debug_not_windows_def plain_word_decides)
  have lb: "lua_tostring (LStr s) = Some (c_view s)" for s by (simp add: lua_tostring_def)
  have str: "value_fits f (LStr s) = f (c_view s)" for f s by (simp add: value_fits.simps lb)
  have arr: "value_fits f (lua_array [LStr ''debug'', LStr ''static'']) = (f ''debug'' \<or> f ''static'')" for f
  proof -
    have "rawlen (lua_array [LStr ''debug'', LStr ''static'']) = 2" by code_simp
    moreover have "rawgeti (array_from 1 [LStr ''debug'', LStr ''static'']) 1 = LStr ''debug''"
        "rawgeti (array_from 1 [LStr ''debug'', LStr ''static'']) 2 = LStr ''static''" by code_simp+
    moreover have "{1..2} = {1, 2 :: nat}" by auto
    ultimately show ?thesis
      by (subst value_fits.simps) (simp add: lua_array_def str del: array_from.simps One_nat_def)
  qed
  have "criteria_spec (=) debug_not_windows ?c"
    by (simp add: criteria_spec_def debug_not_windows_def word_holds_def plain_word_def context_file_def
        rawget_def norm_key_def lua_tostring_def arr str fits_def)
  with criteria_matches_meaning [OF d] show ?thesis by blast
qed

text \<open>The order of the terms of a criteria and the order in which the table of the context is
  traversed do not matter.\<close>

theorem criteria_matches_order:
  assumes "\<forall>p \<in> set (patterns a). \<forall>w \<in> set (pat_words p). smatch_decides smatch glob w"
    and "mset (patterns a) = mset (patterns b)" and "prefixed a = prefixed b" and "filePatterns a = filePatterns b"
    and "distinct (map fst c)" and "mset c = mset d"
  shows "criteria_matches smatch a c = criteria_matches smatch b d"
proof -
  have ps: "set (patterns a) = set (patterns b)" using assms(2) by (rule mset_eq_setD)
  have cd: "set c = set d" using assms(6) by (rule mset_eq_setD)
  have "distinct (map fst d)" using assms(5,6) by (metis mset_eq_imp_distinct_iff mset_map)
  then have "map_of c = map_of d" using assms(5) cd by (simp add: map_of_inject_set)
  then have rg: "rawget c k = rawget d k" for k by (simp add: rawget_def)
  have "word_holds glob c = word_holds glob d" "by_file glob c = by_file glob d" "context_file c = context_file d"
    by (simp_all add: fun_eq_iff word_holds_def by_file_def context_file_def rg cd split: option.splits)
  then have "criteria_spec glob a c = criteria_spec glob b d" "context_file c = context_file d"
    using ps assms(3,4) by (simp_all add: criteria_spec_def)
  moreover have "\<forall>p \<in> set (patterns b). \<forall>w \<in> set (pat_words p). smatch_decides smatch glob w"
    using assms(1) ps by simp
  ultimately show ?thesis using criteria_matches_spec [OF assms(1)] criteria_matches_spec assms(3,4) by simp
qed

theorem criteria_matches_order_witness:
  "criteria_matches (\<lambda>_. Inr []) debug_not_windows [(LStr ''system'', LStr ''linux''), (LStr ''configurations'', LStr ''debug'')]
   = criteria_matches (\<lambda>_. Inr []) debug_not_windows [(LStr ''configurations'', LStr ''debug''), (LStr ''system'', LStr ''linux'')]"
proof (rule criteria_matches_order)
  show "\<forall>p \<in> set (patterns debug_not_windows). \<forall>w \<in> set (pat_words p). smatch_decides (\<lambda>_. Inr []) (=) w"
    by (simp add: debug_not_windows_def plain_word_decides)
qed simp_all

section \<open>Compilation\<close>

text \<open>The tables that \<open>criteria.new\<close> builds for a list of patterns.\<close>

definition word_table :: "Word \<Rightarrow> lval" where
  "word_table w = LTable
     ([(LInt 1, LStr (the (word w)))] @ (case word_prefix w of None \<Rightarrow> [] | Some p \<Rightarrow> [(LInt 2, LStr p)])
      @ [(LInt 3, LBool (assertion w)), (LInt 4, LBool (wildcard w))])"






lemma not_nil_array [simp]:
  "lua_array vs \<noteq> LNil" "word_table w \<noteq> LNil" "LNil \<noteq> lua_array vs" "LNil \<noteq> word_table w"
  by (simp_all add: lua_array_def word_table_def)




end
