(* ===== verification/File_System.thy ===== *)
theory File_System
  imports Prelude "HOL-Library.AList"
begin

text \<open>
  The part of the operating system that the host's file functions call: a POSIX file system with
  directories, regular files, symbolic links and the permissions of the process that owns them, the
  working directory, the clock and the streams of \<open>stdio.h\<close>. It models documented behaviour of the
  C and POSIX libraries, not code of the repository; the functions of the host that use it are in
  the theories of the file operations.

  A place is the list of the names on the way from the root, with no link in it. The nodes are an
  association list in the order in which \<open>readdir\<close> meets them. The process is the owner of every
  file and not the superuser, so of the permission bits those of the owner count. Lengths of paths
  and names are not limited, and the times and lengths of directories are not tracked. Streams write
  through: on a full disk \<open>fwrite\<close> fails at once. (Where the C library keeps short data in a buffer, the
  loss would show only in the result of \<open>fclose\<close>, which no caller looks at.)
\<close>

unbundle bit_operations_syntax

section \<open>Nodes and paths\<close>

datatype errno =
  ENOENT | EACCES | EEXIST | ENOTDIR | EISDIR | ELOOP | ENOTEMPTY | EINVAL | EBUSY | EIO

type_synonym mode = "12 word"
type_synonym place = "cstring list"

datatype node =
    Directory mode
  | Regular mode int string \<comment> \<open>permissions, time of modification, contents\<close>
  | Link cstring

record stream =
  at_place :: place
  offset :: nat

record world =
  nodes :: "(place \<times> node) list"
  cwd :: place
  clock :: int
  umask :: mode
  directory_stat :: "place \<Rightarrow> int \<times> nat" \<comment> \<open>time and length that \<open>stat\<close> reports for a directory\<close>
  damaged :: "place \<Rightarrow> nat option" \<comment> \<open>reading a file at or behind this offset fails\<close>
  disk_full :: bool
  streams :: "(nat \<times> stream) list"
  next_stream :: nat

definition lookup :: "world \<Rightarrow> place \<Rightarrow> node option" where
  "lookup w p = map_of (nodes w) p"

definition put :: "place \<Rightarrow> node \<Rightarrow> world \<Rightarrow> world" where
  "put p nd w = w\<lparr>nodes := AList.update p nd (nodes w)\<rparr>"

definition cut :: "place \<Rightarrow> world \<Rightarrow> world" where
  "cut p w = w\<lparr>nodes := AList.delete p (nodes w)\<rparr>"

definition children :: "world \<Rightarrow> place \<Rightarrow> cstring list" where
  "children w p = map last (filter (\<lambda>q. q \<noteq> [] \<and> butlast q = p) (map fst (nodes w)))"

definition may_read :: "mode \<Rightarrow> bool" where "may_read m \<longleftrightarrow> bit m 8"
definition may_write :: "mode \<Rightarrow> bool" where "may_write m \<longleftrightarrow> bit m 7"
definition may_search :: "mode \<Rightarrow> bool" where "may_search m \<longleftrightarrow> bit m 6"

primrec comps :: "cstring \<Rightarrow> cstring list" where
  \<comment> \<open>the pieces between the slashes, the empty ones included\<close>
  "comps [] = [[]]"
| "comps (c # s) =
     (if c = SLASH then [] # comps s
      else (case comps s of [] \<Rightarrow> [[c]] | v # vs \<Rightarrow> (c # v) # vs))"

definition is_rooted :: "cstring \<Rightarrow> bool" where
  "is_rooted s \<longleftrightarrow> peek s = SLASH"

text \<open>
  Resolution of the pieces of a path from a directory, with a budget of links and a flag for
  whether a link in the last position is followed. Where only the last piece is missing, the place
  at which it could be created is the result.
\<close>

function walk :: "world \<Rightarrow> nat \<Rightarrow> bool \<Rightarrow> place \<Rightarrow> cstring list \<Rightarrow> errno + place" where
  "walk w n follow cur [] = Inr cur"
| "walk w n follow cur (c # cs) =
     (case lookup w cur of
        None \<Rightarrow> Inl ENOENT
      | Some (Regular _ _ _) \<Rightarrow> Inl ENOTDIR
      | Some (Link _) \<Rightarrow> Inl ENOTDIR
      | Some (Directory m) \<Rightarrow>
          if \<not> may_search m then Inl EACCES
          else if c = [] \<or> c = ''.'' then walk w n follow cur cs
          else if c = ''..'' then walk w n follow (butlast cur) cs
          else
            (case lookup w (cur @ [c]) of
               None \<Rightarrow> if cs = [] then Inr (cur @ [c]) else Inl ENOENT
             | Some (Link t) \<Rightarrow>
                 if cs = [] \<and> \<not> follow then Inr (cur @ [c])
                 else if n = 0 then Inl ELOOP
                 else if t = [] then Inl ENOENT
                 else walk w (n - 1) follow (if is_rooted t then [] else cur) (comps t @ cs)
             | Some _ \<Rightarrow> walk w n follow (cur @ [c]) cs))"
  by pat_completeness auto
termination
  by (relation "measures [\<lambda>(w, n, follow, cur, cs). n, \<lambda>(w, n, follow, cur, cs). length cs]") auto

declare walk.simps [simp del]

definition SYMLOOP_MAX :: nat where "SYMLOOP_MAX = 40"

definition find_place :: "world \<Rightarrow> bool \<Rightarrow> cstring \<Rightarrow> errno + place" where
  "find_place w follow path =
     (if path = [] then Inl ENOENT
      else walk w SYMLOOP_MAX follow (if is_rooted path then [] else cwd w) (comps path))"

definition existing :: "world \<Rightarrow> errno + place \<Rightarrow> errno + place" where
  "existing w r = (case r of Inl e \<Rightarrow> Inl e | Inr p \<Rightarrow> if lookup w p = None then Inl ENOENT else Inr p)"

section \<open>System calls\<close>

text \<open>\<open>stat\<close> and \<open>lstat\<close> give the place that holds the node; the fields are read from there.\<close>

definition stat :: "world \<Rightarrow> cstring \<Rightarrow> errno + place" where
  "stat w path = existing w (find_place w True path)"

definition lstat :: "world \<Rightarrow> cstring \<Rightarrow> errno + place" where
  "lstat w path = existing w (find_place w False path)"

definition is_dir :: "world \<Rightarrow> place \<Rightarrow> bool" where
  "is_dir w p \<longleftrightarrow> (case lookup w p of Some (Directory _) \<Rightarrow> True | _ \<Rightarrow> False)"

definition is_link :: "world \<Rightarrow> place \<Rightarrow> bool" where
  "is_link w p \<longleftrightarrow> (case lookup w p of Some (Link _) \<Rightarrow> True | _ \<Rightarrow> False)"

definition st_mtime :: "world \<Rightarrow> place \<Rightarrow> int" where
  "st_mtime w p = (case lookup w p of Some (Regular _ t _) \<Rightarrow> t | _ \<Rightarrow> fst (directory_stat w p))"

definition st_size :: "world \<Rightarrow> place \<Rightarrow> nat" where
  "st_size w p =
     (case lookup w p of
        Some (Regular _ _ s) \<Rightarrow> length s
      | Some (Link t) \<Rightarrow> length t
      | _ \<Rightarrow> snd (directory_stat w p))"

definition parent_mode :: "world \<Rightarrow> place \<Rightarrow> mode option" where
  "parent_mode w p = (case lookup w (butlast p) of Some (Directory m) \<Rightarrow> Some m | _ \<Rightarrow> None)"

text \<open>A new entry of a directory, and the removal of an entry.\<close>

definition create :: "place \<Rightarrow> node \<Rightarrow> world \<Rightarrow> (errno + unit) \<times> world" where
  "create p nd w =
     (if lookup w p \<noteq> None \<or> p = [] then (Inl EEXIST, w)
      else (case parent_mode w p of
              None \<Rightarrow> (Inl ENOENT, w)
            | Some m \<Rightarrow> if may_write m then (Inr (), put p nd w) else (Inl EACCES, w)))"

definition remove_entry :: "place \<Rightarrow> world \<Rightarrow> (errno + unit) \<times> world" where
  "remove_entry p w =
     (case parent_mode w p of
        None \<Rightarrow> (Inl ENOENT, w)
      | Some m \<Rightarrow> if may_write m then (Inr (), cut p w) else (Inl EACCES, w))"

fun on_place :: "errno + place \<Rightarrow> (place \<Rightarrow> world \<Rightarrow> (errno + unit) \<times> world) \<Rightarrow> world \<Rightarrow> (errno + unit) \<times> world" where
  "on_place (Inl e) f w = (Inl e, w)"
| "on_place (Inr p) f w = f p w"

definition no_trailing :: "cstring \<Rightarrow> cstring" where
  \<comment> \<open>a path without its trailing slashes\<close>
  "no_trailing s = rev (dropWhile (\<lambda>c. c = SLASH) (rev s))"

definition sys_mkdir :: "cstring \<Rightarrow> mode \<Rightarrow> world \<Rightarrow> (errno + unit) \<times> world" where
  "sys_mkdir path m w =
     (if path \<noteq> [] \<and> no_trailing path = [] then (Inl EEXIST, w)
      else on_place (find_place w False (no_trailing path))
             (\<lambda>p. create p (Directory (m AND NOT (umask w)))) w)"

definition sys_symlink :: "cstring \<Rightarrow> cstring \<Rightarrow> world \<Rightarrow> (errno + unit) \<times> world" where
  "sys_symlink target path w =
     (if target = [] then (Inl ENOENT, w)
      else on_place (find_place w False path) (\<lambda>p. create p (Link target)) w)"

definition sys_unlink :: "cstring \<Rightarrow> world \<Rightarrow> (errno + unit) \<times> world" where
  "sys_unlink path w =
     on_place (lstat w path) (\<lambda>p w. if is_dir w p then (Inl EISDIR, w) else remove_entry p w) w"

definition sys_rmdir :: "cstring \<Rightarrow> world \<Rightarrow> (errno + unit) \<times> world" where
  "sys_rmdir path w =
     (if last (comps (no_trailing path)) = ''.'' then (Inl EINVAL, w)
      else on_place (lstat w path) (\<lambda>p w.
             if \<not> is_dir w p then (Inl ENOTDIR, w)
             else if p = [] then (Inl EBUSY, w)
             else if children w p \<noteq> [] then (Inl ENOTEMPTY, w)
             else remove_entry p w) w)"

definition sys_chdir :: "cstring \<Rightarrow> world \<Rightarrow> (errno + unit) \<times> world" where
  "sys_chdir path w =
     on_place (stat w path) (\<lambda>p w.
       (case lookup w p of
          Some (Directory m) \<Rightarrow> if may_search m then (Inr (), w\<lparr>cwd := p\<rparr>) else (Inl EACCES, w)
        | _ \<Rightarrow> (Inl ENOTDIR, w))) w"

definition path_of :: "place \<Rightarrow> cstring" where
  "path_of p = (if p = [] then ''/'' else concat (map (\<lambda>c. SLASH # c) p))"

definition sys_getcwd :: "nat \<Rightarrow> world \<Rightarrow> cstring option" where
  \<comment> \<open>NULL when the directory has been removed or its name does not fit the buffer\<close>
  "sys_getcwd n w =
     (if lookup w (cwd w) = None \<or> length (path_of (cwd w)) + 1 > n then None else Some (path_of (cwd w)))"

definition sys_chmod :: "cstring \<Rightarrow> mode \<Rightarrow> world \<Rightarrow> (errno + unit) \<times> world" where
  "sys_chmod path m w =
     on_place (stat w path) (\<lambda>p w.
       (case lookup w p of
          Some (Directory _) \<Rightarrow> (Inr (), put p (Directory m) w)
        | Some (Regular _ t s) \<Rightarrow> (Inr (), put p (Regular m t s) w)
        | _ \<Rightarrow> (Inl ENOENT, w))) w"

definition sys_utime :: "cstring \<Rightarrow> int \<Rightarrow> world \<Rightarrow> (errno + unit) \<times> world" where
  "sys_utime path t w =
     on_place (stat w path) (\<lambda>p w.
       (case lookup w p of
          Some (Regular m _ s) \<Rightarrow> (Inr (), put p (Regular m t s) w)
        | _ \<Rightarrow> (Inr (), w))) w"

definition sys_realpath :: "world \<Rightarrow> cstring \<Rightarrow> errno + cstring" where
  "sys_realpath w path = map_sum id path_of (stat w path)"

section \<open>Streams\<close>

definition open_stream :: "place \<Rightarrow> world \<Rightarrow> nat option \<times> world" where
  "open_stream p w =
     (Some (next_stream w),
      w\<lparr>streams := AList.update (next_stream w) \<lparr>at_place = p, offset = 0\<rparr> (streams w),
        next_stream := Suc (next_stream w)\<rparr>)"

text \<open>\<open>fopen\<close> for reading also opens a directory, from which nothing can be read.\<close>

definition fopen_rb :: "cstring \<Rightarrow> world \<Rightarrow> nat option \<times> world" where
  "fopen_rb path w =
     (case stat w path of
        Inl _ \<Rightarrow> (None, w)
      | Inr p \<Rightarrow>
          if (case lookup w p of Some (Directory m) \<Rightarrow> may_read m | Some (Regular m _ _) \<Rightarrow> may_read m | _ \<Rightarrow> False)
          then open_stream p w else (None, w))"

definition fopen_wb :: "cstring \<Rightarrow> world \<Rightarrow> nat option \<times> world" where
  "fopen_wb path w =
     (case find_place w True path of
        Inl _ \<Rightarrow> (None, w)
      | Inr p \<Rightarrow>
          (case lookup w p of
             Some (Regular m _ _) \<Rightarrow>
               if may_write m then open_stream p (put p (Regular m (clock w) []) w) else (None, w)
           | Some _ \<Rightarrow> (None, w)
           | None \<Rightarrow>
               (case create p (Regular (0x1B6 AND NOT (umask w)) (clock w) []) w of
                  (Inl _, w1) \<Rightarrow> (None, w1)
                | (Inr _, w1) \<Rightarrow> open_stream p w1)))"

definition fclose :: "nat \<Rightarrow> world \<Rightarrow> world" where
  "fclose h w = w\<lparr>streams := AList.delete h (streams w)\<rparr>"

text \<open>The length that \<open>fseek\<close> to the end and \<open>ftell\<close> find; the stream is then rewound.\<close>

definition stream_length :: "nat \<Rightarrow> world \<Rightarrow> nat" where
  "stream_length h w = (case map_of (streams w) h of None \<Rightarrow> 0 | Some st \<Rightarrow> st_size w (at_place st))"

definition contents :: "world \<Rightarrow> place \<Rightarrow> string" where
  "contents w p = (case lookup w p of Some (Regular _ _ s) \<Rightarrow> s | _ \<Rightarrow> [])"

definition readable_part :: "world \<Rightarrow> place \<Rightarrow> string" where
  "readable_part w p = (case damaged w p of None \<Rightarrow> contents w p | Some n \<Rightarrow> take n (contents w p))"

definition fread :: "nat \<Rightarrow> nat \<Rightarrow> world \<Rightarrow> string \<times> world" where
  "fread count h w =
     (case map_of (streams w) h of
        None \<Rightarrow> ([], w)
      | Some st \<Rightarrow>
          let s = take count (drop (offset st) (readable_part w (at_place st))) in
          (s, w\<lparr>streams := AList.update h (st\<lparr>offset := offset st + length s\<rparr>) (streams w)\<rparr>))"

text \<open>\<open>fwrite(s, length, 1, f)\<close>, which returns the number of items written, an item being all of \<open>s\<close>.\<close>

definition fwrite :: "string \<Rightarrow> nat \<Rightarrow> world \<Rightarrow> nat \<times> world" where
  "fwrite s h w =
     (case map_of (streams w) h of
        None \<Rightarrow> (0, w)
      | Some st \<Rightarrow>
          (case lookup w (at_place st) of
             Some (Regular m _ old) \<Rightarrow>
               if s = [] \<or> disk_full w then (0, w)
               else (1, put (at_place st) (Regular m (clock w) (take (offset st) old @ s @ drop (offset st + length s) old))
                        (w\<lparr>streams := AList.update h (st\<lparr>offset := offset st + length s\<rparr>) (streams w)\<rparr>))
           | _ \<Rightarrow> (0, w)))"

section \<open>Well-formed file systems\<close>

definition file_name :: "cstring \<Rightarrow> bool" where
  "file_name c \<longleftrightarrow> c \<noteq> [] \<and> c \<noteq> ''.'' \<and> c \<noteq> ''..'' \<and> SLASH \<notin> set c"

definition wf_world :: "world \<Rightarrow> bool" where
  "wf_world w \<longleftrightarrow> distinct (map fst (nodes w)) \<and> is_dir w []
     \<and> (\<forall>p \<in> fst ` set (nodes w). \<forall>c \<in> set p. file_name c)
     \<and> (\<forall>p \<in> fst ` set (nodes w). p \<noteq> [] \<longrightarrow> is_dir w (butlast p))"

lemma lookup_put [simp]: "lookup (put p nd w) q = (if q = p then Some nd else lookup w q)"
  by (simp add: lookup_def put_def update_conv')

lemma lookup_cut [simp]: "lookup (cut p w) q = (if q = p then None else lookup w q)"
  by (simp add: lookup_def cut_def delete_conv')

lemma put_fields [simp]:
  "cwd (put p nd w) = cwd w" "clock (put p nd w) = clock w" "umask (put p nd w) = umask w"
  "streams (put p nd w) = streams w" "disk_full (put p nd w) = disk_full w" "damaged (put p nd w) = damaged w"
  "directory_stat (put p nd w) = directory_stat w" "next_stream (put p nd w) = next_stream w"
  by (simp_all add: put_def)

lemma cut_fields [simp]:
  "cwd (cut p w) = cwd w" "clock (cut p w) = clock w" "umask (cut p w) = umask w"
  "streams (cut p w) = streams w" "disk_full (cut p w) = disk_full w" "damaged (cut p w) = damaged w"
  "directory_stat (cut p w) = directory_stat w" "next_stream (cut p w) = next_stream w"
  by (simp_all add: cut_def)

lemma lookup_dom: "p \<in> fst ` set (nodes w) \<longleftrightarrow> lookup w p \<noteq> None"
  by (simp add: lookup_def map_of_eq_None_iff)

lemma is_dir_iff: "is_dir w p \<longleftrightarrow> (\<exists>m. lookup w p = Some (Directory m))"
  by (auto simp: is_dir_def split: option.splits node.splits)

lemma is_link_iff: "is_link w p \<longleftrightarrow> (\<exists>t. lookup w p = Some (Link t))"
  by (auto simp: is_link_def split: option.splits node.splits)

lemma wf_world_iff: "wf_world w \<longleftrightarrow> distinct (map fst (nodes w)) \<and> is_dir w []
     \<and> (\<forall>p. lookup w p \<noteq> None \<longrightarrow> (\<forall>c \<in> set p. file_name c) \<and> (p \<noteq> [] \<longrightarrow> is_dir w (butlast p)))"
  unfolding wf_world_def lookup_dom [symmetric] by blast

lemma wf_worldD:
  assumes "wf_world w"
  shows "is_dir w []" and "lookup w p \<noteq> None \<Longrightarrow> c \<in> set p \<Longrightarrow> file_name c"
    and "lookup w p \<noteq> None \<Longrightarrow> p \<noteq> [] \<Longrightarrow> is_dir w (butlast p)"
  using assms unfolding wf_world_iff by blast+

lemma children_iff: "c \<in> set (children w p) \<longleftrightarrow> lookup w (p @ [c]) \<noteq> None"
proof -
  have "c \<in> set (children w p) \<longleftrightarrow> (\<exists>q. lookup w q \<noteq> None \<and> q \<noteq> [] \<and> butlast q = p \<and> last q = c)"
    unfolding children_def lookup_dom [symmetric] by (auto simp: image_iff)
  also have "\<dots> \<longleftrightarrow> lookup w (p @ [c]) \<noteq> None" by (metis append_butlast_last_id butlast_snoc last_snoc snoc_eq_iff_butlast)
  finally show ?thesis .
qed

section \<open>Facts about the resolution of paths\<close>

lemma comps_not_Nil [simp]: "comps s \<noteq> []"
  by (induction s) (auto split: list.splits)

lemma comps_no_slash: "c \<in> set (comps s) \<Longrightarrow> SLASH \<notin> set c"
proof (induction s arbitrary: c)
  case (Cons x s)
  then show ?case by (cases "comps s") (auto split: if_splits)
qed simp

text \<open>The successful resolutions as a relation, for rule induction.\<close>

inductive walks :: "world \<Rightarrow> bool \<Rightarrow> nat \<Rightarrow> place \<Rightarrow> cstring list \<Rightarrow> place \<Rightarrow> bool" for w follow where
  here: "walks w follow n cur [] cur"
| stay: "lookup w cur = Some (Directory m) \<Longrightarrow> may_search m \<Longrightarrow> c = [] \<or> c = ''.'' \<Longrightarrow>
    walks w follow n cur cs q \<Longrightarrow> walks w follow n cur (c # cs) q"
| up: "lookup w cur = Some (Directory m) \<Longrightarrow> may_search m \<Longrightarrow>
    walks w follow n (butlast cur) cs q \<Longrightarrow> walks w follow n cur (''..'' # cs) q"
| down: "lookup w cur = Some (Directory m) \<Longrightarrow> may_search m \<Longrightarrow> c \<notin> {[], ''.'', ''..''} \<Longrightarrow>
    lookup w (cur @ [c]) = Some nd \<Longrightarrow> \<forall>t. nd \<noteq> Link t \<Longrightarrow>
    walks w follow n (cur @ [c]) cs q \<Longrightarrow> walks w follow n cur (c # cs) q"
| free: "lookup w cur = Some (Directory m) \<Longrightarrow> may_search m \<Longrightarrow> c \<notin> {[], ''.'', ''..''} \<Longrightarrow>
    lookup w (cur @ [c]) = None \<Longrightarrow> walks w follow n cur [c] (cur @ [c])"
| stop: "lookup w cur = Some (Directory m) \<Longrightarrow> may_search m \<Longrightarrow> c \<notin> {[], ''.'', ''..''} \<Longrightarrow>
    lookup w (cur @ [c]) = Some (Link t) \<Longrightarrow> \<not> follow \<Longrightarrow> walks w follow n cur [c] (cur @ [c])"
| link: "lookup w cur = Some (Directory m) \<Longrightarrow> may_search m \<Longrightarrow> c \<notin> {[], ''.'', ''..''} \<Longrightarrow>
    lookup w (cur @ [c]) = Some (Link t) \<Longrightarrow> cs \<noteq> [] \<or> follow \<Longrightarrow> t \<noteq> [] \<Longrightarrow>
    walks w follow n (if is_rooted t then [] else cur) (comps t @ cs) q \<Longrightarrow>
    walks w follow (Suc n) cur (c # cs) q"

lemma walks_imp_walk: "walks w follow n cur cs q \<Longrightarrow> walk w n follow cur cs = Inr q"
  by (induction rule: walks.induct) (auto simp: walk.simps split: node.splits)

lemma walk_imp_walks: "walk w n follow cur cs = Inr q \<Longrightarrow> walks w follow n cur cs q"
proof (induction w n follow cur cs rule: walk.induct)
  case (1 w n follow cur)
  then show ?case by (simp add: walk.simps walks.here)
next
  case (2 w n follow cur c cs)
  from "2.prems" obtain m where m: "lookup w cur = Some (Directory m)" "may_search m"
    by (auto simp: walk.simps(2) split: option.splits node.splits if_splits)
  note step = "2.prems" [unfolded walk.simps(2)] m
  consider (stay) "c = [] \<or> c = ''.''" | (up) "c = ''..''"
    | (free) "c \<notin> {[], ''.'', ''..''}" "lookup w (cur @ [c]) = None"
    | (link) t where "c \<notin> {[], ''.'', ''..''}" "lookup w (cur @ [c]) = Some (Link t)"
    | (down) nd where "c \<notin> {[], ''.'', ''..''}" "lookup w (cur @ [c]) = Some nd" "\<forall>t. nd \<noteq> Link t"
    by (cases "lookup w (cur @ [c])") blast+
  then show ?case
  proof cases
    case stay
    with step m show ?thesis by (intro walks.stay [OF m stay] "2.IH"(1)) auto
  next
    case up
    with step have "walk w n follow (butlast cur) cs = Inr q" by simp
    with 2(2) m up show ?thesis by (auto intro: walks.up)
  next
    case free
    with step m show ?thesis by (auto split: if_splits intro: walks.free)
  next
    case (link t)
    show ?thesis
    proof (cases "cs = [] \<and> \<not> follow")
      case True
      with step m link show ?thesis by (auto intro: walks.stop)
    next
      case False
      then obtain k where k: "n = Suc k" "t \<noteq> []"
          "walk w k follow (if is_rooted t then [] else cur) (comps t @ cs) = Inr q"
        using step link by (cases n) (auto split: if_splits)
      have "walks w follow k (if is_rooted t then [] else cur) (comps t @ cs) q"
        using 2(5) [OF m(1) refl _ _ _ link(2) refl] k m link False by auto
      with m link False k show ?thesis by (auto intro: walks.link)
    qed
  next
    case (down nd)
    then have "walk w n follow (cur @ [c]) cs = Inr q" using step by (cases nd) auto
    with 2(3,4) m down have "walks w follow n (cur @ [c]) cs q" by (cases nd) auto
    with m down show ?thesis by (auto intro: walks.down)
  qed
qed

lemma walk_iff: "walk w n follow cur cs = Inr q \<longleftrightarrow> walks w follow n cur cs q"
  using walks_imp_walk walk_imp_walks by metis

lemma file_nameI: "c \<notin> {[], ''.'', ''..''} \<Longrightarrow> SLASH \<notin> set c \<Longrightarrow> file_name c"
  unfolding file_name_def by blast

lemma walks_names:
  "walks w follow n cur cs q \<Longrightarrow> \<forall>c \<in> set cur. file_name c \<Longrightarrow> \<forall>c \<in> set cs. SLASH \<notin> set c
    \<Longrightarrow> \<forall>c \<in> set q. file_name c"
proof (induction rule: walks.induct)
  case (up cur m n cs q)
  then show ?case by (auto dest: in_set_butlastD)
next
  case (link cur m c t cs n q)
  then show ?case using comps_no_slash [of _ t] by (cases "is_rooted t") auto
qed (simp_all add: file_nameI)

lemma walks_place:
  assumes "wf_world w"
  shows "walks w follow n cur cs q \<Longrightarrow> lookup w cur \<noteq> None \<Longrightarrow>
    lookup w q \<noteq> None \<or> q \<noteq> [] \<and> is_dir w (butlast q)"
proof (induction rule: walks.induct)
  case (up cur m n cs q)
  moreover have "lookup w (butlast cur) \<noteq> None"
    using wf_worldD(3) [OF assms up.prems] up.prems by (cases "cur = []") (auto simp: is_dir_iff)
  ultimately show ?case by blast
next
  case (link cur m c t cs n q)
  moreover have "lookup w [] \<noteq> None" using wf_worldD(1) [OF assms] by (auto simp: is_dir_iff)
  ultimately show ?case by (auto split: if_splits)
qed (auto simp: is_dir_iff)

lemma walks_not_link:
  assumes "wf_world w"
  shows "walks w True n cur cs q \<Longrightarrow> \<not> is_link w cur \<Longrightarrow> \<not> is_link w q"
proof (induction n cur cs q rule: walks.induct)
  case (up cur m n cs q)
  moreover have "\<not> is_link w (butlast cur)"
    using wf_worldD(3) [OF assms, of cur] up by (cases "cur = []") (auto simp: is_dir_iff is_link_iff)
  ultimately show ?case by blast
next
  case (link cur m c t cs n q)
  moreover have "\<not> is_link w []" using wf_worldD(1) [OF assms] by (auto simp: is_dir_iff is_link_iff)
  ultimately show ?case by (auto split: if_splits)
qed (auto simp: is_link_iff)

text \<open>
  A resolution that succeeds in one file system succeeds in another one that has the same links,
  directories where there were directories, and no link where there was none and it would be followed.
\<close>

definition plain_node :: "node \<Rightarrow> bool" where
  "plain_node nd \<longleftrightarrow> (\<forall>t. nd \<noteq> Link t)"

definition keeps_paths :: "bool \<Rightarrow> world \<Rightarrow> world \<Rightarrow> bool" where
  "keeps_paths fl w w' \<longleftrightarrow> (\<forall>q.
     (\<forall>m. lookup w q = Some (Directory m) \<and> may_search m \<longrightarrow>
        (\<exists>m'. lookup w' q = Some (Directory m') \<and> may_search m')) \<and>
     (\<forall>t. lookup w q = Some (Link t) \<longrightarrow> lookup w' q = Some (Link t)) \<and>
     (\<forall>nd. lookup w q = Some nd \<and> plain_node nd \<longrightarrow> (\<exists>nd'. lookup w' q = Some nd' \<and> plain_node nd')) \<and>
     (lookup w q = None \<longrightarrow> (\<forall>nd. lookup w' q = Some nd \<longrightarrow> plain_node nd \<or> \<not> fl)))"

lemma keeps_pathsD:
  assumes "keeps_paths fl w w'"
  shows "lookup w q = Some (Directory m) \<Longrightarrow> may_search m \<Longrightarrow> \<exists>m'. lookup w' q = Some (Directory m') \<and> may_search m'"
    and "lookup w q = Some (Link t) \<Longrightarrow> lookup w' q = Some (Link t)"
    and "lookup w q = Some nd \<Longrightarrow> \<forall>t. nd \<noteq> Link t \<Longrightarrow> \<exists>nd'. lookup w' q = Some nd' \<and> (\<forall>t. nd' \<noteq> Link t)"
    and "lookup w q = None \<Longrightarrow> lookup w' q = Some nd' \<Longrightarrow> (\<forall>t. nd' \<noteq> Link t) \<or> \<not> fl"
  using assms unfolding keeps_paths_def plain_node_def by blast+

lemma walks_keeps:
  assumes k: "keeps_paths fl w w'"
  shows "walks w fl n cur cs q \<Longrightarrow> walks w' fl n cur cs q"
proof (induction rule: walks.induct)
  case (stay cur m c n cs q)
  obtain m' where "lookup w' cur = Some (Directory m')" "may_search m'"
    using keeps_pathsD(1) [OF k stay(1,2)] by blast
  from this stay(3,5) show ?case by (rule walks.stay)
next
  case (up cur m n cs q)
  obtain m' where "lookup w' cur = Some (Directory m')" "may_search m'"
    using keeps_pathsD(1) [OF k up(1,2)] by blast
  from this up(4) show ?case by (rule walks.up)
next
  case (down cur m c nd n cs q)
  obtain m' where m: "lookup w' cur = Some (Directory m')" "may_search m'"
    using keeps_pathsD(1) [OF k down(1,2)] by blast
  obtain nd' where "lookup w' (cur @ [c]) = Some nd'" "\<forall>t. nd' \<noteq> Link t"
    using keeps_pathsD(3) [OF k down(4,5)] by blast
  from m down(3) this down(7) show ?case by (rule walks.down)
next
  case (free cur m c n)
  obtain m' where m: "lookup w' cur = Some (Directory m')" "may_search m'"
    using keeps_pathsD(1) [OF k free(1,2)] by blast
  show ?case
  proof (cases "lookup w' (cur @ [c])")
    case None
    with m free(3) show ?thesis by (rule walks.free)
  next
    case (Some nd)
    show ?thesis
    proof (cases "\<exists>t. nd = Link t")
      case True
      then obtain t where t: "nd = Link t" by blast
      then have "\<not> fl" using keeps_pathsD(4) [OF k free(4) Some] by blast
      from m free(3) Some [unfolded t] this show ?thesis by (rule walks.stop)
    next
      case False
      then show ?thesis using walks.down [OF m free(3) Some _ walks.here] by blast
    qed
  qed
next
  case (stop cur m c t n)
  obtain m' where m: "lookup w' cur = Some (Directory m')" "may_search m'"
    using keeps_pathsD(1) [OF k stop(1,2)] by blast
  from m stop(3) keeps_pathsD(2) [OF k stop(4)] stop(5) show ?case by (rule walks.stop)
next
  case (link cur m c t cs n q)
  obtain m' where m: "lookup w' cur = Some (Directory m')" "may_search m'"
    using keeps_pathsD(1) [OF k link(1,2)] by blast
  from m link(3) keeps_pathsD(2) [OF k link(4)] link(5,6,8) show ?case by (rule walks.link)
qed (rule walks.here)

lemma walks_put:
  assumes "lookup w p = None" and "(\<forall>t. nd \<noteq> Link t) \<or> \<not> fl"
  shows "walks w fl n cur cs q \<Longrightarrow> walks (put p nd w) fl n cur cs q"
  by (rule walks_keeps) (use assms in \<open>auto simp: keeps_paths_def plain_node_def\<close>)

lemma walks_replace:
  assumes "lookup w p = Some (Regular m t s)"
  shows "walks w fl n cur cs q \<Longrightarrow> walks (put p (Regular m' t' s') w) fl n cur cs q"
  by (rule walks_keeps) (use assms in \<open>auto simp: keeps_paths_def plain_node_def\<close>)

lemma walks_cong: "lookup w' = lookup w \<Longrightarrow> walks w fl n cur cs q \<Longrightarrow> walks w' fl n cur cs q"
  by (erule walks_keeps [rotated]) (simp add: keeps_paths_def)

text \<open>Following a link in the last position makes no difference where there is none.\<close>

lemma walks_follow:
  "walks w False n cur cs q \<Longrightarrow> \<not> is_link w q \<Longrightarrow> walks w True n cur cs q"
proof (induction n cur cs q rule: walks.induct)
  case (link cur m c t cs n q)
  then show ?case by (intro walks.link [of _ _ m _ t]) auto
qed (auto simp: is_link_iff intro: walks.intros)

text \<open>A path of names through directories leads to the place with these names.\<close>

lemma walks_plain:
  assumes "\<forall>c \<in> set cs. file_name c"
    and "\<forall>k < length cs. \<exists>m. lookup w (cur @ take k cs) = Some (Directory m) \<and> may_search m"
    and "\<not> is_link w (cur @ cs) \<or> \<not> follow"
  shows "walks w follow n cur cs (cur @ cs)"
  using assms
proof (induction cs arbitrary: cur)
  case Nil
  then show ?case by (simp add: walks.here)
next
  case (Cons c cs)
  from Cons.prems(2) [rule_format, of 0] obtain m where m: "lookup w cur = Some (Directory m)" "may_search m" by auto
  have c: "c \<notin> {[], ''.'', ''..''}" using Cons.prems(1) by (simp add: file_name_def)
  show ?case
  proof (cases "cs = []")
    case True
    consider "lookup w (cur @ [c]) = None" | t where "lookup w (cur @ [c]) = Some (Link t)"
      | nd where "lookup w (cur @ [c]) = Some nd" "\<forall>t. nd \<noteq> Link t"
      by (cases "lookup w (cur @ [c])") blast+
    then show ?thesis
    proof cases
      case 1
      with m c True show ?thesis by (simp add: walks.free)
    next
      case (2 t)
      with m c True Cons.prems(3) show ?thesis by (auto simp: is_link_iff intro: walks.stop)
    next
      case (3 nd)
      with m c True show ?thesis by (auto intro: walks.down [of _ _ m _ nd] walks.here)
    qed
  next
    case False
    then obtain m' where d: "lookup w (cur @ [c]) = Some (Directory m')"
      using Cons.prems(2) [rule_format, of 1] by (cases cs) auto
    have dirs: "\<forall>k < length cs. \<exists>m. lookup w ((cur @ [c]) @ take k cs) = Some (Directory m) \<and> may_search m"
    proof (intro allI impI)
      fix k assume "k < length cs"
      then show "\<exists>m. lookup w ((cur @ [c]) @ take k cs) = Some (Directory m) \<and> may_search m"
        using Cons.prems(2) [rule_format, of "Suc k"] by simp
    qed
    have "walks w follow n (cur @ [c]) cs ((cur @ [c]) @ cs)"
      using Cons.prems by (intro Cons.IH [OF _ dirs]) simp_all
    with m c d show ?thesis using walks.down [OF m c d] by simp
  qed
qed

section \<open>Every operation keeps the file system well formed\<close>

lemma lookup_fields [simp]:
  "lookup (w\<lparr>cwd := d\<rparr>) p = lookup w p" "lookup (w\<lparr>streams := ss\<rparr>) p = lookup w p"
  "lookup (w\<lparr>next_stream := i\<rparr>) p = lookup w p"
  by (simp_all add: lookup_def)

lemma is_dir_fields [simp]:
  "is_dir (w\<lparr>cwd := d\<rparr>) p = is_dir w p" "is_dir (w\<lparr>streams := ss\<rparr>) p = is_dir w p"
  "is_dir (w\<lparr>next_stream := i\<rparr>) p = is_dir w p"
  by (simp_all add: is_dir_def)

lemma wf_fields [simp]:
  "wf_world (w\<lparr>cwd := d\<rparr>) = wf_world w" "wf_world (w\<lparr>streams := ss\<rparr>) = wf_world w"
  "wf_world (w\<lparr>next_stream := i\<rparr>) = wf_world w"
  by (simp_all add: wf_world_def)

lemma is_dir_put: "is_dir (put p nd w) q \<longleftrightarrow> (if q = p then \<exists>m. nd = Directory m else is_dir w q)"
  by (auto simp: is_dir_iff)

lemma is_dir_cut: "is_dir (cut p w) q \<longleftrightarrow> q \<noteq> p \<and> is_dir w q"
  by (auto simp: is_dir_iff)

lemma wf_put:
  assumes w: "wf_world w" and names: "\<forall>c \<in> set p. file_name c"
    and parent: "p \<noteq> [] \<Longrightarrow> is_dir w (butlast p)"
    and dir: "p = [] \<or> is_dir w p \<Longrightarrow> \<exists>m. nd = Directory m"
  shows "wf_world (put p nd w)"
proof -
  have "distinct (map fst (nodes (put p nd w)))"
    using w by (simp add: wf_world_def put_def AList.distinct_update)
  moreover have "is_dir (put p nd w) []"
    using wf_worldD(1) [OF w] dir by (auto simp: is_dir_put)
  moreover have "(\<forall>c \<in> set q. file_name c) \<and> (q \<noteq> [] \<longrightarrow> is_dir (put p nd w) (butlast q))"
    if q: "lookup (put p nd w) q \<noteq> None" for q
  proof (cases "q = p")
    case True
    have "butlast p = p \<Longrightarrow> p = []" by (cases p rule: rev_cases) auto
    with True names parent show ?thesis by (auto simp: is_dir_put dest: dir)
  next
    case False
    with q have "lookup w q \<noteq> None" by simp
    with wf_worldD(2,3) [OF w this] dir show ?thesis by (auto simp: is_dir_put)
  qed
  ultimately show ?thesis unfolding wf_world_iff by blast
qed

lemma wf_cut:
  assumes w: "wf_world w" and leaf: "children w p = []" and root: "p \<noteq> []"
  shows "wf_world (cut p w)"
proof -
  have free: "lookup w (p @ [c]) = None" for c using leaf children_iff [of c w p] by simp
  have "distinct (map fst (nodes (cut p w)))"
    using w by (simp add: wf_world_def cut_def AList.distinct_delete)
  moreover have "is_dir (cut p w) []" using wf_worldD(1) [OF w] root by (simp add: is_dir_cut)
  moreover have "(\<forall>c \<in> set q. file_name c) \<and> (q \<noteq> [] \<longrightarrow> is_dir (cut p w) (butlast q))"
    if q: "lookup (cut p w) q \<noteq> None" for q
  proof -
    have lq: "lookup w q \<noteq> None" using q by (simp split: if_splits)
    have "butlast q \<noteq> p" if "q \<noteq> []" using lq free [of "last q"] that by (metis append_butlast_last_id)
    with wf_worldD(2,3) [OF w lq] show ?thesis by (auto simp: is_dir_cut)
  qed
  ultimately show ?thesis unfolding wf_world_iff by blast
qed

lemma leaf_children: "wf_world w \<Longrightarrow> \<not> is_dir w p \<Longrightarrow> children w p = []"
proof -
  assume w: "wf_world w" and p: "\<not> is_dir w p"
  have "c \<notin> set (children w p)" for c
    using wf_worldD(3) [OF w, of "p @ [c]"] p by (cases "lookup w (p @ [c])") (auto simp: children_iff)
  then show ?thesis by (cases "children w p") auto
qed

text \<open>What a path resolves to: an existing place, or a free one in a directory.\<close>

definition cwd_ok :: "world \<Rightarrow> bool" where
  "cwd_ok w \<longleftrightarrow> lookup w (cwd w) \<noteq> None \<and> \<not> is_link w (cwd w)"

lemma find_place_facts:
  assumes "wf_world w" and "cwd_ok w" and "find_place w follow path = Inr p"
  shows "\<forall>c \<in> set p. file_name c" and "p \<noteq> [] \<Longrightarrow> is_dir w (butlast p)"
    and "lookup w p = None \<Longrightarrow> p \<noteq> []"
proof -
  let ?cur = "if is_rooted path then [] else cwd w"
  have walk: "walks w follow SYMLOOP_MAX ?cur (comps path) p"
    using assms(3) by (auto simp: find_place_def walk_iff split: if_splits)
  have cur: "lookup w ?cur \<noteq> None" using assms wf_worldD(1) [OF assms(1)] by (auto simp: cwd_ok_def is_dir_iff)
  have "\<forall>c \<in> set ?cur. file_name c" using wf_worldD(2) [OF assms(1) cur] by blast
  with walk show "\<forall>c \<in> set p. file_name c" using comps_no_slash [of _ path] by (blast intro: walks_names [OF walk, rule_format])
  have "lookup w p \<noteq> None \<or> p \<noteq> [] \<and> is_dir w (butlast p)" using walks_place [OF assms(1) walk cur] .
  then show "p \<noteq> [] \<Longrightarrow> is_dir w (butlast p)" "lookup w p = None \<Longrightarrow> p \<noteq> []"
    using wf_worldD(3) [OF assms(1)] by blast+
qed

lemma existing_Inr [simp]: "existing w r = Inr p \<longleftrightarrow> r = Inr p \<and> lookup w p \<noteq> None"
  by (auto simp: existing_def split: sum.splits)

lemma stat_place:
  assumes "wf_world w" and "cwd_ok w" and "stat w path = Inr p"
  shows "\<forall>c \<in> set p. file_name c" and "p \<noteq> [] \<Longrightarrow> is_dir w (butlast p)" and "lookup w p \<noteq> None"
    and "\<not> is_link w p"
proof -
  have r: "find_place w True path = Inr p" "lookup w p \<noteq> None" using assms(3) by (simp_all add: stat_def)
  from find_place_facts [OF assms(1,2) r(1)] show "\<forall>c \<in> set p. file_name c" "p \<noteq> [] \<Longrightarrow> is_dir w (butlast p)"
    by blast+
  show "lookup w p \<noteq> None" by (rule r)
  let ?cur = "if is_rooted path then [] else cwd w"
  have "walks w True SYMLOOP_MAX ?cur (comps path) p"
    using r(1) by (auto simp: find_place_def walk_iff split: if_splits)
  moreover have "\<not> is_link w ?cur"
    using assms(2) wf_worldD(1) [OF assms(1)] by (auto simp: cwd_ok_def is_dir_iff is_link_iff)
  ultimately show "\<not> is_link w p" using walks_not_link [OF assms(1)] by blast
qed

lemma wf_replace:
  assumes w: "wf_world w" and old: "lookup w p = Some old"
    and dir: "(\<exists>m. old = Directory m) \<Longrightarrow> \<exists>m. nd = Directory m"
  shows "wf_world (put p nd w)"
proof (rule wf_put [OF w])
  show "\<forall>c \<in> set p. file_name c" "p \<noteq> [] \<Longrightarrow> is_dir w (butlast p)"
    using wf_worldD(2,3) [OF w, of p] old by auto
  show "\<exists>m. nd = Directory m" if "p = [] \<or> is_dir w p"
    using that wf_worldD(1) [OF w] old dir by (auto simp: is_dir_iff)
qed

lemma not_root: "wf_world w \<Longrightarrow> \<not> is_dir w p \<Longrightarrow> p \<noteq> []"
  using wf_worldD(1) by auto

lemma wf_create:
  assumes "wf_world w" and "\<forall>c \<in> set p. file_name c"
  shows "wf_world (snd (create p nd w))"
  using assms by (auto simp: create_def parent_mode_def is_dir_iff split: option.splits node.splits intro!: wf_put)

lemma wf_remove_entry:
  assumes "wf_world w" and "children w p = []" and "p \<noteq> []"
  shows "wf_world (snd (remove_entry p w))"
  using assms by (auto simp: remove_entry_def split: option.splits intro: wf_cut)

lemma wf_on_place:
  assumes "wf_world w" and "\<And>p. r = Inr p \<Longrightarrow> wf_world (snd (f p w))"
  shows "wf_world (snd (on_place r f w))"
  using assms by (cases r) auto

lemma wf_sys_mkdir: "wf_world w \<Longrightarrow> cwd_ok w \<Longrightarrow> wf_world (snd (sys_mkdir path m w))"
  by (auto simp: sys_mkdir_def intro!: wf_on_place wf_create dest: find_place_facts)

lemma wf_sys_symlink: "wf_world w \<Longrightarrow> cwd_ok w \<Longrightarrow> wf_world (snd (sys_symlink t path w))"
  by (auto simp: sys_symlink_def intro!: wf_on_place wf_create dest: find_place_facts)

lemma wf_sys_unlink: "wf_world w \<Longrightarrow> wf_world (snd (sys_unlink path w))"
  unfolding sys_unlink_def
  by (rule wf_on_place) (use not_root in \<open>auto intro: wf_remove_entry leaf_children\<close>)

lemma wf_sys_rmdir: "wf_world w \<Longrightarrow> wf_world (snd (sys_rmdir path w))"
  by (auto simp: sys_rmdir_def intro!: wf_on_place wf_remove_entry)

lemma wf_sys_chdir: "wf_world w \<Longrightarrow> wf_world (snd (sys_chdir path w))"
  by (auto simp: sys_chdir_def intro!: wf_on_place split: option.splits node.splits)

lemma wf_sys_chmod: "wf_world w \<Longrightarrow> wf_world (snd (sys_chmod path m w))"
  unfolding sys_chmod_def
  by (rule wf_on_place) (auto intro: wf_replace split: option.splits node.splits)

lemma wf_sys_utime: "wf_world w \<Longrightarrow> wf_world (snd (sys_utime path t w))"
  unfolding sys_utime_def
  by (rule wf_on_place) (auto intro: wf_replace split: option.splits node.splits)

lemma wf_open_stream [simp]: "wf_world (snd (open_stream p w)) = wf_world w"
  by (simp add: open_stream_def wf_world_def is_dir_def lookup_def)

lemma wf_fopen_rb: "wf_world w \<Longrightarrow> wf_world (snd (fopen_rb path w))"
  by (auto simp: fopen_rb_def split: sum.splits)

lemma wf_fopen_wb:
  assumes "wf_world w" and "cwd_ok w" shows "wf_world (snd (fopen_wb path w))"
proof (cases "find_place w True path")
  case (Inr p)
  have c: "wf_world (snd (create p nd w))" for nd
    using wf_create [OF assms(1)] find_place_facts(1) [OF assms Inr] .
  have "wf_world w1" if "create p nd w = (r, w1)" for nd r w1 using c [of nd] that by simp
  then show ?thesis using assms(1)
    by (auto simp: fopen_wb_def Inr intro: wf_replace split: option.splits node.splits sum.splits prod.splits)
qed (simp add: fopen_wb_def assms)

lemma wf_fclose: "wf_world w \<Longrightarrow> wf_world (fclose h w)"
  by (simp add: fclose_def)

lemma wf_fread: "wf_world w \<Longrightarrow> wf_world (snd (fread n h w))"
  by (auto simp: fread_def Let_def split: option.splits)

lemma wf_fwrite: "wf_world w \<Longrightarrow> wf_world (snd (fwrite s h w))"
  by (auto simp: fwrite_def intro: wf_replace split: option.splits node.splits)

lemmas wf_calls =
  wf_sys_mkdir wf_sys_symlink wf_sys_unlink wf_sys_rmdir wf_sys_chdir wf_sys_chmod wf_sys_utime
  wf_fopen_rb wf_fopen_wb wf_fclose wf_fread wf_fwrite

section \<open>Making a directory\<close>

lemma comps_append_slash: "comps (s @ SLASH # t) = comps s @ comps t"
proof (induction s)
  case (Cons c s)
  then show ?case by (cases "comps s") auto
qed simp

lemma comps_slashes: "comps (s @ replicate k SLASH) = comps s @ replicate k []"
proof (induction k arbitrary: s)
  case (Suc k)
  have "s @ replicate (Suc k) SLASH = (s @ replicate k SLASH) @ SLASH # []"
    by (simp add: replicate_append_same)
  then have "comps (s @ replicate (Suc k) SLASH) = comps (s @ replicate k SLASH) @ [[]]"
    by (simp only: comps_append_slash comps.simps)
  with Suc show ?case by (simp add: replicate_append_same)
qed simp

lemma comps_name: "SLASH \<notin> set c \<Longrightarrow> comps c = [c]"
  by (induction c) auto

lemma no_trailing_split: "\<exists>k. s = no_trailing s @ replicate k SLASH"
proof -
  have "takeWhile (\<lambda>c. c = SLASH) t = replicate (length (takeWhile (\<lambda>c. c = SLASH) t)) SLASH" for t :: cstring
    by (induction t) auto
  then have "rev s = replicate (length (takeWhile (\<lambda>c. c = SLASH) (rev s))) SLASH @ dropWhile (\<lambda>c. c = SLASH) (rev s)"
    by (metis takeWhile_dropWhile_id)
  then have "s = rev (dropWhile (\<lambda>c. c = SLASH) (rev s)) @ replicate (length (takeWhile (\<lambda>c. c = SLASH) (rev s))) SLASH"
    by (metis rev_append rev_replicate rev_rev_ident)
  then show ?thesis unfolding no_trailing_def by blast
qed

lemma no_trailing_name: "s \<noteq> [] \<Longrightarrow> last s \<noteq> SLASH \<Longrightarrow> no_trailing s = s"
  by (cases s rule: rev_cases) (simp_all add: no_trailing_def)

lemma walks_empties:
  "walks w True n cur cs p \<Longrightarrow> lookup w p = Some (Directory m) \<Longrightarrow> may_search m \<Longrightarrow>
    walks w True n cur (cs @ replicate k []) p"
proof (induction n cur cs p rule: walks.induct)
  case (here n cur)
  then show ?case by (induction k) (auto intro: walks.here walks.stay)
qed (auto intro: walks.intros)

lemma find_place_iff:
  "find_place w follow path = Inr p \<longleftrightarrow>
     path \<noteq> [] \<and> walks w follow SYMLOOP_MAX (if is_rooted path then [] else cwd w) (comps path) p"
  by (simp add: find_place_def walk_iff)

lemma create_Inr:
  "create p nd w = (Inr (), w') \<longleftrightarrow> lookup w p = None \<and> p \<noteq> [] \<and> w' = put p nd w
     \<and> (\<exists>m. lookup w (butlast p) = Some (Directory m) \<and> may_write m)"
  by (auto simp: create_def parent_mode_def split: option.splits node.splits)

lemma create_Inl: "create p nd w = (Inl e, w') \<Longrightarrow> w' = w"
  by (auto simp: create_def split: option.splits if_splits)

definition dir_node :: "mode \<Rightarrow> world \<Rightarrow> node" where
  "dir_node m w = Directory (m AND NOT (umask w))"

lemma may_search_masked [simp]: "may_search (m AND NOT u) \<longleftrightarrow> may_search m \<and> \<not> may_search u"
  by (auto simp: may_search_def bit_simps)

lemma may_write_masked [simp]: "may_write (m AND NOT u) \<longleftrightarrow> may_write m \<and> \<not> may_write u"
  by (auto simp: may_write_def bit_simps)

lemma sys_mkdir_cases:
  assumes wf: "wf_world w" "cwd_ok w" and m: "may_search m" "\<not> may_search (umask w)"
  obtains e where "sys_mkdir path m w = (Inl e, w)"
  | p where "sys_mkdir path m w = (Inr (), put p (dir_node m w) w)" "lookup w p = None"
      "wf_world (put p (dir_node m w) w)" "cwd_ok (put p (dir_node m w) w)"
      "stat (put p (dir_node m w) w) path = Inr p"
proof (cases "sys_mkdir path m w")
  case (Pair r w')
  show thesis
  proof (cases r)
    case (Inl e)
    have "w' = w" using Pair Inl
      by (cases "find_place w False (no_trailing path)") (auto simp: sys_mkdir_def split: if_splits dest: create_Inl)
    with Pair Inl that(1) show thesis by simp
  next
    case (Inr u)
    from Pair Inr obtain p where p: "find_place w False (no_trailing path) = Inr p"
        "create p (dir_node m w) w = (Inr (), w')"
      by (cases "find_place w False (no_trailing path)") (auto simp: sys_mkdir_def dir_node_def split: if_splits)
    then have free: "lookup w p = None" and w': "w' = put p (dir_node m w) w" by (auto simp: create_Inr)
    have wf': "wf_world w'" using wf_sys_mkdir [OF wf, of path m] Pair by simp
    have cwd': "cwd_ok w'" using wf(2) free by (auto simp: cwd_ok_def w' is_link_iff dir_node_def)
    have nt: "no_trailing path \<noteq> []" using p(1) by (auto simp: find_place_def)
    obtain k where k: "path = no_trailing path @ replicate k SLASH" using no_trailing_split by blast
    have rooted: "is_rooted path = is_rooted (no_trailing path)"
      using nt by (subst k) (cases "no_trailing path", simp_all add: is_rooted_def)
    let ?cur = "if is_rooted path then [] else cwd w"
    have "walks w False SYMLOOP_MAX ?cur (comps (no_trailing path)) p"
      using p(1) rooted by (simp add: find_place_iff)
    then have "walks w True SYMLOOP_MAX ?cur (comps (no_trailing path)) p"
      using free by (intro walks_follow) (simp_all add: is_link_iff)
    then have "walks w' True SYMLOOP_MAX ?cur (comps (no_trailing path)) p"
      unfolding w' using free by (intro walks_put) (simp_all add: dir_node_def)
    then have "walks w' True SYMLOOP_MAX ?cur (comps (no_trailing path) @ replicate k []) p"
      using m by (intro walks_empties [where m = "m AND NOT (umask w)"]) (simp_all add: w' dir_node_def)
    then have "walks w' True SYMLOOP_MAX ?cur (comps path) p"
      using comps_slashes [of "no_trailing path" k] k by simp
    moreover have "path \<noteq> []" using k nt by auto
    ultimately have "stat w' path = Inr p" by (simp add: stat_def find_place_iff w' split: if_splits)
    with Pair Inr free w' wf' cwd' that(2) show thesis by (metis old.unit.exhaust)
  qed
qed

section \<open>Names of places\<close>

lemma path_of_snoc: "path_of (ds @ [c]) = (if ds = [] then [] else path_of ds) @ SLASH # c"
  by (simp add: path_of_def)

lemma comps_path_of: "\<forall>c \<in> set cs. SLASH \<notin> set c \<Longrightarrow> cs \<noteq> [] \<Longrightarrow> comps (path_of cs) = [] # cs"
proof (induction cs rule: rev_induct)
  case (snoc c cs)
  then show ?case
    by (cases "cs = []") (simp_all add: path_of_snoc comps_append_slash comps_name path_of_def [of "[c]"])
qed simp

lemma path_of_rooted [simp]: "is_rooted (path_of cs)"
  by (cases cs) (simp_all add: path_of_def is_rooted_def)

lemma path_of_not_Nil [simp]: "path_of cs \<noteq> []"
  using path_of_rooted [of cs] by (auto simp: is_rooted_def)

lemma path_of_no_trailing: "c \<noteq> [] \<Longrightarrow> SLASH \<notin> set c \<Longrightarrow> no_trailing (path_of (ds @ [c])) = path_of (ds @ [c])"
proof (rule no_trailing_name)
  assume c: "c \<noteq> []" "SLASH \<notin> set c"
  then have "last c \<in> set c" by simp
  with c have "last c \<noteq> SLASH" by metis
  with c show "last (path_of (ds @ [c])) \<noteq> SLASH" by (simp add: path_of_snoc)
qed (simp add: path_of_snoc)

lemma walks_plain_unique:
  assumes "walks w follow n cur cs p" and "\<forall>c \<in> set cs. file_name c"
    and "\<forall>k \<le> length cs. \<not> is_link w (cur @ take k cs)"
  shows "p = cur @ cs"
  using assms
proof (induction rule: walks.induct)
  case (down cur m c nd n cs q)
  have "\<not> is_link w ((cur @ [c]) @ take k cs)" if "k \<le> length cs" for k
    using down.prems(2) [rule_format, of "Suc k"] that by simp
  with down show ?case by simp
next
  case (stop cur m c t n)
  then have "\<not> is_link w (cur @ [c])" by (auto dest: spec [of _ 1])
  with stop show ?case by (simp add: is_link_iff)
next
  case (link cur m c t cs n q)
  then have "\<not> is_link w (cur @ [c])" using link.prems(2) [rule_format, of 1] by simp
  with link show ?case by (simp add: is_link_iff)
qed (auto simp: file_name_def)

inductive_cases walks_NilE [elim!]: "walks w fl n cur [] q"

lemma walks_drop_empty: "walks w fl n cur (cs @ [[]]) p \<Longrightarrow> walks w True n cur cs p"
proof (induction n cur "cs @ [[]]" p arbitrary: cs rule: walks.induct)
  case (stay cur m c n cs' q)
  then show ?case by (cases cs) (auto intro: walks.intros)
next
  case (up cur m n cs' q)
  then show ?case by (cases cs) (auto intro: walks.intros)
next
  case (down cur m c nd n cs' q)
  then show ?case by (cases cs) (auto intro: walks.intros)
next
  case (link cur m c t cs' n q)
  then obtain ds where ds: "cs' = ds @ [[]]" "cs = c # ds" by (cases cs) auto
  then have "walks w True n (if is_rooted t then [] else cur) (comps t @ ds) q" using link.hyps(8) by simp
  with link.hyps ds show ?case by (auto intro: walks.link)
qed auto

lemma stat_cong:
  assumes "lookup w' = lookup w" and "cwd w' = cwd w"
  shows "stat w' path = Inr p \<longleftrightarrow> stat w path = Inr p"
  using assms walks_cong [OF assms(1)] walks_cong [OF assms(1) [symmetric]]
  by (auto simp: stat_def find_place_iff)

end
