(* ===== verification/Host_API.thy ===== *)
theory Host_API
  imports Lua_API File_System
begin

text \<open>
  What a build of the host runs on: the platform and the configuration it was compiled for, the
  external programs and scripts it calls, and the functions of the Windows API, which are
  parameters: records of arbitrary functions of the state of the machine. The conversions of
  \<open>src/host/premake.c\<close> between UTF-8 and wide strings are defined over them.

  A function of the host that has effects maps the state to its results (or the fault that ends
  the call) and the new state. The message of a Lua error is given without the position that
  \<open>luaL_error\<close> puts in front of it.
\<close>

type_synonym wstring = "16 word list"

record find_data =
  cFileName :: wstring
  attribute_directory :: bool

record wstat =
  wst_isdir :: bool
  wst_mtime :: int
  wst_size :: nat

record win32 =
  MultiByteToWideChar :: "string \<Rightarrow> wstring" \<comment> \<open>of UTF-8; the empty string on failure\<close>
  WideCharToMultiByte :: "wstring \<Rightarrow> string"
  GetFileAttributesW :: "wstring \<Rightarrow> world \<Rightarrow> (bool \<times> bool) option" \<comment> \<open>directory, reparse point\<close>
  wstat :: "wstring \<Rightarrow> world \<Rightarrow> errno + wstat"
  wmkdir :: "wstring \<Rightarrow> world \<Rightarrow> bool \<times> world"
  RemoveDirectoryW :: "wstring \<Rightarrow> world \<Rightarrow> bool \<times> world"
  DeleteFileW :: "wstring \<Rightarrow> world \<Rightarrow> bool \<times> world"
  MoveFileExW :: "wstring \<Rightarrow> wstring \<Rightarrow> world \<Rightarrow> bool \<times> world"
  CopyFileW :: "wstring \<Rightarrow> wstring \<Rightarrow> world \<Rightarrow> bool \<times> world"
  CreateSymbolicLinkW :: "wstring \<Rightarrow> wstring \<Rightarrow> bool \<Rightarrow> world \<Rightarrow> bool \<times> world"
  SetCurrentDirectoryW :: "wstring \<Rightarrow> world \<Rightarrow> bool \<times> world"
  GetCurrentDirectoryW :: "world \<Rightarrow> wstring option"
  GetEnvironmentVariableW :: "wstring \<Rightarrow> wstring option"
  GetLastError :: "world \<Rightarrow> nat"
  FormatMessageW :: "nat \<Rightarrow> wstring option"
  wfopen_rb :: "wstring \<Rightarrow> world \<Rightarrow> nat option \<times> world"
  wfopen_wb :: "wstring \<Rightarrow> world \<Rightarrow> nat option \<times> world"
  chmod_win :: "cstring \<Rightarrow> int \<Rightarrow> world \<Rightarrow> (errno + unit) \<times> world"
  fullpath :: "cstring \<Rightarrow> world \<Rightarrow> errno + cstring"
  OpenForAttributes :: "wstring \<Rightarrow> world \<Rightarrow> nat option \<times> world" \<comment> \<open>\<open>CreateFileW\<close> with \<open>FILE_WRITE_ATTRIBUTES\<close>\<close>
  GetSystemFileTime :: "world \<Rightarrow> int option" \<comment> \<open>\<open>GetSystemTime\<close> and \<open>SystemTimeToFileTime\<close>\<close>
  SetFileTime :: "nat \<Rightarrow> int \<Rightarrow> world \<Rightarrow> bool \<times> world"
  CloseHandle :: "nat \<Rightarrow> world \<Rightarrow> world"
  FindFirstFileW :: "wstring \<Rightarrow> world \<Rightarrow> find_data list" \<comment> \<open>what it and \<open>FindNextFileW\<close> deliver\<close>

record host =
  plat :: platform
  ndebug :: bool
  static_lua :: bool
  builtin :: bool \<comment> \<open>scripts are embedded: \<open>PREMAKE_NO_BUILTIN_SCRIPTS\<close> is not defined\<close>
  path_max :: nat \<comment> \<open>\<open>PATH_MAX\<close>, 4096 where the system does not define it\<close>
  win :: win32
  getenv :: "cstring \<Rightarrow> cstring option"
  system :: "cstring \<Rightarrow> world \<Rightarrow> int \<times> world"
  errno_number :: "errno \<Rightarrow> int"
  strerror :: "errno \<Rightarrow> cstring"
  fnmatch :: "cstring \<Rightarrow> cstring \<Rightarrow> bool" \<comment> \<open>\<open>fnmatch(mask, name, 0) == 0\<close>\<close>
  has_d_type :: bool \<comment> \<open>\<open>_DIRENT_HAVE_D_TYPE\<close>, and the file system fills it in\<close>
  normalize_script :: "lval list \<Rightarrow> lua_ret" \<comment> \<open>\<open>path.normalize\<close> of the global table\<close>

abbreviation (input) windows :: "host \<Rightarrow> bool" where "windows h \<equiv> plat h = Windows"

section \<open>Calls with effects\<close>

type_synonym 'a io = "world \<Rightarrow> (fault + 'a) \<times> world"

definition checked :: "fault + 'a \<Rightarrow> ('a \<Rightarrow> 'b io) \<Rightarrow> 'b io" where
  \<comment> \<open>go on with an argument that has passed its check\<close>
  "checked r k w = (case r of Inl e \<Rightarrow> (Inl e, w) | Inr x \<Rightarrow> k x w)"

lemma checked_simps [simp]: "checked (Inl e) k w = (Inl e, w)" "checked (Inr x) k w = k x w"
  by (simp_all add: checked_def)

definition bind_io :: "'a io \<Rightarrow> ('a \<Rightarrow> 'b io) \<Rightarrow> 'b io" where
  "bind_io f k w = (case f w of (Inl e, w1) \<Rightarrow> (Inl e, w1) | (Inr x, w1) \<Rightarrow> k x w1)"

lemma bind_io_Inr: "bind_io f k w = (Inr y, w') \<longleftrightarrow> (\<exists>x w1. f w = (Inr x, w1) \<and> k x w1 = (Inr y, w'))"
  by (auto simp: bind_io_def split: prod.splits sum.splits)

definition accept :: lua_ret where "accept = Inr [LBool True]"

lemma bind_io_accept:
  "bind_io f k w = (accept, w') \<longleftrightarrow> (\<exists>x w1. f w = (Inr x, w1) \<and> k x w1 = (accept, w'))"
  by (simp add: accept_def bind_io_Inr)

lemma apfst_Inr [simp]: "apfst Inr x = (Inr y, w') \<longleftrightarrow> x = (y, w')"
  by (cases x) simp

definition quoted :: "cstring \<Rightarrow> string" where
  "quoted s = CHR 0x27 # s @ [CHR 0x27]"

definition refuse :: "string \<Rightarrow> lua_ret" where
  "refuse msg = Inr [LNil, LStr msg]"

lemma accept_refuse [simp]: "accept \<noteq> refuse m" "refuse m \<noteq> accept"
  by (simp_all add: accept_def refuse_def)

definition is_ok :: "(errno + unit) \<times> world \<Rightarrow> bool \<times> world" where
  \<comment> \<open>the test of a system call's result against 0\<close>
  "is_ok r = (fst r = Inr (), snd r)"

lemma is_ok_simps [simp]: "is_ok (Inl e, w) = (False, w)" "is_ok (Inr u, w) = (True, w)"
  by (simp_all add: is_ok_def)

section \<open>Wide strings\<close>

definition luaL_convertlstring :: "host \<Rightarrow> string \<Rightarrow> wstring option" where
  "luaL_convertlstring h s =
     (let ws = MultiByteToWideChar (win h) s in if length ws = 0 then None else Some ws)"

definition luaL_convertlwstring :: "host \<Rightarrow> wstring \<Rightarrow> string option" where
  "luaL_convertlwstring h ws =
     (let s = WideCharToMultiByte (win h) ws in if length s = 0 then None else Some s)"

definition luaL_convertwstring :: "host \<Rightarrow> wstring \<Rightarrow> string option" where
  "luaL_convertwstring h ws =
     (let s = WideCharToMultiByte (win h) (takeWhile (\<lambda>c. c \<noteq> 0) ws) in
      if length s = 0 then None else Some s)"

definition luaL_convertlstringi :: "host \<Rightarrow> lval list \<Rightarrow> nat \<Rightarrow> wstring option" where
  "luaL_convertlstringi h args i =
     (case Option.bind (arg args i) lua_tolstring of None \<Rightarrow> None | Some s \<Rightarrow> luaL_convertlstring h s)"

definition luaL_checkconvertlstring :: "host \<Rightarrow> lval list \<Rightarrow> nat \<Rightarrow> fault + wstring" where
  "luaL_checkconvertlstring h args i =
     bind_f (luaL_checklstring args i) (\<lambda>s.
       case luaL_convertlstring h s of
         None \<Rightarrow> Inl (LuaError ''conversion failure'')
       | Some ws \<Rightarrow> Inr ws)"

definition luaL_optconvertlstring :: "host \<Rightarrow> lval list \<Rightarrow> nat \<Rightarrow> wstring option \<Rightarrow> fault + wstring option" where
  "luaL_optconvertlstring h args i d =
     (if lua_isnoneornil args i then Inr d
      else map_sum id Some (luaL_checkconvertlstring h args i))"

definition luaL_getenv :: "host \<Rightarrow> cstring \<Rightarrow> string option" where
  "luaL_getenv h name =
     (if windows h then
        (case luaL_convertlstring h name of
           None \<Rightarrow> None
         | Some wname \<Rightarrow>
             (case GetEnvironmentVariableW (win h) wname of
                None \<Rightarrow> None
              | Some wvar \<Rightarrow> luaL_convertlwstring h wvar))
      else getenv h name)"

section \<open>Sample machines\<close>

text \<open>A Windows machine that has nothing, a Linux machine on which every command succeeds, and a file
  system with a home directory and two files; used where a theorem is applied to a concrete machine.\<close>

definition bare_win32 :: win32 where
  "bare_win32 =
     \<lparr>MultiByteToWideChar = map (\<lambda>c. word_of_nat (code c)), WideCharToMultiByte = map (\<lambda>c. char_of (unat c)),
      GetFileAttributesW = (\<lambda>_ _. None), wstat = (\<lambda>_ _. Inl ENOENT),
      wmkdir = (\<lambda>_ w. (False, w)), RemoveDirectoryW = (\<lambda>_ w. (False, w)), DeleteFileW = (\<lambda>_ w. (False, w)),
      MoveFileExW = (\<lambda>_ _ w. (False, w)), CopyFileW = (\<lambda>_ _ w. (False, w)),
      CreateSymbolicLinkW = (\<lambda>_ _ _ w. (False, w)), SetCurrentDirectoryW = (\<lambda>_ w. (False, w)),
      GetCurrentDirectoryW = (\<lambda>_. None), GetEnvironmentVariableW = (\<lambda>_. None), GetLastError = (\<lambda>_. 2),
      FormatMessageW = (\<lambda>_. None), wfopen_rb = (\<lambda>_ w. (None, w)), wfopen_wb = (\<lambda>_ w. (None, w)),
      chmod_win = (\<lambda>_ _ w. (Inl ENOENT, w)), fullpath = (\<lambda>_ _. Inl ENOENT),
      OpenForAttributes = (\<lambda>_ w. (None, w)), GetSystemFileTime = (\<lambda>_. None),
      SetFileTime = (\<lambda>_ _ w. (False, w)), CloseHandle = (\<lambda>_ w. w), FindFirstFileW = (\<lambda>_ _. [])\<rparr>"

definition sample_host :: "platform \<Rightarrow> host" where
  "sample_host p =
     \<lparr>plat = p, ndebug = True, static_lua = True, builtin = True, path_max = 4096, win = bare_win32,
      getenv = (\<lambda>_. None), system = (\<lambda>_ w. (0, w)), errno_number = (\<lambda>_. 2), strerror = (\<lambda>_. ''error''), fnmatch = (\<lambda>mask name. mask = ''*''), has_d_type = True,
      normalize_script = (\<lambda>args. Inr args)\<rparr>"

definition sample_world :: world where
  "sample_world =
     \<lparr>nodes = [([], Directory 0x1ED), ([''home''], Directory 0x1ED), ([''home'', ''a.txt''], Regular 0x1A4 7 ''abc''),
               ([''home'', ''b.txt''], Regular 0x1A4 9 ''abd'')],
      cwd = [''home''], clock = 100, umask = 0x12, directory_stat = (\<lambda>_. (0, 4096)), damaged = (\<lambda>_. None),
      disk_full = False, streams = [], next_stream = 3\<rparr>"

lemma sample_host_fields [simp]:
  "plat (sample_host p) = p" "win (sample_host p) = bare_win32" "system (sample_host p) = (\<lambda>_ w. (0, w))"
  "path_max (sample_host p) = 4096" "getenv (sample_host p) = (\<lambda>_. None)" "builtin (sample_host p)"
  "ndebug (sample_host p)" "has_d_type (sample_host p)" "fnmatch (sample_host p) = (\<lambda>mask name. mask = ''*'')" "errno_number (sample_host p) = (\<lambda>_. 2)" "strerror (sample_host p) = (\<lambda>_. ''error'')"
  by (simp_all add: sample_host_def)

lemma lookup_sample:
  "lookup sample_world p =
     (if p = [] \<or> p = [''home''] then Some (Directory 0x1ED)
      else if p = [''home'', ''a.txt''] then Some (Regular 0x1A4 7 ''abc'')
      else if p = [''home'', ''b.txt''] then Some (Regular 0x1A4 9 ''abd'') else None)"
  by (simp add: lookup_def sample_world_def)

lemma sample_bits [simp]: "may_search 0x1ED" "may_write 0x1ED" "may_read 0x1ED" "\<not> may_search 0x12" "\<not> may_write 0x12"
  "may_read 0x1A4" "may_write 0x1A4"
  by (simp_all add: may_search_def may_write_def may_read_def bit_numeral_word_iff)

lemma wf_sample [simp]: "wf_world sample_world" "cwd_ok sample_world"
proof -
  have "is_dir sample_world []" "is_dir sample_world [''home'']" by (simp_all add: is_dir_iff lookup_sample)
  then show "wf_world sample_world"
    unfolding wf_world_def by (simp add: sample_world_def file_name_def)
  show "cwd_ok sample_world" by (simp add: cwd_ok_def is_link_iff lookup_sample) (simp add: sample_world_def)
qed

end
