(* ===== verification/File_Ops.thy ===== *)
theory File_Ops
  imports Host_API Path_Normalize Path_Resolve
begin

text \<open>
  The built-in functions that look at files and directories and change them: \<open>os_stat.c\<close>,
  \<open>os_isfile.c\<close>, \<open>os_isdir.c\<close>, \<open>os_islink.c\<close>, \<open>os_mkdir.c\<close>, \<open>os_rmdir.c\<close>, \<open>os_remove.c\<close>,
  \<open>os_rename.c\<close>, \<open>os_chdir.c\<close>, \<open>os_getcwd.c\<close>, \<open>os_chmod.c\<close>, \<open>os_copyfile.c\<close>, \<open>os_linkdir.c\<close>,
  \<open>os_linkfile.c\<close> and \<open>os_realpath.c\<close>, on every platform. What they do on POSIX systems follows
  from the file system model; the Windows branches call the Windows API of the host. The bit test
  of \<open>os.isfile\<close> is exact for the three kinds of nodes of the model.
\<close>

section \<open>Looking at files\<close>

definition do_isfile :: "host \<Rightarrow> cstring \<Rightarrow> world \<Rightarrow> bool" where
  "do_isfile h filename w =
     (if windows h then
        (case luaL_convertlstring h filename of
           None \<Rightarrow> False
         | Some wpath \<Rightarrow> (case wstat (win h) wpath w of Inl _ \<Rightarrow> False | Inr buf \<Rightarrow> \<not> wst_isdir buf))
      else (case stat w filename of Inl _ \<Rightarrow> False | Inr p \<Rightarrow> \<not> is_dir w p))"

definition os_isfile :: "host \<Rightarrow> lval list \<Rightarrow> lval list io" where
  "os_isfile h args = checked (luaL_checkstring args 1) (\<lambda>filename w. (Inr [LBool (do_isfile h filename w)], w))"

definition os_isdir :: "host \<Rightarrow> lval list \<Rightarrow> lval list io" where
  "os_isdir h args = checked (luaL_checkstring args 1) (\<lambda>path w.
     if path = [] then (Inr [LBool True], w)
     else if windows h then
       checked (luaL_checkconvertlstring h args 1) (\<lambda>wpath w.
         (Inr [LBool (case GetFileAttributesW (win h) wpath w of None \<Rightarrow> False | Some (d, _) \<Rightarrow> d)], w)) w
     else (Inr [LBool (case stat w path of Inl _ \<Rightarrow> False | Inr p \<Rightarrow> is_dir w p)], w))"

definition os_islink :: "host \<Rightarrow> lval list \<Rightarrow> lval list io" where
  "os_islink h args =
     (if windows h then
        checked (luaL_checkconvertlstring h args 1) (\<lambda>path w.
          (Inr [LBool (case GetFileAttributesW (win h) path w of None \<Rightarrow> False | Some (_, r) \<Rightarrow> r)], w))
      else
        checked (luaL_checkstring args 1) (\<lambda>path w.
          (Inr [LBool (case lstat w path of Inl _ \<Rightarrow> False | Inr p \<Rightarrow> is_link w p)], w)))"

definition stat_error :: "host \<Rightarrow> errno \<Rightarrow> cstring \<Rightarrow> lua_ret" where
  "stat_error h e filename =
     refuse (case e of
        EACCES \<Rightarrow> quoted filename @ '' could not be accessed''
      | ENOENT \<Rightarrow> quoted filename @ '' was not found''
      | _ \<Rightarrow> ''An unknown error '' @ show_int (errno_number h e) @ '' ('' @ strerror h e
             @ '') occurred while accessing '' @ quoted filename)"

definition stat_table :: "int \<Rightarrow> nat \<Rightarrow> lua_ret" where
  "stat_table mtime n = Inr [LTable [(LStr ''mtime'', LInt mtime), (LStr ''size'', LNum (int n))]]"

definition os_stat :: "host \<Rightarrow> lval list \<Rightarrow> lval list io" where
  "os_stat h args =
     (if windows h then
        checked (luaL_checkconvertlstring h args 1) (\<lambda>wfilename.
        checked (luaL_checkstring args 1) (\<lambda>filename w.
          (case wstat (win h) wfilename w of
             Inl e \<Rightarrow> stat_error h e filename
           | Inr s \<Rightarrow> stat_table (wst_mtime s) (wst_size s), w)))
      else
        checked (luaL_checkstring args 1) (\<lambda>filename w.
          (case stat w filename of
             Inl e \<Rightarrow> stat_error h e filename
           | Inr p \<Rightarrow> stat_table (st_mtime w p) (st_size w p), w)))"

section \<open>Directories\<close>

primrec scan_down :: "cstring \<Rightarrow> nat \<Rightarrow> nat option" where
  \<comment> \<open>the loop from the end, below index \<open>i\<close>; \<open>None\<close> stands for -1\<close>
  "scan_down path 0 = None"
| "scan_down path (Suc i) = (if is_sep (path ! i) then Some i else scan_down path i)"

definition last_separator :: "cstring \<Rightarrow> nat option" where
  "last_separator path = scan_down path (length path)"

definition sub_path :: "host \<Rightarrow> cstring \<Rightarrow> nat \<Rightarrow> cstring" where
  "sub_path h path i =
     (if windows h \<and> path ! (i - 1) = CHR '':'' then take i path @ ''/'' else take i path)"

partial_function (option) do_mkdir :: "host \<Rightarrow> cstring \<Rightarrow> world \<Rightarrow> (bool \<times> world) option" where
  "do_mkdir h path w =
     (case (if windows h then
              (case luaL_convertlstring h path of
                 None \<Rightarrow> Some False
               | Some wpath \<Rightarrow> map_option fst (GetFileAttributesW (win h) wpath w))
            else (case stat w path of Inl _ \<Rightarrow> None | Inr p \<Rightarrow> Some (is_dir w p))) of
        Some d \<Rightarrow> Some (d, w)
      | None \<Rightarrow>
          Option.bind
            (case last_separator path of
               None \<Rightarrow> Some (True, w)
             | Some i \<Rightarrow> if i > 0 then do_mkdir h (sub_path h path i) w else Some (True, w))
            (\<lambda>(made, w1).
               if \<not> made then Some (False, w1)
               else if windows h then
                 (case luaL_convertlstring h path of
                    None \<Rightarrow> Some (False, w1)
                  | Some wpath \<Rightarrow> Some (wmkdir (win h) wpath w1))
               else Some (is_ok (sys_mkdir path 0x1FD w1))))"

definition os_mkdir :: "host \<Rightarrow> lval list \<Rightarrow> world \<Rightarrow> (lua_ret \<times> world) option" where
  "os_mkdir h args w =
     (case luaL_checkstring args 1 of
        Inl e \<Rightarrow> Some (Inl e, w)
      | Inr path \<Rightarrow>
          map_option (\<lambda>(z, w1).
            (if z then accept else refuse (''unable to create directory '' @ quoted path), w1))
            (do_mkdir h path w))"

definition bytes_of_wide :: "wstring \<Rightarrow> cstring" where
  \<comment> \<open>what \<open>%s\<close> prints of a wide string: its bytes, low ones first, up to the first zero\<close>
  "bytes_of_wide ws = c_view (concat (map (\<lambda>c. [char_of (unat c mod 256), char_of (unat c div 256)]) ws))"

definition os_rmdir :: "host \<Rightarrow> lval list \<Rightarrow> lval list io" where
  "os_rmdir h args =
     (if windows h then
        checked (luaL_checkconvertlstring h args 1) (\<lambda>path w.
          (case RemoveDirectoryW (win h) path w of
             (True, w1) \<Rightarrow> (accept, w1)
           | (False, w1) \<Rightarrow> (refuse (''unable to remove directory '' @ quoted (bytes_of_wide path)), w1)))
      else
        checked (luaL_checkstring args 1) (\<lambda>path w.
          (case is_ok (if (case lstat w path of Inl _ \<Rightarrow> False | Inr p \<Rightarrow> is_link w p)
                       then sys_unlink path w else sys_rmdir path w) of
             (True, w1) \<Rightarrow> (accept, w1)
           | (False, w1) \<Rightarrow> (refuse (''unable to remove directory '' @ quoted path), w1))))"

definition do_chdir :: "host \<Rightarrow> cstring \<Rightarrow> bool io" where
  "do_chdir h path w =
     (if windows h then
        (case luaL_convertlstring h path of
           None \<Rightarrow> (Inl (LuaError ''unable to encode path''), w)
         | Some wpath \<Rightarrow> apfst Inr (SetCurrentDirectoryW (win h) wpath w))
      else apfst Inr (is_ok (sys_chdir path w)))"

definition os_chdir :: "host \<Rightarrow> lval list \<Rightarrow> lval list io" where
  "os_chdir h args = checked (luaL_checkstring args 1) (\<lambda>path.
     bind_io (do_chdir h path) (\<lambda>z w.
       (if z then accept else refuse (''unable to switch to directory '' @ quoted path), w)))"

definition do_getcwd :: "host \<Rightarrow> nat \<Rightarrow> world \<Rightarrow> cstring option" where
  "do_getcwd h n w =
     (if windows h then
        (case GetCurrentDirectoryW (win h) w of
           None \<Rightarrow> None
         | Some wbuffer \<Rightarrow>
             let s = WideCharToMultiByte (win h) wbuffer in
             if length s = 0 \<or> length s > n - 1 then None else Some (do_translate s SLASH))
      else sys_getcwd n w)"

definition os_getcwd :: "host \<Rightarrow> lval list io" where
  "os_getcwd h w =
     (case do_getcwd h BUFSIZE w of Some buffer \<Rightarrow> (Inr [LStr buffer], w) | None \<Rightarrow> (Inr [], w))"

section \<open>Files\<close>

text \<open>\<open>os.remove\<close> and \<open>os.rename\<close> are the host's own only in Windows builds.\<close>

definition last_error_message :: "host \<Rightarrow> world \<Rightarrow> string" where
  "last_error_message h w =
     (case Option.bind (FormatMessageW (win h) (GetLastError (win h) w)) (luaL_convertwstring h) of
        Some s \<Rightarrow> s
      | None \<Rightarrow> ''<failed to get error message>'')"

definition win_failure :: "host \<Rightarrow> lval list \<Rightarrow> world \<Rightarrow> lua_ret" where
  "win_failure h args w =
     bind_f (lua_pushfstring ''%s: %s (%I)''
        [FmtStr (Option.bind (arg args 1) lua_tostring), FmtStr (Some (last_error_message h w)),
         FmtInt (int (GetLastError (win h) w))])
       (\<lambda>msg. Inr [LNil, LStr msg, LInt (int (GetLastError (win h) w))])"

definition os_remove :: "host \<Rightarrow> lval list \<Rightarrow> lval list io" where
  "os_remove h args = checked (luaL_checkconvertlstring h args 1) (\<lambda>filename w.
     (case DeleteFileW (win h) filename w of
        (True, w1) \<Rightarrow> (accept, w1)
      | (False, w1) \<Rightarrow> (win_failure h args w1, w1)))"

definition os_rename :: "host \<Rightarrow> lval list \<Rightarrow> lval list io" where
  "os_rename h args =
     checked (luaL_checkconvertlstring h args 2) (\<lambda>toname.
     checked (luaL_checkconvertlstring h args 1) (\<lambda>fromname w.
       (case MoveFileExW (win h) fromname toname w of
          (True, w1) \<Rightarrow> (accept, w1)
        | (False, w1) \<Rightarrow> (win_failure h args w1, w1))))"

text \<open>\<open>strtol\<close> to the base 8, on a \<open>long\<close> of 64 bits (32 on Windows), and its conversion to \<open>int\<close>.\<close>

definition is_octal :: "char \<Rightarrow> bool" where
  "is_octal c \<longleftrightarrow> 48 \<le> code c \<and> code c \<le> 55"

definition strtol8 :: "nat \<Rightarrow> cstring \<Rightarrow> int" where
  "strtol8 bits s0 =
     (let s = dropWhile isspace_c s0;
          neg = (peek s = CHR ''-'');
          ds = takeWhile is_octal (if peek s = CHR ''-'' \<or> peek s = CHR ''+'' then tl s else s);
          v = int (foldl (\<lambda>a d. a * 8 + (code d - 48)) 0 ds) in
      max (- (2 ^ (bits - 1))) (min (2 ^ (bits - 1) - 1) (if neg then - v else v)))"

definition to_int32 :: "int \<Rightarrow> int" where
  "to_int32 i = (i + 2 ^ 31) mod 2 ^ 32 - 2 ^ 31"

definition os_chmod :: "host \<Rightarrow> lval list \<Rightarrow> lval list io" where
  "os_chmod h args =
     checked (luaL_checkstring args 1) (\<lambda>path.
     checked (luaL_checkstring args 2) (\<lambda>modeStr w.
       let mode0 = to_int32 (strtol8 (if windows h then 32 else 64) modeStr);
           mode = (if windows h then mode0 mod 2 ^ 16 else mode0) in
       case (if windows h then chmod_win (win h) path mode w else sys_chmod path (word_of_int mode) w) of
         (Inl e, w1) \<Rightarrow>
           (bind_f (lua_pushfstring ''unable to set mode %o on '%s', errno %d : %s''
              [FmtInt mode, FmtStr (Some path), FmtInt (errno_number h e), FmtStr (Some (strerror h e))]) refuse, w1)
       | (Inr _, w1) \<Rightarrow> (accept, w1)))"

definition dquoted :: "cstring \<Rightarrow> string" where
  "dquoted s = CHR 0x22 # s @ [CHR 0x22]"

definition os_copyfile :: "host \<Rightarrow> lval list \<Rightarrow> lval list io" where
  "os_copyfile h args =
     (if windows h then
        checked (luaL_checkconvertlstring h args 2) (\<lambda>dst.
        checked (luaL_checkconvertlstring h args 1) (\<lambda>src w.
          (case CopyFileW (win h) src dst w of
             (True, w1) \<Rightarrow> (accept, w1)
           | (False, w1) \<Rightarrow>
               let ec = GetLastError (win h) w1; to = FmtStr (Option.bind (arg args 2) lua_tostring) in
               ((case Option.bind (FormatMessageW (win h) ec) (luaL_convertwstring h) of
                   Some err \<Rightarrow> bind_f (lua_pushfstring ''unable to copy file to '%s', reason: '%s' (%I)''
                                  [to, FmtStr (Some err), FmtInt (int ec)]) refuse
                 | None \<Rightarrow> bind_f (lua_pushfstring ''unable to copy file to '%s', error code: %I''
                              [to, FmtInt (int ec)]) refuse), w1))))
      else
        checked (luaL_checkstring args 1) (\<lambda>src.
        checked (luaL_checkstring args 2) (\<lambda>dst w.
          (case system h (''cp '' @ dquoted src @ '' '' @ dquoted dst) w of
             (z, w1) \<Rightarrow> (if z = 0 then accept else refuse (''unable to copy file to '' @ quoted dst), w1)))))"

section \<open>Symbolic links\<close>

definition MAX_PATH :: nat where "MAX_PATH = 260"

definition win_link_name :: "host \<Rightarrow> cstring \<Rightarrow> fault + cstring" where
  \<comment> \<open>normalised into a buffer of \<open>MAX_PATH\<close> bytes and translated\<close>
  "win_link_name h path =
     bind_f (do_normalize (normalize_script h) path) (\<lambda>s. map_sum id (\<lambda>t. do_translate t BACKSLASH) (store MAX_PATH s))"

definition do_link :: "host \<Rightarrow> bool \<Rightarrow> cstring \<Rightarrow> cstring \<Rightarrow> bool io" where
  "do_link h directory src dst =
     (if windows h then
        checked (win_link_name h src) (\<lambda>srcPath.
        checked (win_link_name h dst) (\<lambda>dstPath w.
          (case (luaL_convertlstring h srcPath, luaL_convertlstring h dstPath) of
             (Some wSrcPath, Some wDstPath) \<Rightarrow>
               if \<not> do_isabsolute src then
                 (case GetCurrentDirectoryW (win h) w of
                    None \<Rightarrow> (Inl Uninitialised, w)
                  | Some dir \<Rightarrow>
                      if length dir > MAX_PATH then (Inr False, w)
                      else apfst Inr (CreateSymbolicLinkW (win h) wDstPath
                             (take (2 * MAX_PATH) (dir @ [0x5C] @ wSrcPath)) directory w))
               else apfst Inr (CreateSymbolicLinkW (win h) wDstPath wSrcPath directory w)
           | _ \<Rightarrow> (Inr False, w))))
      else if \<not> do_isabsolute src then
        (\<lambda>w. case do_getcwd h (path_max h) w of
               None \<Rightarrow> (Inr False, w)
             | Some dir \<Rightarrow> apfst Inr (is_ok (sys_symlink (take (2 * path_max h) (dir @ ''/'' @ src)) dst w)))
      else (\<lambda>w. apfst Inr (is_ok (sys_symlink src dst w))))"

definition do_linkdir :: "host \<Rightarrow> cstring \<Rightarrow> cstring \<Rightarrow> bool io" where
  "do_linkdir h src dst = do_link h True src dst"

definition do_linkfile :: "host \<Rightarrow> cstring \<Rightarrow> cstring \<Rightarrow> bool io" where
  "do_linkfile h src dst = do_link h False src dst"

definition link_result :: "cstring \<Rightarrow> cstring \<Rightarrow> bool \<Rightarrow> lua_ret" where
  "link_result src dst z =
     (if z then accept else refuse (''Unable to create link from '' @ quoted src @ '' to '' @ quoted dst))"

definition os_linkdir :: "host \<Rightarrow> lval list \<Rightarrow> lval list io" where
  "os_linkdir h args =
     checked (luaL_checkstring args 1) (\<lambda>src. checked (luaL_checkstring args 2) (\<lambda>dst.
       bind_io (do_linkdir h src dst) (\<lambda>z w. (link_result src dst z, w))))"

definition os_linkfile :: "host \<Rightarrow> lval list \<Rightarrow> lval list io" where
  "os_linkfile h args =
     checked (luaL_checkstring args 1) (\<lambda>src. checked (luaL_checkstring args 2) (\<lambda>dst.
       bind_io (do_linkfile h src dst) (\<lambda>z w. (link_result src dst z, w))))"

section \<open>Absolute names\<close>

text \<open>\<open>do_getabsolute\<close> in the current directory, which it reads without a check, and only where it is needed.\<close>

definition getabsolute_in :: "host \<Rightarrow> cstring \<Rightarrow> cstring option \<Rightarrow> world \<Rightarrow> fault + cstring" where
  "getabsolute_in h value relative_to w =
     (case do_getcwd h BUFSIZE w of
        Some d \<Rightarrow> do_getabsolute d value relative_to
      | None \<Rightarrow> if do_isabsolute value \<or> relative_to \<noteq> None then do_getabsolute [] value relative_to
                else Inl Uninitialised)"

definition is_posix :: "platform \<Rightarrow> bool" where
  "is_posix p \<longleftrightarrow> p \<in> {Linux, Bsd, Macosx, Solaris, Haiku, Hurd, Cosmo}"

definition os_realpath :: "host \<Rightarrow> lval list \<Rightarrow> lval list io" where
  "os_realpath h args = checked (luaL_checkstring args 1) (\<lambda>path w.
     (bind_f (if is_posix (plat h) then Inr (sys_realpath w path)
              else if windows h then Inr (fullpath (win h) path w)
              else bind_f (getabsolute_in h path None w) (\<lambda>s. map_sum id Inr (store (path_max h) s)))
        (\<lambda>r. case r of
               Inl e \<Rightarrow> bind_f (lua_pushfstring ''unable to fetch real path of '%s', errno %d : %s''
                          [FmtStr (Some path), FmtInt (errno_number h e), FmtStr (Some (strerror h e))]) refuse
             | Inr s \<Rightarrow> Inr [LStr s]), w))"

section \<open>\<open>os.mkdir\<close>\<close>

lemma scan_down_less: "scan_down path n = Some i \<Longrightarrow> i < n"
  by (induction n) (auto split: if_splits)

lemma last_separator_less: "last_separator path = Some i \<Longrightarrow> i < length path"
  unfolding last_separator_def by (rule scan_down_less)

lemma scan_down_skip:
  "m \<le> n \<Longrightarrow> \<forall>j. m \<le> j \<and> j < n \<longrightarrow> \<not> is_sep (path ! j) \<Longrightarrow> scan_down path n = scan_down path m"
proof (induction n)
  case (Suc n)
  then show ?case by (cases "m = Suc n") auto
qed simp

lemma last_separator_append:
  assumes "is_sep x" and "\<forall>c \<in> set s. \<not> is_sep c"
  shows "last_separator (p @ x # s) = Some (length p)"
proof -
  have "\<not> is_sep ((p @ x # s) ! j)" if le: "Suc (length p) \<le> j" and lt: "j < length (p @ x # s)" for j
  proof -
    obtain d where d: "j = length p + Suc d" using le_Suc_ex [OF le] by auto
    then have "(p @ x # s) ! j = s ! d" by (simp only: nth_append_length_plus nth_Cons_Suc)
    moreover have "d < length s" using lt d by simp
    ultimately show ?thesis using assms(2) by simp
  qed
  then have "scan_down (p @ x # s) (length (p @ x # s)) = scan_down (p @ x # s) (Suc (length p))"
    by (intro scan_down_skip allI impI) (simp, blast)
  with assms(1) show ?thesis by (simp add: last_separator_def)
qed

lemma last_separator_None: "\<forall>c \<in> set s. \<not> is_sep c \<Longrightarrow> last_separator s = None"
  using scan_down_skip [of 0 "length s" s] by (simp add: last_separator_def)

lemma do_mkdir_posix:
  assumes "\<not> windows h"
  shows "do_mkdir h path w =
    (case stat w path of
       Inr p \<Rightarrow> Some (is_dir w p, w)
     | Inl _ \<Rightarrow>
         Option.bind
           (case last_separator path of
              None \<Rightarrow> Some (True, w)
            | Some i \<Rightarrow> if i > 0 then do_mkdir h (take i path) w else Some (True, w))
           (\<lambda>(made, w1). if \<not> made then Some (False, w1) else Some (is_ok (sys_mkdir path 0x1FD w1))))"
proof -
  have "sub_path h path = (\<lambda>i. take i path)" using assms by (simp add: sub_path_def fun_eq_iff)
  then show ?thesis using assms
    by (subst do_mkdir.simps) (cases "last_separator path"; simp cong: if_cong split: sum.splits)
qed

text \<open>What a run of \<open>do_mkdir\<close> may do to the machine: it only adds directories.\<close>

definition grows :: "world \<Rightarrow> world \<Rightarrow> bool" where
  "grows w w' \<longleftrightarrow> wf_world w' \<and> cwd_ok w' \<and> umask w' = umask w \<and> cwd w' = cwd w
     \<and> (\<forall>q. lookup w q \<noteq> None \<longrightarrow> lookup w' q = lookup w q)
     \<and> (\<forall>q. lookup w q = None \<and> lookup w' q \<noteq> None \<longrightarrow> lookup w' q = Some (dir_node 0x1FD w))"

lemma grows_refl: "wf_world w \<Longrightarrow> cwd_ok w \<Longrightarrow> grows w w"
  by (auto simp: grows_def)

lemma grows_put:
  assumes "grows w w1" and "lookup w1 p = None" and "wf_world (put p (dir_node 0x1FD w1) w1)"
    and "cwd_ok (put p (dir_node 0x1FD w1) w1)"
  shows "grows w (put p (dir_node 0x1FD w1) w1)"
  using assms by (auto simp: grows_def dir_node_def)

lemma is_dir_put_dir: "is_dir (put p (dir_node m v) w) p"
  by (simp add: is_dir_iff dir_node_def)

lemma search_mkdir_mode [simp]: "may_search 0x1FD" "may_write 0x1FD"
  by (simp_all add: may_search_def may_write_def bit_numeral_word_iff)

lemma do_mkdir_grows:
  assumes "\<not> windows h" and "wf_world w" and "cwd_ok w" and "\<not> may_search (umask w)"
  obtains z w' where "do_mkdir h path w = Some (z, w')" "grows w w'"
    "z \<Longrightarrow> \<exists>p. stat w' path = Inr p \<and> is_dir w' p"
  using assms
proof (induction "length path" arbitrary: path thesis rule: less_induct)
  case less
  note rec = do_mkdir_posix [OF less.prems(2), of path w]
  show ?case
  proof (cases "stat w path")
    case (Inr p)
    with rec less.prems show ?thesis
      by (intro less.prems(1) [of "is_dir w p" w]) (auto simp: grows_refl)
  next
    case (Inl e)
    let ?sub = "case last_separator path of None \<Rightarrow> Some (True, w)
      | Some i \<Rightarrow> if i > 0 then do_mkdir h (take i path) w else Some (True, w)"
    have "\<exists>z1 w1. ?sub = Some (z1, w1) \<and> grows w w1"
    proof (cases "last_separator path")
      case None
      with less.prems show ?thesis by (auto simp: grows_refl)
    next
      case (Some i)
      note i = last_separator_less [OF Some]
      show ?thesis
      proof (cases "i > 0")
        case True
        have "length (take i path) < length path" using i by simp
        from less.hyps [OF this] less.prems(2-) obtain z1 w1
          where "do_mkdir h (take i path) w = Some (z1, w1)" "grows w w1" by metis
        with True Some show ?thesis by auto
      qed (use less.prems Some in \<open>auto simp: grows_refl\<close>)
    qed
    then obtain z1 w1 where sub: "?sub = Some (z1, w1)" and g: "grows w w1" by blast
    show ?thesis
    proof (cases z1)
      case False
      with rec Inl sub g show ?thesis by (intro less.prems(1) [of False w1]) simp_all
    next
      case True
      then have run: "do_mkdir h path w = Some (is_ok (sys_mkdir path 0x1FD w1))"
        using rec Inl sub by simp
      have w1: "wf_world w1" "cwd_ok w1" "\<not> may_search (umask w1)"
        using g less.prems(5) by (auto simp: grows_def)
      show ?thesis
      proof (rule sys_mkdir_cases [OF w1(1,2) search_mkdir_mode(1) w1(3), of path])
        fix e assume "sys_mkdir path 0x1FD w1 = (Inl e, w1)"
        with run g show ?thesis by (intro less.prems(1) [of False w1]) simp_all
      next
        fix p assume "sys_mkdir path 0x1FD w1 = (Inr (), put p (dir_node 0x1FD w1) w1)" "lookup w1 p = None"
          "wf_world (put p (dir_node 0x1FD w1) w1)" "cwd_ok (put p (dir_node 0x1FD w1) w1)"
          "stat (put p (dir_node 0x1FD w1) w1) path = Inr p"
        with run g show ?thesis
          by (intro less.prems(1) [of True "put p (dir_node 0x1FD w1) w1"])
            (simp_all add: grows_put is_dir_put_dir)
      qed
    qed
  qed
qed

text \<open>C10: \<open>os.mkdir\<close> on POSIX systems always returns; what it returns as success is a directory
  afterwards; and whether it succeeds or not, it only ever adds directories with the permissions
  0775 (less the mask): nothing that existed is changed or removed, and the file system stays well formed.\<close>

theorem os_mkdir_outcome:
  assumes "plat h \<noteq> Windows" and "wf_world w" and "cwd_ok w" and "\<not> may_search (umask w)"
    and "is_cstring path"
  shows "\<exists>z w'. os_mkdir h [LStr path] w =
           Some (if z then accept else refuse (''unable to create directory '' @ quoted path), w')
       \<and> (z \<longrightarrow> (\<exists>p. stat w' path = Inr p \<and> is_dir w' p))
       \<and> wf_world w' \<and> cwd w' = cwd w
       \<and> (\<forall>q. lookup w q \<noteq> None \<longrightarrow> lookup w' q = lookup w q)
       \<and> (\<forall>q. lookup w q = None \<and> lookup w' q \<noteq> None \<longrightarrow> lookup w' q = Some (dir_node 0x1FD w))"
proof -
  obtain z w' where run: "do_mkdir h path w = Some (z, w')" and g: "grows w w'"
    and z: "z \<Longrightarrow> \<exists>p. stat w' path = Inr p \<and> is_dir w' p"
    using do_mkdir_grows [OF assms(1-4), of path] by blast
  have "os_mkdir h [LStr path] w =
      Some (if z then accept else refuse (''unable to create directory '' @ quoted path), w')"
    using run assms(5) by (simp add: os_mkdir_def)
  with z g show ?thesis unfolding grows_def by (intro exI [of _ z] exI [of _ w']) simp
qed

theorem os_mkdir_outcome_witness:
  "\<exists>z w'. os_mkdir (sample_host Linux) [LStr ''../srv/x''] sample_world =
           Some (if z then accept else refuse (''unable to create directory '' @ quoted ''../srv/x''), w')
       \<and> (z \<longrightarrow> (\<exists>p. stat w' ''../srv/x'' = Inr p \<and> is_dir w' p))"
proof -
  have "\<not> may_search (umask sample_world)" by (simp add: sample_world_def)
  from os_mkdir_outcome [OF _ wf_sample this, of "sample_host Linux" "''../srv/x''"] show ?thesis by auto
qed

text \<open>A path of fresh and existing directories, from the root.\<close>

definition plain_way :: "cstring list \<Rightarrow> bool" where
  "plain_way cs \<longleftrightarrow> (\<forall>c \<in> set cs. file_name c \<and> is_cstring c \<and> BACKSLASH \<notin> set c)"

definition open_way :: "world \<Rightarrow> cstring list \<Rightarrow> bool" where
  \<comment> \<open>what exists on the way are directories that may be searched and written\<close>
  "open_way w cs \<longleftrightarrow> (\<forall>q. prefix q cs \<and> lookup w q \<noteq> None \<longrightarrow>
     (\<exists>m. lookup w q = Some (Directory m) \<and> may_search m \<and> may_write m))"

definition with_way :: "world \<Rightarrow> cstring list \<Rightarrow> place \<Rightarrow> node option" where
  "with_way w cs q = (if lookup w q = None \<and> prefix q cs then Some (dir_node 0x1FD w) else lookup w q)"

lemma way_parents:
  assumes "wf_world w" and "lookup w q \<noteq> None" and "prefix p q"
  shows "lookup w p \<noteq> None"
proof -
  obtain r where q: "q = p @ r" using assms(3) by (auto simp: prefix_def)
  have "lookup w (p @ r) \<noteq> None \<Longrightarrow> lookup w p \<noteq> None"
  proof (induction r rule: rev_induct)
    case (snoc c r)
    with wf_worldD(3) [OF assms(1) snoc.prems] show ?case by (auto simp: is_dir_iff butlast_append)
  qed simp
  with assms(2) q show ?thesis by blast
qed

lemma open_way_dir: "open_way w cs \<Longrightarrow> prefix q cs \<Longrightarrow> lookup w q \<noteq> None \<Longrightarrow>
    \<exists>m. lookup w q = Some (Directory m) \<and> may_search m \<and> may_write m"
  unfolding open_way_def by blast

lemma way_find_target:
  assumes "wf_world w" and "open_way w (butlast cs)" and "plain_way cs" and "cs \<noteq> []" and "lookup w (butlast cs) \<noteq> None"
    and "\<not> is_link w cs"
  shows "find_place w fl (path_of cs) = Inr cs"
proof -
  have names: "\<forall>c \<in> set cs. file_name c" and slash: "\<forall>c \<in> set cs. SLASH \<notin> set c"
    using assms(3) by (auto simp: plain_way_def file_name_def)
  have before: "\<exists>m. lookup w (take k cs) = Some (Directory m) \<and> may_search m" if "k < length cs" for k
  proof -
    have p: "prefix (take k cs) (butlast cs)"
      using that by (metis One_nat_def Suc_pred butlast_conv_take diff_less_Suc less_Suc_eq_le min.absorb1 not_less_eq
          take_is_prefix take_take zero_less_iff_neq_zero length_greater_0_conv less_nat_zero_code list.size(3))
    then have "lookup w (take k cs) \<noteq> None" using way_parents [OF assms(1,5)] by blast
    then show ?thesis using open_way_dir [OF assms(2) p] by auto
  qed
  obtain m where root: "lookup w [] = Some (Directory m)" "may_search m" using before [of 0] assms(4) by auto
  have "walks w fl SYMLOOP_MAX [] cs ([] @ cs)"
    using names before assms(6) by (intro walks_plain) simp_all
  then have "walks w fl SYMLOOP_MAX [] ([] # cs) cs" using root by (auto intro: walks.stay)
  with slash assms(4) show ?thesis
    by (simp add: find_place_iff comps_path_of)
qed

lemma open_way_butlast: "open_way w cs \<Longrightarrow> open_way w (butlast cs)"
  unfolding open_way_def by (meson prefix_order.trans prefixeq_butlast)

lemma way_find_place:
  assumes "wf_world w" and "open_way w cs" and "plain_way cs" and "cs \<noteq> []" and "lookup w (butlast cs) \<noteq> None"
  shows "find_place w fl (path_of cs) = Inr cs"
proof (rule way_find_target [OF assms(1) open_way_butlast [OF assms(2)] assms(3-5)])
  show "\<not> is_link w cs" using open_way_dir [OF assms(2), of cs] by (cases "lookup w cs") (auto simp: is_link_iff)
qed

lemma way_stat:
  assumes "wf_world w" and "open_way w cs" and "plain_way cs" and "cs \<noteq> []" and "lookup w cs = None"
  shows "\<exists>e. stat w (path_of cs) = Inl e"
proof (rule ccontr)
  assume "\<not> ?thesis"
  then obtain p where p: "find_place w True (path_of cs) = Inr p" "lookup w p \<noteq> None"
    by (cases "stat w (path_of cs)") (auto simp: stat_def)
  have names: "\<forall>c \<in> set cs. file_name c" and slash: "\<forall>c \<in> set cs. SLASH \<notin> set c"
    using assms(3) by (auto simp: plain_way_def file_name_def)
  have links: "\<not> is_link w q" if "prefix q cs" for q
    using open_way_dir [OF assms(2) that] by (cases "lookup w q") (auto simp: is_link_iff)
  have "walks w True SYMLOOP_MAX [] ([] # cs) p"
    using p(1) slash assms(4) by (simp add: find_place_iff comps_path_of)
  then have "walks w True SYMLOOP_MAX [] cs p" by (cases rule: walks.cases) auto
  then have "p = [] @ cs" by (rule walks_plain_unique) (simp_all add: names links take_is_prefix)
  with p(2) assms(5) show False by simp
qed

lemma open_way_with:
  assumes "open_way w cs" and "\<not> may_search (umask w)" and "\<not> may_write (umask w)"
    and "\<forall>q. lookup w1 q = with_way w ds q" and "prefix ds cs"
  shows "open_way w1 cs"
  unfolding open_way_def
proof (intro allI impI)
  fix q assume q: "prefix q cs \<and> lookup w1 q \<noteq> None"
  show "\<exists>m. lookup w1 q = Some (Directory m) \<and> may_search m \<and> may_write m"
  proof (cases "lookup w q = None")
    case True
    with q assms(2,3,4) show ?thesis by (auto simp: with_way_def dir_node_def split: if_splits)
  next
    case False
    with q open_way_dir [OF assms(1), of q] assms(4) show ?thesis by (auto simp: with_way_def)
  qed
qed

lemma do_mkdir_way:
  assumes "\<not> windows h" and "wf_world w" and "cwd_ok w" and mask: "\<not> may_search (umask w)" "\<not> may_write (umask w)"
    and "open_way w cs" and "plain_way cs" and "cs \<noteq> []"
  shows "\<exists>w'. do_mkdir h (path_of cs) w = Some (True, w') \<and> grows w w' \<and> (\<forall>q. lookup w' q = with_way w cs q)"
  using assms(6-8)
proof (induction cs rule: rev_induct)
  case (snoc c ds)
  let ?path = "path_of (ds @ [c])"
  note rec = do_mkdir_posix [OF assms(1), of ?path w]
  show ?case
  proof (cases "lookup w (ds @ [c]) = None")
    case False
    then have parents: "lookup w q \<noteq> None" if "prefix q (ds @ [c])" for q
      using way_parents [OF assms(2) _ that] by blast
    then have "find_place w True ?path = Inr (ds @ [c])"
      using snoc.prems by (intro way_find_place assms(2)) simp_all
    with False have "stat w ?path = Inr (ds @ [c])" by (simp add: stat_def)
    moreover have "is_dir w (ds @ [c])"
      using open_way_dir [OF snoc.prems(1) _ False] by (auto simp: is_dir_iff)
    moreover have "with_way w (ds @ [c]) q = lookup w q" for q
      using parents [of q] by (auto simp: with_way_def)
    ultimately show ?thesis using rec assms(2,3) by (simp add: grows_refl)
  next
    case True
    have cnames: "file_name c" "BACKSLASH \<notin> set c" "SLASH \<notin> set c"
      using snoc.prems(2) by (simp_all add: plain_way_def file_name_def)
    have nosep: "\<forall>x \<in> set c. \<not> is_sep x" unfolding is_sep_def using cnames(2,3) by metis
    obtain e where e: "stat w ?path = Inl e" using way_stat [OF assms(2) snoc.prems(1,2) _ True] by auto
    have ls: "last_separator ?path = Some (if ds = [] then 0 else length (path_of ds))"
      using last_separator_append [OF is_sep_simps(1) nosep, of "if ds = [] then [] else path_of ds"]
      by (simp add: path_of_snoc)
    have "\<exists>w1. (case last_separator ?path of None \<Rightarrow> Some (True, w)
        | Some i \<Rightarrow> if i > 0 then do_mkdir h (take i ?path) w else Some (True, w)) = Some (True, w1)
        \<and> grows w w1 \<and> (\<forall>q. lookup w1 q = with_way w ds q)"
    proof (cases "ds = []")
      case True
      have "lookup w [] \<noteq> None" using wf_worldD(1) [OF assms(2)] by (auto simp: is_dir_iff)
      then have "lookup w q = with_way w [] q" for q by (auto simp: with_way_def)
      with True ls assms(2,3) show ?thesis by (auto intro: grows_refl)
    next
      case False
      have "open_way w ds" "plain_way ds" using snoc.prems(1,2) by (auto simp: open_way_def plain_way_def)
      from snoc.IH [OF this False] False ls show ?thesis by (auto simp: path_of_snoc)
    qed
    then obtain w1 where w1: "do_mkdir h ?path w = Some (is_ok (sys_mkdir ?path 0x1FD w1))"
        "grows w w1" "\<forall>q. lookup w1 q = with_way w ds q"
      using rec e by auto
    have free: "lookup w1 (ds @ [c]) = None" using True w1(3) by (simp add: with_way_def)
    have dsn: "lookup w1 ds \<noteq> None" using w1(3) by (simp add: with_way_def)
    have ow: "open_way w1 (ds @ [c])" using open_way_with [OF snoc.prems(1) mask w1(3)] by simp
    have "find_place w1 False ?path = Inr (ds @ [c])"
      using w1(2) ow snoc.prems dsn by (intro way_find_place) (simp_all add: grows_def)
    moreover obtain m where "lookup w1 ds = Some (Directory m)" "may_write m"
      using open_way_dir [OF ow _ dsn] by auto
    moreover have um: "umask w1 = umask w" using w1(2) by (simp add: grows_def)
    ultimately have mk: "sys_mkdir ?path 0x1FD w1 = (Inr (), put (ds @ [c]) (dir_node 0x1FD w1) w1)"
      using free cnames by (simp add: sys_mkdir_def path_of_no_trailing file_name_def create_Inr dir_node_def)
    have dn: "dir_node 0x1FD w1 = dir_node 0x1FD w" using um by (simp add: dir_node_def)
    have "grows w (put (ds @ [c]) (dir_node 0x1FD w1) w1)"
    proof (rule grows_put [OF w1(2) free])
      show "wf_world (put (ds @ [c]) (dir_node 0x1FD w1) w1)"
        using wf_sys_mkdir [where w = w1 and path = ?path and m = "0x1FD"] w1(2) mk by (simp add: grows_def)
      show "cwd_ok (put (ds @ [c]) (dir_node 0x1FD w1) w1)"
        using w1(2) free by (auto simp: grows_def cwd_ok_def is_link_iff dir_node_def)
    qed
    moreover have "lookup (put (ds @ [c]) (dir_node 0x1FD w1) w1) q = with_way w (ds @ [c]) q" for q
      using w1(3) True by (auto simp: with_way_def dn)
    ultimately show ?thesis using w1(1) mk by auto
  qed
qed simp

text \<open>C35: \<open>os.mkdir\<close> of an absolute path of plain names makes exactly the directories of the path that
  are missing, each with the permissions 0775 less the mask, when those that exist may be searched
  and written; everything else stays as it is.\<close>

theorem os_mkdir_makes_way:
  assumes "plat h \<noteq> Windows" and "wf_world w" and "cwd_ok w" and "\<not> may_search (umask w)" and "\<not> may_write (umask w)"
    and "open_way w cs" and "plain_way cs" and "cs \<noteq> []"
  shows "\<exists>w'. os_mkdir h [LStr (path_of cs)] w = Some (accept, w')
    \<and> (\<forall>q. lookup w' q = (if lookup w q = None \<and> prefix q cs then Some (dir_node 0x1FD w) else lookup w q))"
proof -
  have "is_cstring (path_of cs)"
    using assms(7) by (auto simp: plain_way_def path_of_def is_cstring_def)
  with do_mkdir_way [OF assms] show ?thesis by (auto simp: os_mkdir_def with_way_def)
qed

theorem os_mkdir_makes_way_witness:
  "\<exists>w'. os_mkdir (sample_host Linux) [LStr (path_of [''home'', ''x'', ''y''])] sample_world = Some (accept, w')
    \<and> lookup w' [''home'', ''x'', ''y''] = Some (Directory 0x1ED) \<and> lookup w' [''home'', ''b.txt''] = Some (Regular 0x1A4 9 ''abd'')"
proof -
  have m: "\<not> may_search (umask sample_world)" "\<not> may_write (umask sample_world)" by (simp_all add: sample_world_def)
  have o: "open_way sample_world [''home'', ''x'', ''y'']"
    unfolding open_way_def by (auto simp: lookup_sample prefix_Cons)
  have p: "plain_way [''home'', ''x'', ''y'']" by (simp add: plain_way_def file_name_def)
  have d: "dir_node 0x1FD sample_world = Directory 0x1ED" by (simp add: dir_node_def sample_world_def)
  show ?thesis
    using os_mkdir_makes_way [of "sample_host Linux", OF _ wf_sample m o p] by (auto simp: d lookup_sample)
qed

lemma do_mkdir_trailing:
  assumes "\<not> windows h" and "wf_world w" and "cwd_ok w" and mask: "\<not> may_search (umask w)" "\<not> may_write (umask w)"
    and "open_way w cs" and "plain_way cs" and "cs \<noteq> []"
  shows "\<exists>w'. do_mkdir h (path_of cs @ ''/'') w = Some (lookup w cs \<noteq> None, w') \<and> grows w w' \<and> (\<forall>q. lookup w' q = with_way w cs q)"
proof (cases "lookup w cs = None")
  case False
  have up: "lookup w (butlast cs) \<noteq> None"
    using way_parents [OF assms(2) False] by (simp add: prefixeq_butlast)
  obtain m where m: "lookup w cs = Some (Directory m)" "may_search m"
    using open_way_dir [OF assms(6) _ False] by auto
  have rooted: "is_rooted (path_of cs @ ''/'')"
    using path_of_rooted [of cs] by (cases "path_of cs") (simp_all add: is_rooted_def)
  have "walks w True SYMLOOP_MAX [] (comps (path_of cs)) cs"
    using way_find_place [OF assms(2,6-8) up, of True] by (simp add: find_place_iff)
  from walks_empties [OF this m, of 1] have "walks w True SYMLOOP_MAX [] (comps (path_of cs @ ''/'')) cs"
    using comps_slashes [of "path_of cs" 1] by simp
  then have "stat w (path_of cs @ ''/'') = Inr cs" using rooted False by (simp add: stat_def find_place_iff)
  moreover have "with_way w cs q = lookup w q" for q
    using way_parents [OF assms(2) False, of q] by (auto simp: with_way_def)
  ultimately show ?thesis
    using do_mkdir_posix [OF assms(1), of "path_of cs @ ''/''" w] assms(2,3) m by (simp add: is_dir_iff grows_refl)
next
  case True
  let ?path = "path_of cs @ [SLASH]"
  obtain w1 where w1: "do_mkdir h (path_of cs) w = Some (True, w1)" "grows w w1" "\<forall>q. lookup w1 q = with_way w cs q"
    using do_mkdir_way [OF assms] by blast
  obtain e where e: "stat w ?path = Inl e"
  proof (cases "stat w ?path")
    case (Inr p)
    have "is_rooted ?path" using path_of_rooted [of cs] by (cases "path_of cs") (simp_all add: is_rooted_def)
    then have "walks w True SYMLOOP_MAX [] (comps (path_of cs) @ [[]]) p" "lookup w p \<noteq> None"
      using Inr comps_slashes [of "path_of cs" 1] by (simp_all add: stat_def find_place_iff)
    then have "stat w (path_of cs) = Inr p"
      by (auto simp: stat_def find_place_iff dest: walks_drop_empty)
    with way_stat [OF assms(2,6,7,8) True] show ?thesis by simp
  qed blast
  have ls: "last_separator ?path = Some (length (path_of cs))"
    using last_separator_append [of SLASH "[]" "path_of cs"] by simp
  have nt: "no_trailing ?path = path_of cs"
    using path_of_no_trailing [of "last cs" "butlast cs"] assms(7,8)
    by (simp add: no_trailing_def plain_way_def file_name_def)
  have "lookup w1 (butlast cs) \<noteq> None" "lookup w1 cs \<noteq> None" using w1(3)
    by (simp_all add: with_way_def prefixeq_butlast)
  moreover have "open_way w1 cs" using open_way_with [OF assms(6) mask w1(3)] by simp
  ultimately have "sys_mkdir ?path 0x1FD w1 = (Inl EEXIST, w1)"
    using way_find_place [of w1 cs False] w1(2) assms(7,8) by (simp add: sys_mkdir_def nt grows_def create_def)
  then have "do_mkdir h ?path w = Some (False, w1)"
    using do_mkdir_posix [OF assms(1), of ?path w] e ls w1(1) by (simp add: is_ok_def)
  with w1(2,3) True show ?thesis by simp
qed

text \<open>With a slash at its end, the same path is refused although all its directories are made: the
  scan finds the slash, makes the directory before it, and then tries to make it again.\<close>

theorem os_mkdir_trailing_slash:
  assumes "plat h \<noteq> Windows" and "wf_world w" and "cwd_ok w" and "\<not> may_search (umask w)" and "\<not> may_write (umask w)"
    and "open_way w cs" and "plain_way cs" and "cs \<noteq> []" and "lookup w cs = None"
  shows "\<exists>w'. os_mkdir h [LStr (path_of cs @ ''/'')] w =
      Some (refuse (''unable to create directory '' @ quoted (path_of cs @ ''/'')), w')
    \<and> (\<forall>q. lookup w' q = (if lookup w q = None \<and> prefix q cs then Some (dir_node 0x1FD w) else lookup w q))"
proof -
  have "is_cstring (path_of cs @ ''/'')" using assms(7) by (auto simp: plain_way_def path_of_def is_cstring_def)
  with do_mkdir_trailing [OF assms(1-8)] assms(9) show ?thesis by (auto simp: os_mkdir_def with_way_def)
qed

theorem os_mkdir_trailing_slash_witness:
  "\<exists>w'. os_mkdir (sample_host Linux) [LStr (path_of [''home'', ''x''] @ ''/'')] sample_world =
     Some (refuse (''unable to create directory '' @ quoted (path_of [''home'', ''x''] @ ''/'')), w')
   \<and> lookup w' [''home'', ''x''] = Some (Directory 0x1ED)"
proof -
  have m: "\<not> may_search (umask sample_world)" "\<not> may_write (umask sample_world)" by (simp_all add: sample_world_def)
  have o: "open_way sample_world [''home'', ''x'']"
    unfolding open_way_def by (auto simp: lookup_sample prefix_Cons)
  have p: "plain_way [''home'', ''x'']" by (simp add: plain_way_def file_name_def)
  have d: "dir_node 0x1FD sample_world = Directory 0x1ED" by (simp add: dir_node_def sample_world_def)
  have f: "lookup sample_world [''home'', ''x''] = None" by (simp add: lookup_sample)
  show ?thesis
    using os_mkdir_trailing_slash [of "sample_host Linux", OF _ wf_sample m o p _ f] by (auto simp: d lookup_sample)
qed

subsection \<open>A drive that does not exist\<close>

lemma do_mkdir_loops:
  assumes "windows h"
    and "luaL_convertlstring h [d, CHR '':'', SLASH] = Some root" and "GetFileAttributesW (win h) root w = None"
  shows "do_mkdir h [d, CHR '':'', SLASH] w = None"
proof (rule ccontr)
  have never: "do_mkdir h' path' w' = Some y \<Longrightarrow> \<not> (h' = h \<and> path' = [d, CHR '':'', SLASH] \<and> w' = w)" for h' path' w' y
  proof (erule do_mkdir.raw_induct [rotated], goal_cases)
    case (1 f h' path' w' y)
    show ?case
    proof
      assume at: "h' = h \<and> path' = [d, CHR '':'', SLASH] \<and> w' = w"
      have "last_separator [d, CHR '':'', SLASH] = Some 2"
        using last_separator_append [of SLASH "[]" "[d, CHR '':'']"] by simp
      moreover have "sub_path h [d, CHR '':'', SLASH] 2 = [d, CHR '':'', SLASH]"
        using assms(1) by (simp add: sub_path_def numeral_2_eq_2)
      ultimately obtain z where "f h [d, CHR '':'', SLASH] w = Some z"
        using 1(2) at assms by (auto simp: bind_eq_Some_conv)
      from 1(1) [OF this] show False by simp
    qed
  qed
  assume "do_mkdir h [d, CHR '':'', SLASH] w \<noteq> None"
  then obtain y where "do_mkdir h [d, CHR '':'', SLASH] w = Some y" by blast
  from never [OF this] show False by blast
qed

text \<open>On Windows, \<open>os.mkdir\<close> of a path on a drive that does not exist never returns: below the root
  of the drive there is again the root of the drive.\<close>

theorem os_mkdir_missing_drive:
  assumes "plat h = Windows" and "is_cstring (d # CHR '':'' # SLASH # name)" and "\<forall>c \<in> set name. \<not> is_sep c"
    and "luaL_convertlstring h (d # CHR '':'' # SLASH # name) = Some wp" and "GetFileAttributesW (win h) wp w = None"
    and "luaL_convertlstring h [d, CHR '':'', SLASH] = Some root" and "GetFileAttributesW (win h) root w = None"
  shows "os_mkdir h [LStr (d # CHR '':'' # SLASH # name)] w = None"
proof -
  have "last_separator (d # CHR '':'' # SLASH # name) = Some 2"
    using last_separator_append [OF is_sep_simps(1) assms(3), of "[d, CHR '':'']"] by simp
  moreover have "sub_path h (d # CHR '':'' # SLASH # name) 2 = [d, CHR '':'', SLASH]"
    using assms(1) by (simp add: sub_path_def numeral_2_eq_2)
  moreover have "do_mkdir h [d, CHR '':'', SLASH] w = None"
    using assms by (intro do_mkdir_loops [where root = root]) simp_all
  ultimately have "do_mkdir h (d # CHR '':'' # SLASH # name) w = None"
    using assms(1,4,5) by (subst do_mkdir.simps) simp
  with assms(2) show ?thesis by (simp add: os_mkdir_def)
qed

theorem os_mkdir_missing_drive_witness: "os_mkdir (sample_host Windows) [LStr ''Q:/x''] sample_world = None"
  by (rule os_mkdir_missing_drive [where wp = "map (\<lambda>c. word_of_nat (code c)) ''Q:/x''"
        and root = "map (\<lambda>c. word_of_nat (code c)) ''Q:/''"])
    (simp_all add: bare_win32_def luaL_convertlstring_def is_sep_def)

section \<open>Removing and moving\<close>

lemma remove_entry_Inr:
  "remove_entry p w = (Inr (), w') \<longleftrightarrow>
     w' = cut p w \<and> (\<exists>m. lookup w (butlast p) = Some (Directory m) \<and> may_write m)"
  by (auto simp: remove_entry_def parent_mode_def split: option.splits node.splits)

lemma on_place_Inr: "on_place r f w = (Inr (), w') \<longleftrightarrow> (\<exists>p. r = Inr p \<and> f p w = (Inr (), w'))"
  by (cases r) auto

lemma is_ok_True: "is_ok r = (True, w') \<longleftrightarrow> r = (Inr (), w')"
  by (cases r) (auto simp: is_ok_def)

text \<open>What \<open>os.rmdir\<close> removes on POSIX systems is one entry of a directory: a symbolic link, never what
  it leads to, or an empty directory other than the root, never a file.\<close>

theorem os_rmdir_removes_one:
  assumes "plat h \<noteq> Windows" and "is_cstring path" and "wf_world w" and "os_rmdir h [LStr path] w = (accept, w')"
  shows "\<exists>p. lstat w path = Inr p \<and> p \<noteq> [] \<and> w' = cut p w \<and> wf_world w'
    \<and> (is_link w p \<or> is_dir w p \<and> (\<forall>c. lookup w (p @ [c]) = None))"
proof -
  have wf: "wf_world (snd (sys_unlink path w))" "wf_world (snd (sys_rmdir path w))"
    using assms(3) by (simp_all add: wf_calls)
  from assms(1,2,4) consider
      p where "lstat w path = Inr p" "is_link w p" "sys_unlink path w = (Inr (), w')"
    | p where "lstat w path = Inr p" "sys_rmdir path w = (Inr (), w')"
    by (cases "lstat w path")
      (auto simp: os_rmdir_def is_ok_True sys_rmdir_def on_place_Inr split: prod.splits if_splits bool.splits)
  then show ?thesis
  proof cases
    case (1 p)
    then have "\<not> is_dir w p" by (auto simp: is_link_iff is_dir_iff)
    moreover have "wf_world w'" using wf(1) 1(3) by simp
    ultimately show ?thesis using 1 not_root [OF assms(3)]
      by (auto simp: sys_unlink_def remove_entry_Inr)
  next
    case (2 p)
    then have "is_dir w p" "p \<noteq> []" "children w p = []" "w' = cut p w"
      by (auto simp: sys_rmdir_def remove_entry_Inr split: if_splits)
    moreover have "lookup w (p @ [c]) = None" for c
      using children_iff [of c w p] \<open>children w p = []\<close> by simp
    ultimately show ?thesis using 2 wf(2) by auto
  qed
qed

theorem os_rmdir_removes_one_witness:
  "\<exists>w'. os_rmdir (sample_host Linux) [LStr ''/home''] (cut [''home'', ''a.txt''] (cut [''home'', ''b.txt''] sample_world)) = (accept, w')
     \<and> lookup w' [''home''] = None"
proof -
  let ?w = "cut [''home'', ''a.txt''] (cut [''home'', ''b.txt''] sample_world)"
  have nl: "lookup ?w p = (if p = [] \<or> p = [''home''] then Some (Directory 0x1ED) else None)" for p
    by (simp add: lookup_sample)
  have wf: "wf_world ?w" by (rule wf_cut wf_sample | (simp add: sample_world_def children_def cut_def))+
  have c: "children ?w [''home''] = []"
    by (simp add: sample_world_def children_def cut_def)
  have l: "lstat ?w ''/home'' = Inr [''home'']"
    by (simp add: lstat_def find_place_def existing_def is_rooted_def walk.simps nl del: lookup_cut)
  have "os_rmdir (sample_host Linux) [LStr ''/home''] ?w = (accept, cut [''home''] ?w)"
    using l c by (simp add: os_rmdir_def is_ok_def sys_rmdir_def is_link_def is_dir_def nl no_trailing_def remove_entry_def
        parent_mode_def del: lookup_cut)
  moreover from os_rmdir_removes_one [OF _ _ wf this] have "\<exists>p. lstat ?w ''/home'' = Inr p \<and> cut [''home''] ?w = cut p ?w" by auto
  ultimately show ?thesis by auto
qed

section \<open>The working directory and absolute names\<close>

lemma do_chdir_posix:
  assumes "plat h \<noteq> Windows"
  shows "do_chdir h path w = (case stat w path of
     Inl _ \<Rightarrow> (Inr False, w)
   | Inr p \<Rightarrow> (case lookup w p of
       Some (Directory m) \<Rightarrow> if may_search m then (Inr True, w\<lparr>cwd := p\<rparr>) else (Inr False, w)
     | _ \<Rightarrow> (Inr False, w)))"
  using assms by (auto simp: do_chdir_def sys_chdir_def is_ok_def split: sum.splits option.splits node.splits)

lemma stat_find: "stat w path = Inr p \<Longrightarrow> sys_realpath w path = Inr (path_of p)"
  by (simp add: sys_realpath_def)

text \<open>After a successful \<open>os.chdir\<close> the working directory is the one that \<open>os.realpath\<close> named before,
  and no file is touched; a refused one changes nothing at all.\<close>

theorem os_chdir_getcwd:
  assumes "is_posix (plat h)" and "is_cstring path" and "wf_world w" and "os_chdir h [LStr path] w = (r, w')"
  shows "r = accept \<and> nodes w' = nodes w \<and> wf_world w' \<and> cwd_ok w'
           \<and> (length (path_of (cwd w')) < BUFSIZE \<longrightarrow> os_getcwd h w' = (fst (os_realpath h [LStr path] w), w'))
         \<or> r = refuse (''unable to switch to directory '' @ quoted path) \<and> w' = w"
proof -
  have nw: "plat h \<noteq> Windows" using assms(1) by (auto simp: is_posix_def)
  have run: "os_chdir h [LStr path] w = bind_io (do_chdir h path)
      (\<lambda>z w. (if z then accept else refuse (''unable to switch to directory '' @ quoted path), w)) w"
    using assms(2) by (simp add: os_chdir_def)
  show ?thesis
  proof (cases "\<exists>p m. stat w path = Inr p \<and> lookup w p = Some (Directory m) \<and> may_search m")
    case True
    then obtain p m where p: "stat w path = Inr p" "lookup w p = Some (Directory m)" "may_search m" by blast
    then have "r = accept" "w' = w\<lparr>cwd := p\<rparr>"
      using run assms(4) by (simp_all add: bind_io_def do_chdir_posix [OF nw])
    then show ?thesis using p assms(1-3) nw
      by (simp add: cwd_ok_def is_link_iff os_getcwd_def do_getcwd_def sys_getcwd_def os_realpath_def stat_find)
  next
    case False
    then have "do_chdir h path w = (Inr False, w)"
      by (auto simp: do_chdir_posix [OF nw] split: sum.splits option.splits node.splits)
    then show ?thesis using run assms(4) by (simp add: bind_io_def)
  qed
qed

theorem os_chdir_getcwd_witness:
  "os_chdir (sample_host Linux) [LStr ''..''] sample_world = (accept, sample_world\<lparr>cwd := []\<rparr>)
   \<and> os_getcwd (sample_host Linux) (sample_world\<lparr>cwd := []\<rparr>)
       = (fst (os_realpath (sample_host Linux) [LStr ''..''] sample_world), sample_world\<lparr>cwd := []\<rparr>)"
proof -
  have st: "stat sample_world ''..'' = Inr []"
    by (simp add: stat_def existing_def find_place_def is_rooted_def walk.simps lookup_sample)
      (simp add: sample_world_def lookup_def walk.simps)
  have run: "os_chdir (sample_host Linux) [LStr ''..''] sample_world = (accept, sample_world\<lparr>cwd := []\<rparr>)"
    by (simp add: os_chdir_def bind_io_def do_chdir_posix st lookup_sample)
  have "is_posix (plat (sample_host Linux))" by (simp add: is_posix_def)
  from os_chdir_getcwd [OF this _ wf_sample(1) run] run show ?thesis by (simp add: BUFSIZE_def path_of_def)
qed

text \<open>\<open>os.realpath\<close> is idempotent where the directories above the result may be searched.\<close>

theorem os_realpath_idempotent:
  assumes "is_posix (plat h)" and "is_cstring path" and "wf_world w" and "cwd_ok w"
    and "fst (os_realpath h [LStr path] w) = Inr [LStr s]" and "is_cstring s"
    and "\<forall>q m. lookup w q = Some (Directory m) \<longrightarrow> may_search m"
  shows "fst (os_realpath h [LStr s] w) = Inr [LStr s]"
proof -
  obtain p where p: "stat w path = Inr p" "s = path_of p"
    using assms(1,2,5) by (cases "stat w path") (auto simp: os_realpath_def sys_realpath_def refuse_def bind_f_def split: sum.splits)
  note place = stat_place [OF assms(3,4) p(1)]
  have slash: "\<forall>c \<in> set p. SLASH \<notin> set c" using place(1) by (auto simp: file_name_def)
  have dirs: "\<exists>m. lookup w ([] @ take k p) = Some (Directory m) \<and> may_search m" if "k < length p" for k
  proof -
    have "is_dir w (butlast (take (Suc k) p))"
    proof (rule wf_worldD(3) [OF assms(3)])
      show "lookup w (take (Suc k) p) \<noteq> None" using way_parents [OF assms(3) place(3)] by (simp add: take_is_prefix)
      show "take (Suc k) p \<noteq> []" using that by auto
    qed
    then show ?thesis using assms(7) that by (auto simp: is_dir_iff take_Suc_conv_app_nth)
  qed
  have root: "\<exists>m. lookup w [] = Some (Directory m) \<and> may_search m"
    using wf_worldD(1) [OF assms(3)] assms(7) by (auto simp: is_dir_iff)
  have plain: "walks w True SYMLOOP_MAX [] p ([] @ p)"
    using dirs place(1,4) by (intro walks_plain) simp_all
  obtain m where m: "lookup w [] = Some (Directory m)" "may_search m" using root by blast
  have "walks w True SYMLOOP_MAX [] (comps s) p"
  proof (cases "p = []")
    case True
    then have "comps s = [[], []]" by (simp add: p(2) path_of_def)
    with True walks.stay [OF m _ walks.stay [OF m _ walks.here]] show ?thesis by simp
  next
    case False
    then have "comps s = [] # p" using slash by (simp add: p(2) comps_path_of)
    with plain walks.stay [OF m, of "[]"] show ?thesis by simp
  qed
  then have "stat w s = Inr p" using place(3) p(2) by (simp add: stat_def find_place_iff)
  then show ?thesis using assms(1,6) p(2) by (simp add: os_realpath_def stat_find)
qed

theorem os_realpath_idempotent_witness:
  "fst (os_realpath (sample_host Linux) [LStr ''/home''] sample_world) = Inr [LStr ''/home'']"
proof (rule os_realpath_idempotent [where path = "''../home''"])
  show "is_posix (plat (sample_host Linux))" by (simp add: is_posix_def)
  have "stat sample_world ''../home'' = Inr [''home'']"
    by (simp add: stat_def existing_def find_place_def is_rooted_def walk.simps lookup_sample)
      (simp add: sample_world_def lookup_def walk.simps)
  then show "fst (os_realpath (sample_host Linux) [LStr ''../home''] sample_world) = Inr [LStr ''/home'']"
    by (simp add: os_realpath_def stat_find is_posix_def path_of_def)
  show "\<forall>q m. lookup sample_world q = Some (Directory m) \<longrightarrow> may_search m" by (simp add: lookup_sample)
qed simp_all

section \<open>Links, permissions and queries\<close>

lemma link_result_accept: "link_result src dst z = accept \<longleftrightarrow> z"
  by (simp add: link_result_def)

text \<open>A successful \<open>os.linkfile\<close> or \<open>os.linkdir\<close> makes one symbolic link at a free place, which
  \<open>os.islink\<close> then recognises. A relative source is stored with the working directory in front, so that
  the link leads to the same path from wherever it is.\<close>

theorem os_link_outcome:
  assumes "plat h \<noteq> Windows" and "is_cstring src" and "is_cstring dst" and "wf_world w" and "cwd_ok w"
    and "op = os_linkfile \<or> op = os_linkdir" and "op h [LStr src, LStr dst] w = (accept, w')"
  shows "\<exists>p t. lookup w p = None \<and> w' = put p (Link t) w \<and> wf_world w'
    \<and> os_islink h [LStr dst] w' = (Inr [LBool True], w')
    \<and> (if do_isabsolute src then t = src
       else is_rooted t \<and> (length (path_of (cwd w)) + length src < 2 * path_max h \<longrightarrow> t = path_of (cwd w) @ ''/'' @ src))"
proof -
  have "\<exists>d. do_link h d src dst w = (Inr True, w')"
    using assms(6)
  proof
    assume "op = os_linkfile"
    with assms(2,3,7) show ?thesis
      by (auto simp: os_linkfile_def bind_io_accept do_linkfile_def link_result_accept)
  next
    assume "op = os_linkdir"
    with assms(2,3,7) show ?thesis
      by (auto simp: os_linkdir_def bind_io_accept do_linkdir_def link_result_accept)
  qed
  then obtain d where "do_link h d src dst w = (Inr True, w')" by blast
  then obtain t where t: "sys_symlink t dst w = (Inr (), w')"
    and target: "if do_isabsolute src then t = src
       else \<exists>c. do_getcwd h (path_max h) w = Some c \<and> t = take (2 * path_max h) (c @ ''/'' @ src)"
    using assms(1) by (auto simp: do_link_def is_ok_True simp del: take_append split: if_splits option.splits)
  from t obtain p where p: "find_place w False dst = Inr p" "create p (Link t) w = (Inr (), w')" "t \<noteq> []"
    by (cases "find_place w False dst") (auto simp: sys_symlink_def split: if_splits)
  then have free: "lookup w p = None" and w': "w' = put p (Link t) w" by (auto simp: create_Inr)
  have wf: "wf_world w'" using wf_sys_symlink [OF assms(4,5), of t dst] t by simp
  have "lstat w' dst = Inr p"
    using p(1) free walks_put [OF free, where nd = "Link t" and fl = False]
    by (auto simp: lstat_def find_place_iff w')
  then have isl: "os_islink h [LStr dst] w' = (Inr [LBool True], w')"
    using assms(1,3) by (simp add: os_islink_def is_link_iff w')
  have "if do_isabsolute src then t = src
     else is_rooted t \<and> (length (path_of (cwd w)) + length src < 2 * path_max h \<longrightarrow> t = path_of (cwd w) @ ''/'' @ src)"
  proof (cases "do_isabsolute src")
    case False
    with target assms(1) obtain c where c: "c = path_of (cwd w)" "t = take (2 * path_max h) (c @ ''/'' @ src)"
        "length c + 1 \<le> path_max h"
      by (auto simp: do_getcwd_def sys_getcwd_def split: if_splits)
    obtain x xs where x: "c = x # xs" using c(1) path_of_not_Nil [of "cwd w"] by (metis neq_Nil_conv)
    moreover obtain k where "2 * path_max h = Suc k" using c(3) by (cases "path_max h") auto
    ultimately have "peek t = peek c" using c(2) by simp
    with c False path_of_rooted [of "cwd w"] show ?thesis by (auto simp: is_rooted_def)
  qed (use target in simp)
  with free w' wf isl show ?thesis by blast
qed

text \<open>C0: What \<open>os.chmod\<close> does on POSIX systems: it sets the permissions of the file that the path leads
  to, to the octal number given; and where it fails it does not return \<open>nil\<close> and a message, as its code
  means to, but raises a Lua error, for its format has a conversion that \<open>lua_pushfstring\<close> does not know.\<close>

definition with_mode :: "mode \<Rightarrow> node \<Rightarrow> node" where
  "with_mode m nd = (case nd of Directory _ \<Rightarrow> Directory m | Regular _ t s \<Rightarrow> Regular m t s | Link t \<Rightarrow> Link t)"

theorem os_chmod_outcome:
  assumes "plat h \<noteq> Windows" and "is_cstring path" and "is_cstring modeStr" and "wf_world w" and "cwd_ok w"
  shows "os_chmod h [LStr path, LStr modeStr] w =
    (case stat w path of
       Inr p \<Rightarrow> (accept, put p (with_mode (word_of_int (to_int32 (strtol8 64 modeStr))) (the (lookup w p))) w)
     | Inl e \<Rightarrow> (Inl (LuaError ''invalid conversion to lua_pushfstring''), w))"
proof (cases "stat w path")
  case (Inl e)
  then show ?thesis using assms(1-3)
    by (simp add: os_chmod_def sys_chmod_def Let_def)
next
  case (Inr p)
  note place = stat_place [OF assms(4,5) Inr]
  then obtain nd where nd: "lookup w p = Some nd" "\<forall>t. nd \<noteq> Link t" by (auto simp: is_link_iff)
  then show ?thesis using assms(1-3) Inr
    by (cases nd) (simp_all add: os_chmod_def sys_chmod_def Let_def with_mode_def)
qed

lemma stat_table_error: "stat_table t n \<noteq> stat_error h e path"
  by (simp add: stat_table_def stat_error_def refuse_def)

text \<open>The three queries agree: what \<open>os.stat\<close> gives a table for is either a file for \<open>os.isfile\<close> or a
  directory for \<open>os.isdir\<close>, and nothing else is; on POSIX systems, for every path but the empty one,
  which is a directory only for \<open>os.isdir\<close>.\<close>

theorem os_queries_agree:
  assumes "plat h \<noteq> Windows" and "is_cstring path"
  shows "os_isdir h [LStr path] w = (Inr [LBool True], w) \<and> os_isfile h [LStr path] w = (Inr [LBool False], w)
           \<and> ((\<exists>t n. os_stat h [LStr path] w = (stat_table t n, w)) \<longleftrightarrow> path \<noteq> [])
       \<or> os_isdir h [LStr path] w = (Inr [LBool False], w) \<and> os_isfile h [LStr path] w = (Inr [LBool True], w)
           \<and> (\<exists>t n. os_stat h [LStr path] w = (stat_table t n, w))
       \<or> os_isdir h [LStr path] w = (Inr [LBool False], w) \<and> os_isfile h [LStr path] w = (Inr [LBool False], w)
           \<and> (\<exists>e. os_stat h [LStr path] w = (stat_error h e path, w))"
proof (cases "stat w path")
  case (Inl e)
  then have "os_stat h [LStr path] w = (stat_error h e path, w)" using assms by (simp add: os_stat_def)
  moreover have "os_isfile h [LStr path] w = (Inr [LBool False], w)"
    using Inl assms by (simp add: os_isfile_def do_isfile_def)
  moreover have "os_isdir h [LStr path] w = (Inr [LBool (path = [])], w)"
    using Inl assms by (simp add: os_isdir_def)
  ultimately show ?thesis using stat_table_error by (cases "path = []") (auto simp: stat_table_error stat_table_error [symmetric])
next
  case (Inr p)
  then have "path \<noteq> []" by (auto simp: stat_def find_place_def)
  moreover have "os_stat h [LStr path] w = (stat_table (st_mtime w p) (st_size w p), w)"
    using Inr assms by (simp add: os_stat_def)
  moreover have "os_isfile h [LStr path] w = (Inr [LBool (\<not> is_dir w p)], w)"
    using Inr assms by (simp add: os_isfile_def do_isfile_def)
  moreover have "os_isdir h [LStr path] w = (Inr [LBool (is_dir w p)], w)"
    using Inr assms \<open>path \<noteq> []\<close> by (simp add: os_isdir_def)
  ultimately show ?thesis by (cases "is_dir w p") (simp_all, metis+)
qed

theorem os_queries_agree_witness:
  "os_isfile (sample_host Linux) [LStr ''a.txt''] sample_world = (Inr [LBool True], sample_world)"
proof -
  have "stat sample_world ''a.txt'' = Inr [''home'', ''a.txt'']"
    by (simp add: stat_def existing_def find_place_def is_rooted_def walk.simps lookup_sample)
      (simp add: sample_world_def lookup_def walk.simps)
  then have "os_isdir (sample_host Linux) [LStr ''a.txt''] sample_world = (Inr [LBool False], sample_world)"
      "\<forall>e. os_stat (sample_host Linux) [LStr ''a.txt''] sample_world \<noteq> (stat_error (sample_host Linux) e ''a.txt'', sample_world)"
    using stat_table_error by (simp_all add: os_isdir_def is_dir_def lookup_sample os_stat_def)
  with os_queries_agree [of "sample_host Linux" "''a.txt''" sample_world] show ?thesis by auto
qed

theorem os_chmod_outcome_witness:
  "os_chmod (sample_host Linux) [LStr ''a.txt'', LStr ''0600''] sample_world =
     (accept, put [''home'', ''a.txt''] (Regular 0x180 7 ''abc'') sample_world)
   \<and> os_chmod (sample_host Linux) [LStr ''c.txt'', LStr ''0600''] sample_world =
     (Inl (LuaError ''invalid conversion to lua_pushfstring''), sample_world)"
proof -
  have st: "stat sample_world ''a.txt'' = Inr [''home'', ''a.txt'']" "stat sample_world ''c.txt'' = Inl ENOENT"
    by (simp_all add: stat_def existing_def find_place_def is_rooted_def walk.simps lookup_sample)
      (simp_all add: sample_world_def lookup_def walk.simps)
  have m: "word_of_int (to_int32 (strtol8 64 ''0600'')) = (0x180 :: mode)" by code_simp
  show ?thesis
    using os_chmod_outcome [of "sample_host Linux" "''a.txt''" "''0600''", OF _ _ _ wf_sample]
      os_chmod_outcome [of "sample_host Linux" "''c.txt''" "''0600''", OF _ _ _ wf_sample]
    by (simp add: st m with_mode_def lookup_sample)
qed

theorem os_link_outcome_witness:
  "\<exists>p t w'. os_linkfile (sample_host Linux) [LStr ''a.txt'', LStr ''/l''] sample_world = (accept, w')
     \<and> w' = put p (Link t) sample_world \<and> os_islink (sample_host Linux) [LStr ''/l''] w' = (Inr [LBool True], w')"
proof -
  have "find_place sample_world False ''/l'' = Inr [''l'']"
    by (simp add: find_place_def is_rooted_def walk.simps lookup_sample)
  moreover have "\<not> do_isabsolute ''a.txt''" by code_simp
  ultimately have "os_linkfile (sample_host Linux) [LStr ''a.txt'', LStr ''/l''] sample_world =
      (accept, put [''l''] (Link ''/home/a.txt'') sample_world)"
    by (simp add: os_linkfile_def do_linkfile_def do_link_def do_getcwd_def sys_getcwd_def bind_io_def link_result_def
        sys_symlink_def is_ok_def create_def parent_mode_def lookup_sample)
      (simp add: sample_world_def path_of_def lookup_def)
  with os_link_outcome [of "sample_host Linux" "''a.txt''" "''/l''" sample_world os_linkfile, OF _ _ _ wf_sample]
  show ?thesis by fastforce
qed

end
