(* ===== verification/File_Contents.thy ===== *)
theory File_Contents
  imports File_Ops
begin

text \<open>
  The built-in functions that read and write the contents of files: \<open>os_comparefiles.c\<close>,
  \<open>os_writefile_ifnotequal.c\<close> and \<open>os_touchfile.c\<close>. A file is read in pieces of 4096 bytes; every
  branch closes the streams that it opened.
\<close>

section \<open>The functions\<close>

definition CHUNK :: nat where "CHUNK = 4096"

definition close_both :: "nat \<Rightarrow> nat \<Rightarrow> world \<Rightarrow> world" where
  "close_both f g w = fclose g (fclose f w)"

function compare_loop :: "nat \<Rightarrow> nat \<Rightarrow> nat \<Rightarrow> world \<Rightarrow> lua_ret \<times> world" where
  "compare_loop f g firstSize w =
     (if firstSize > 0 then
        let count = (if firstSize > CHUNK then CHUNK else firstSize);
            (firstBuffer, w1) = fread count f w in
        if length firstBuffer \<noteq> count
        then (refuse ''failed to read first file content'', close_both f g w1)
        else
          let (secondBuffer, w2) = fread count g w1 in
          if length secondBuffer \<noteq> count
          then (refuse ''failed to read second file content'', close_both f g w2)
          else if firstBuffer \<noteq> secondBuffer then (Inr [LBool False], close_both f g w2)
          else compare_loop f g (firstSize - count) w2
      else (Inr [LBool True], close_both f g w))"
  by pat_completeness auto
termination
  by (relation "measure (\<lambda>(f, g, n, w). n)") (auto simp: CHUNK_def)

declare compare_loop.simps [simp del]

definition compare_opened :: "nat option \<Rightarrow> nat option \<Rightarrow> world \<Rightarrow> lua_ret \<times> world" where
  "compare_opened firstFile secondFile w =
     (case (firstFile, secondFile) of
        (None, None) \<Rightarrow> (refuse ''failed to open first file'', w)
      | (None, Some g) \<Rightarrow> (refuse ''failed to open first file'', fclose g w)
      | (Some f, None) \<Rightarrow> (refuse ''failed to open second file'', fclose f w)
      | (Some f, Some g) \<Rightarrow>
          if stream_length f w \<noteq> stream_length g w then (Inr [LBool False], close_both f g w)
          else compare_loop f g (stream_length f w) w)"

definition os_comparefiles :: "host \<Rightarrow> lval list \<Rightarrow> lval list io" where
  "os_comparefiles h args =
     (if windows h then
        checked (luaL_checkconvertlstring h args 2) (\<lambda>secondPath.
        checked (luaL_checkconvertlstring h args 1) (\<lambda>firstPath w.
          let (f, w1) = wfopen_rb (win h) firstPath w; (g, w2) = wfopen_rb (win h) secondPath w1
          in compare_opened f g w2))
      else
        checked (luaL_checkstring args 1) (\<lambda>firstPath.
        checked (luaL_checkstring args 2) (\<lambda>secondPath w.
          let (f, w1) = fopen_rb firstPath w; (g, w2) = fopen_rb secondPath w1
          in compare_opened f g w2)))"

function compare_content :: "nat \<Rightarrow> string \<Rightarrow> nat \<Rightarrow> world \<Rightarrow> bool \<times> world" where
  "compare_content file content left w =
     (if left > 0 then
        let num = (if left > CHUNK then CHUNK else left); (buffer, w1) = fread num file w in
        if length buffer \<noteq> num then (False, fclose file w1)
        else if take num content \<noteq> buffer then (False, fclose file w1)
        else compare_content file (drop num content) (left - num) w1
      else (True, fclose file w))"
  by pat_completeness auto
termination
  by (relation "measure (\<lambda>(f, c, n, w). n)") (auto simp: CHUNK_def)

declare compare_content.simps [simp del]

definition compare_file :: "host \<Rightarrow> string \<Rightarrow> cstring \<Rightarrow> world \<Rightarrow> bool \<times> world" where
  "compare_file h content dst w =
     (case (if windows h then
              (case luaL_convertlstring h dst of None \<Rightarrow> (None, w) | Some wpath \<Rightarrow> wfopen_rb (win h) wpath w)
            else fopen_rb dst w) of
        (None, w1) \<Rightarrow> (False, w1)
      | (Some file, w1) \<Rightarrow>
          if length content \<noteq> stream_length file w1 then (False, fclose file w1)
          else compare_content file content (stream_length file w1) w1)"

definition write_failed :: "cstring \<Rightarrow> lua_ret" where
  "write_failed dst = Inr [LInt (- 1), LStr (''unable to write file to '' @ quoted dst)]"

definition write_opened :: "string \<Rightarrow> cstring \<Rightarrow> nat option \<Rightarrow> world \<Rightarrow> lua_ret \<times> world" where
  "write_opened content dst file w =
     (case file of
        None \<Rightarrow> (write_failed dst, w)
      | Some f \<Rightarrow>
          let (items, w1) = fwrite content f w; w2 = fclose f w1 in
          if items = 1 then (Inr [LInt 1], w2) else (write_failed dst, w2))"

definition os_writefile_ifnotequal :: "host \<Rightarrow> lval list \<Rightarrow> lval list io" where
  "os_writefile_ifnotequal h args =
     checked (luaL_checklstring args 1) (\<lambda>content.
     checked (luaL_checkstring args 2) (\<lambda>dst w.
       let (same, w1) = (if do_isfile h dst w then compare_file h content dst w else (False, w)) in
       if same then (Inr [LInt 0], w1)
       else if windows h then
         (case luaL_convertlstring h dst of
            None \<Rightarrow> (Inr [], w1)
          | Some wpath \<Rightarrow> let (file, w2) = wfopen_wb (win h) wpath w1 in write_opened content dst file w2)
       else let (file, w2) = fopen_wb dst w1 in write_opened content dst file w2))"

definition touch_failed :: "string \<Rightarrow> lua_ret" where
  "touch_failed msg = Inr [LInt (- 1), LStr msg]"

definition touch_file :: "cstring \<Rightarrow> world \<Rightarrow> bool \<times> world" where
  "touch_file fn w = is_ok (sys_utime fn (clock w) w)"

definition touch_existing :: "host \<Rightarrow> lval list \<Rightarrow> cstring \<Rightarrow> world \<Rightarrow> lua_ret \<times> world" where
  "touch_existing h args dst w =
     (let failed = touch_failed (''unable to touch file '' @ quoted dst) in
      if windows h then
        (case luaL_convertlstringi h args 1 of
           None \<Rightarrow> (touch_failed ''unable to encode path'', w)
         | Some wpath \<Rightarrow>
             (case OpenForAttributes (win h) wpath w of
                (None, w1) \<Rightarrow> (failed, w1)
              | (Some handle, w1) \<Rightarrow>
                  (case GetSystemFileTime (win h) w1 of
                     None \<Rightarrow> (failed, CloseHandle (win h) handle w1)
                   | Some t \<Rightarrow>
                       let (ok, w2) = SetFileTime (win h) handle t w1 in
                       (if ok then Inr [LInt 0] else failed, CloseHandle (win h) handle w2))))
      else
        let (ok, w1) = touch_file dst w in (if ok then Inr [LInt 0] else failed, w1))"

definition os_touchfile :: "host \<Rightarrow> lval list \<Rightarrow> lval list io" where
  "os_touchfile h args =
     checked (luaL_checkstring args 1) (\<lambda>dst w.
       if do_isfile h dst w then touch_existing h args dst w
       else if windows h \<and> luaL_convertlstring h dst = None then (touch_failed ''unable to encode path'', w)
       else
         (case (if windows h then wfopen_wb (win h) (the (luaL_convertlstring h dst)) w else fopen_wb dst w) of
            (Some file, w1) \<Rightarrow> (Inr [LInt 1], fclose file w1)
          | (None, w1) \<Rightarrow> (touch_failed (''unable to touch file '' @ quoted dst), w1)))"

section \<open>Streams\<close>

text \<open>Two machines that differ in their streams only, and the table of the streams that are open.\<close>

definition same_files :: "world \<Rightarrow> world \<Rightarrow> bool" where
  "same_files w w' \<longleftrightarrow> w' = w\<lparr>streams := streams w', next_stream := next_stream w'\<rparr>"

definition open_streams :: "world \<Rightarrow> nat \<Rightarrow> stream option" where
  "open_streams w = map_of (streams w)"

definition streams_ok :: "world \<Rightarrow> bool" where
  "streams_ok w \<longleftrightarrow> (\<forall>f \<ge> next_stream w. open_streams w f = None)"

lemma same_files_refl [simp]: "same_files w w"
  by (simp add: same_files_def)

lemma same_files_trans: "same_files a b \<Longrightarrow> same_files b c \<Longrightarrow> same_files a c"
  unfolding same_files_def by (metis (no_types, lifting) world.surjective world.update_convs(8,9))

lemma same_files_step [simp]:
  "same_files w (w\<lparr>streams := ss\<rparr>)" "same_files w (w\<lparr>streams := ss, next_stream := i\<rparr>)"
  by (simp_all add: same_files_def)

lemma same_filesD:
  assumes "same_files w w'"
  shows "nodes w' = nodes w" "cwd w' = cwd w" "clock w' = clock w" "umask w' = umask w"
    "disk_full w' = disk_full w" "damaged w' = damaged w" "lookup w' = lookup w" "contents w' = contents w"
    "readable_part w' = readable_part w" "st_size w' = st_size w" "wf_world w' = wf_world w" "cwd_ok w' = cwd_ok w"
proof -
  obtain ss i where w': "w' = w\<lparr>streams := ss, next_stream := i\<rparr>" using assms unfolding same_files_def by metis
  show "nodes w' = nodes w" "cwd w' = cwd w" "clock w' = clock w" "umask w' = umask w"
    "disk_full w' = disk_full w" "damaged w' = damaged w" "lookup w' = lookup w" "contents w' = contents w"
    "readable_part w' = readable_part w" "st_size w' = st_size w" "wf_world w' = wf_world w" "cwd_ok w' = cwd_ok w"
    by (simp_all add: w' fun_eq_iff contents_def readable_part_def st_size_def cwd_ok_def is_link_def
        split: option.split node.split)
qed

lemma fclose_effect: "same_files w (fclose f w)" "open_streams (fclose f w) = (open_streams w)(f := None)"
    "next_stream (fclose f w) = next_stream w"
  by (simp_all add: fclose_def open_streams_def delete_conv')

lemma close_both_effect:
  "same_files w (close_both f g w)" "open_streams (close_both f g w) = (open_streams w)(f := None, g := None)"
  "next_stream (close_both f g w) = next_stream w"
  unfolding close_both_def using fclose_effect same_files_trans by metis+

lemma fread_effect:
  assumes "fread n f w = (s, w1)"
  shows "same_files w w1" and "next_stream w1 = next_stream w" and "\<And>g. g \<noteq> f \<Longrightarrow> open_streams w1 g = open_streams w g"
    and "open_streams w f = Some st \<Longrightarrow> s = take n (drop (offset st) (readable_part w (at_place st)))
           \<and> open_streams w1 f = Some (st\<lparr>offset := offset st + length s\<rparr>)"
  using assms by (auto simp: fread_def Let_def open_streams_def update_conv' split: option.splits)

lemma compare_loop_effect:
  "compare_loop f g n w = (r, w') \<Longrightarrow>
     same_files w w' \<and> open_streams w' = (open_streams w)(f := None, g := None) \<and> next_stream w' = next_stream w"
proof (induction f g n w arbitrary: r w' rule: compare_loop.induct)
  case (1 f g n w)
  let ?c = "if n > CHUNK then CHUNK else n"
  obtain a w1 where a: "fread ?c f w = (a, w1)" by fastforce
  obtain b w2 where b: "fread ?c g w1 = (b, w2)" by fastforce
  note ea = fread_effect(1-3) [OF a] and eb = fread_effect(1-3) [OF b]
  have s1: "(open_streams w1)(f := None, g := None) = (open_streams w)(f := None, g := None)" using ea(3) by auto
  have s2: "(open_streams w2)(f := None, g := None) = (open_streams w)(f := None, g := None)" using ea(3) eb(3) by auto
  have f2: "same_files w w2" using ea(1) eb(1) same_files_trans by blast
  note close1 = close_both_effect [where w = w1 and f = f and g = g]
    and close2 = close_both_effect [where w = w2 and f = f and g = g]
    and close0 = close_both_effect [where w = w and f = f and g = g]
  show ?case
  proof (cases "n > 0")
    case True
    then consider "length a \<noteq> ?c" "w' = close_both f g w1"
      | "w' = close_both f g w2"
      | "length a = ?c" "length b = ?c" "a = b" "compare_loop f g (n - ?c) w2 = (r, w')"
      using 1(2) a b by (subst (asm) compare_loop.simps) (auto simp: Let_def split: if_splits)
    then show ?thesis
    proof cases
      case 1
      then show ?thesis using close1 ea s1 same_files_trans by metis
    next
      case 2
      then show ?thesis using close2 ea(2) eb(2) s2 f2 same_files_trans by metis
    next
      case 3
      have "same_files w2 w' \<and> open_streams w' = (open_streams w2)(f := None, g := None) \<and> next_stream w' = next_stream w2"
        using "1.IH" [OF True refl a [symmetric] refl _ b [symmetric] refl] 3 by (auto simp: fun_eq_iff)
      then show ?thesis using ea(2) eb(2) s2 f2 same_files_trans by metis
    qed
  next
    case False
    then have "w' = close_both f g w" using 1(2) by (simp add: compare_loop.simps)
    then show ?thesis using close0 by (simp only:)
  qed
qed

lemma open_stream_effect:
  assumes "open_stream p w = (f, w1)"
  shows "f = Some (next_stream w)" and "same_files w w1" and "next_stream w1 = Suc (next_stream w)"
    and "open_streams w1 = (open_streams w)(next_stream w \<mapsto> \<lparr>at_place = p, offset = 0\<rparr>)"
  using assms by (auto simp: open_stream_def open_streams_def update_conv')

lemma fopen_rb_effect:
  assumes "fopen_rb path w = (f, w1)"
  shows "f = None \<and> w1 = w \<or> (\<exists>p. stat w path = Inr p \<and> open_stream p w = (f, w1))"
  using assms by (auto simp: fopen_rb_def split: sum.splits if_splits)

lemma fopen_rb_same:
  assumes "fopen_rb path w = (f, w1)" and "streams_ok w"
  shows "same_files w w1" and "streams_ok w1"
    and "(f = None \<longrightarrow> open_streams w1 = open_streams w)"
    and "\<And>i. f = Some i \<Longrightarrow> i = next_stream w \<and> next_stream w1 = Suc i \<and> (open_streams w1)(i := None) = open_streams w"
  using fopen_rb_effect [OF assms(1)] assms(2) open_stream_effect [of _ w f w1]
  by (auto simp: streams_ok_def fun_upd_idem fun_eq_iff)

text \<open>On POSIX systems \<open>os.comparefiles\<close> leaves every file as it was and the streams that it opened are
  closed again, on every branch, the failures included.\<close>

theorem os_comparefiles_closes:
  assumes "plat h \<noteq> Windows" and "streams_ok w" and "os_comparefiles h args w = (r, w')"
  shows "nodes w' = nodes w \<and> cwd w' = cwd w \<and> open_streams w' = open_streams w"
proof (cases "\<exists>a b. luaL_checkstring args 1 = Inr a \<and> luaL_checkstring args 2 = Inr b")
  case False
  then have "w' = w" using assms(1,3)
    by (auto simp: os_comparefiles_def checked_def split: sum.splits)
  then show ?thesis by simp
next
  case True
  then obtain a b where ab: "luaL_checkstring args 1 = Inr a" "luaL_checkstring args 2 = Inr b" by blast
  obtain f w1 where f: "fopen_rb a w = (f, w1)" by fastforce
  obtain g w2 where g: "fopen_rb b w1 = (g, w2)" by fastforce
  have run: "compare_opened f g w2 = (r, w')"
    using assms(1,3) ab f g by (simp add: os_comparefiles_def)
  note ef = fopen_rb_same [OF f assms(2)] and eg = fopen_rb_same [OF g fopen_rb_same(2) [OF f assms(2)]]
  have same: "same_files w w2" using ef(1) eg(1) same_files_trans by blast
  have "same_files w2 w' \<and> open_streams w' = open_streams w"
  proof (cases f)
    case None
    then show ?thesis using run ef(3) eg(3,4) fclose_effect
      by (cases g) (auto simp: compare_opened_def)
  next
    case (Some i)
    show ?thesis
    proof (cases g)
      case None
      then show ?thesis using Some run ef(4) eg(3) fclose_effect by (auto simp: compare_opened_def)
    next
      case j: (Some j)
      have "same_files w2 w' \<and> open_streams w' = (open_streams w2)(i := None, j := None)"
      proof (cases "stream_length i w2 = stream_length j w2")
        case True
        then show ?thesis
          using run Some j compare_loop_effect [of i j "stream_length i w2" w2 r w'] by (simp add: compare_opened_def)
      next
        case False
        then have "w' = close_both i j w2" using run Some j by (simp add: compare_opened_def)
        then show ?thesis using close_both_effect [where w = w2 and f = i and g = j] by simp
      qed
      moreover have "(open_streams w2)(i := None, j := None) = open_streams w"
        using ef(4) [OF Some] eg(4) [OF j] by (metis fun_upd_twist)
      ultimately show ?thesis by simp
    qed
  qed
  then show ?thesis using same same_files_trans same_filesD(1,2) by metis
qed

theorem os_comparefiles_closes_witness:
  "nodes (snd (os_comparefiles (sample_host Linux) [LStr ''a.txt'', LInt 3] sample_world)) = nodes sample_world"
proof -
  obtain r w' where run: "os_comparefiles (sample_host Linux) [LStr ''a.txt'', LInt 3] sample_world = (r, w')" by fastforce
  have "streams_ok sample_world" by (simp add: streams_ok_def open_streams_def sample_world_def)
  from os_comparefiles_closes [OF _ this run] run show ?thesis by simp
qed

lemma compare_loop_equal:
  assumes "f \<noteq> g" and "open_streams w f = Some \<lparr>at_place = p, offset = k\<rparr>" and "open_streams w g = Some \<lparr>at_place = q, offset = k\<rparr>"
    and "readable_part w p = s" and "readable_part w q = t" and "length s = length t" and "n = length s - k"
  shows "fst (compare_loop f g n w) = Inr [LBool (drop k s = drop k t)]"
  using assms
proof (induction f g n w arbitrary: k rule: compare_loop.induct)
  case (1 f g n w)
  show ?case
  proof (cases "n > 0")
    case False
    then have "length s \<le> k" "length t \<le> k" using 1 by auto
    with False show ?thesis by (simp add: compare_loop.simps)
  next
    case True
    let ?c = "if n > CHUNK then CHUNK else n"
    have c: "?c \<le> n" by simp
    obtain a w1 where a: "fread ?c f w = (a, w1)" by fastforce
    obtain b w2 where b: "fread ?c g w1 = (b, w2)" by fastforce
    note ea = fread_effect(1-3) [OF a] fread_effect(4) [OF a "1.prems"(2)]
    have g1: "open_streams w1 g = Some \<lparr>at_place = q, offset = k\<rparr>" using ea(3) "1.prems"(1,3) by auto
    note eb = fread_effect(1-3) [OF b] fread_effect(4) [OF b g1]
    have av: "a = take ?c (drop k s)" using ea(4) "1.prems"(4) by simp
    have bv: "b = take ?c (drop k t)" using eb(4) same_filesD(9) [OF ea(1)] "1.prems"(5) by simp
    have len: "length a = ?c" "length b = ?c" using av bv c "1.prems"(6,7) by simp_all
    show ?thesis
    proof (cases "a = b")
      case False
      then have "drop k s \<noteq> drop k t" using av bv by auto
      with False True a b len show ?thesis by (subst compare_loop.simps) (simp add: Let_def)
    next
      case eq: True
      have f2: "open_streams w2 f = Some \<lparr>at_place = p, offset = k + ?c\<rparr>" using ea(4) eb(3) "1.prems"(1) len by simp
      have g2: "open_streams w2 g = Some \<lparr>at_place = q, offset = k + ?c\<rparr>" using eb(4) len by simp
      have rd: "readable_part w2 p = s" "readable_part w2 q = t"
        using same_filesD(9) [OF ea(1)] same_filesD(9) [OF eb(1)] "1.prems"(4,5) by simp_all
      have "fst (compare_loop f g (n - ?c) w2) = Inr [LBool (drop (k + ?c) s = drop (k + ?c) t)]"
        by (rule "1.IH" [OF True refl a [symmetric] refl _ b [symmetric] refl])
          (use eq len f2 g2 rd "1.prems"(1,6,7) in simp_all)
      moreover have "drop k s = drop k t \<longleftrightarrow> drop (k + ?c) s = drop (k + ?c) t"
        using av bv eq by (metis add.commute append_take_drop_id drop_drop)
      moreover have "compare_loop f g n w = compare_loop f g (n - ?c) w2"
        using True a b len eq by (subst compare_loop.simps) (simp add: Let_def)
      ultimately show ?thesis by simp
    qed
  qed
qed

lemma fopen_rb_regular:
  assumes "stat w path = Inr p" and "lookup w p = Some (Regular m t s)" and "may_read m"
  shows "fopen_rb path w = open_stream p w"
  using assms by (simp add: fopen_rb_def)

lemma whole_readable: "lookup w p = Some (Regular m t s) \<Longrightarrow> damaged w p = None \<Longrightarrow> readable_part w p = s \<and> st_size w p = length s"
  by (simp add: readable_part_def contents_def st_size_def)

text \<open>On POSIX systems \<open>os.comparefiles\<close> of two regular files that can be read returns whether their
  contents are equal, whatever their lengths.\<close>

theorem os_comparefiles_equal:
  assumes "plat h \<noteq> Windows" and "is_cstring a" and "is_cstring b" and "streams_ok w"
    and "stat w a = Inr p" and "lookup w p = Some (Regular m1 t1 s1)" and "may_read m1" and "damaged w p = None"
    and "stat w b = Inr q" and "lookup w q = Some (Regular m2 t2 s2)" and "may_read m2" and "damaged w q = None"
  shows "fst (os_comparefiles h [LStr a, LStr b] w) = Inr [LBool (s1 = s2)]"
proof -
  obtain f w1 where f: "open_stream p w = (f, w1)" by fastforce
  obtain g w2 where g: "open_stream q w1 = (g, w2)" by fastforce
  note ef = open_stream_effect [OF f] and eg = open_stream_effect [OF g]
  note s1 = same_filesD [OF ef(2)] and s2 = same_filesD [OF eg(2)]
  have "stat w1 b = Inr q" using stat_cong [OF s1(7,2)] assms(9) by simp
  then have o: "fopen_rb a w = (f, w1)" "fopen_rb b w1 = (g, w2)"
    using fopen_rb_regular [OF assms(5-7)] f fopen_rb_regular [of w1 b q m2 t2 s2] g assms(10,11) s1(7) by simp_all
  let ?i = "next_stream w" and ?j = "Suc (next_stream w)"
  have st: "open_streams w2 ?i = Some \<lparr>at_place = p, offset = 0\<rparr>" "open_streams w2 ?j = Some \<lparr>at_place = q, offset = 0\<rparr>"
    using ef eg by simp_all
  have rd: "readable_part w2 p = s1" "readable_part w2 q = s2" "st_size w2 p = length s1" "st_size w2 q = length s2"
    using whole_readable [OF assms(6,8)] whole_readable [OF assms(10,12)] s1(9,10) s2(9,10) by simp_all
  have len: "stream_length ?i w2 = length s1" "stream_length ?j w2 = length s2"
    using st rd by (simp_all add: stream_length_def open_streams_def)
  have "fst (compare_opened f g w2) = Inr [LBool (s1 = s2)]"
  proof (cases "length s1 = length s2")
    case True
    have "fst (compare_loop ?i ?j (length s1) w2) = Inr [LBool (drop 0 s1 = drop 0 s2)]"
      by (rule compare_loop_equal [OF _ st rd(1,2)]) (simp_all add: True)
    then show ?thesis using True ef(1,3) eg(1) len by (simp add: compare_opened_def)
  next
    case False
    then show ?thesis using ef(1,3) eg(1) len by (auto simp: compare_opened_def)
  qed
  then show ?thesis using assms(1-3) o by (simp add: os_comparefiles_def)
qed

theorem os_comparefiles_equal_witness:
  "fst (os_comparefiles (sample_host Linux) [LStr ''a.txt'', LStr ''b.txt''] sample_world) = Inr [LBool False]"
proof -
  have so: "streams_ok sample_world" by (simp add: streams_ok_def open_streams_def sample_world_def)
  have st: "stat sample_world ''a.txt'' = Inr [''home'', ''a.txt'']" "stat sample_world ''b.txt'' = Inr [''home'', ''b.txt'']"
    by (simp_all add: stat_def existing_def find_place_def is_rooted_def walk.simps lookup_sample)
      (simp_all add: sample_world_def lookup_def walk.simps)
  have d: "damaged sample_world p = None" for p by (simp add: sample_world_def)
  from os_comparefiles_equal [of "sample_host Linux" "''a.txt''" "''b.txt''", OF _ _ _ so st(1) _ _ d st(2) _ _ d]
  show ?thesis by (simp add: lookup_sample)
qed

section \<open>Writing only what differs\<close>

lemma compare_content_equal:
  assumes "open_streams w f = Some \<lparr>at_place = p, offset = k\<rparr>" and "readable_part w p = s"
    and "k + length c = length s" and "n = length c"
  shows "fst (compare_content f c n w) \<longleftrightarrow> c = drop k s"
  using assms
proof (induction f c n w arbitrary: k rule: compare_content.induct)
  case (1 f c n w)
  show ?case
  proof (cases "n > 0")
    case False
    then show ?thesis using 1 by (simp add: compare_content.simps)
  next
    case True
    let ?n = "if n > CHUNK then CHUNK else n"
    obtain a w1 where a: "fread ?n f w = (a, w1)" by fastforce
    note ea = fread_effect(1-3) [OF a] fread_effect(4) [OF a "1.prems"(1)]
    have av: "a = take ?n (drop k s)" using ea(4) "1.prems"(2) by simp
    have len: "length a = ?n" using av "1.prems"(3,4) by (auto simp: min_def)
    show ?thesis
    proof (cases "take ?n c = a")
      case False
      then have "c \<noteq> drop k s" using av by auto
      with False True a len show ?thesis by (subst compare_content.simps) (simp add: Let_def)
    next
      case eq: True
      have "fst (compare_content f (drop ?n c) (n - ?n) w1) \<longleftrightarrow> drop ?n c = drop (k + ?n) s"
        by (rule "1.IH" [OF True refl a [symmetric] refl])
          (use eq len ea(4) same_filesD(9) [OF ea(1)] "1.prems"(2-4) in auto)
      moreover have "c = drop k s \<longleftrightarrow> drop ?n c = drop (k + ?n) s"
        using av eq by (metis add.commute append_take_drop_id drop_drop)
      moreover have "compare_content f c n w = compare_content f (drop ?n c) (n - ?n) w1"
        using True a len eq by (subst compare_content.simps) (simp add: Let_def)
      ultimately show ?thesis by simp
    qed
  qed
qed

lemma compare_content_effect:
  "compare_content f c n w = (r, w') \<Longrightarrow>
     same_files w w' \<and> open_streams w' = (open_streams w)(f := None) \<and> next_stream w' = next_stream w"
proof (induction f c n w arbitrary: r w' rule: compare_content.induct)
  case (1 f c n w)
  let ?n = "if n > CHUNK then CHUNK else n"
  obtain a w1 where a: "fread ?n f w = (a, w1)" by fastforce
  note ea = fread_effect(1-3) [OF a]
  have s1: "(open_streams w1)(f := None) = (open_streams w)(f := None)" using ea(3) by auto
  show ?case
  proof (cases "n > 0")
    case True
    then consider "w' = fclose f w1"
      | "length a = ?n" "take ?n c = a" "compare_content f (drop ?n c) (n - ?n) w1 = (r, w')"
      using 1(2) a by (subst (asm) compare_content.simps) (auto simp: Let_def split: if_splits)
    then show ?thesis
    proof cases
      case 1
      then show ?thesis using fclose_effect [where w = w1 and f = f] ea s1 same_files_trans by metis
    next
      case 2
      have "same_files w1 w' \<and> open_streams w' = (open_streams w1)(f := None) \<and> next_stream w' = next_stream w1"
        using "1.IH" [OF True refl a [symmetric] refl] 2 by auto
      then show ?thesis using ea s1 same_files_trans by metis
    qed
  next
    case False
    then have "w' = fclose f w" using 1(2) by (simp add: compare_content.simps)
    then show ?thesis using fclose_effect [where w = w and f = f] by (simp only:)
  qed
qed

lemma do_isfile_regular:
  "plat h \<noteq> Windows \<Longrightarrow> stat w path = Inr p \<Longrightarrow> lookup w p = Some (Regular m t s) \<Longrightarrow> do_isfile h path w"
  by (simp add: do_isfile_def is_dir_def)

lemma compare_file_effect:
  assumes "plat h \<noteq> Windows" and "streams_ok w" and "compare_file h content dst w = (same, w')"
  shows "same_files w w'" and "open_streams w' = open_streams w" and "streams_ok w'"
proof -
  obtain f w1 where f: "fopen_rb dst w = (f, w1)" by fastforce
  note ef = fopen_rb_same [OF f assms(2)]
  have "same_files w1 w' \<and> open_streams w' = open_streams w \<and> next_stream w' = next_stream w1"
  proof (cases f)
    case None
    then show ?thesis using assms(1,3) f ef(3) by (simp add: compare_file_def)
  next
    case (Some i)
    have "same_files w1 w' \<and> open_streams w' = (open_streams w1)(i := None) \<and> next_stream w' = next_stream w1"
    proof (cases "length content = stream_length i w1")
      case True
      then show ?thesis
        using assms(1,3) f Some compare_content_effect [of i content "stream_length i w1" w1 same w']
        by (simp add: compare_file_def)
    next
      case False
      then show ?thesis using assms(1,3) f Some fclose_effect [where w = w1 and f = i]
        by (simp add: compare_file_def)
    qed
    with ef(4) [OF Some] show ?thesis by metis
  qed
  then show "same_files w w'" "open_streams w' = open_streams w" "streams_ok w'"
    using ef(1,2) same_files_trans fopen_rb_effect [OF f] assms(2) open_stream_effect [of _ w f w1]
    by (blast, blast, auto simp: streams_ok_def)
qed

lemma compare_file_regular:
  assumes "plat h \<noteq> Windows" and "stat w dst = Inr p" and "lookup w p = Some (Regular m t s)" and "may_read m"
    and "damaged w p = None" and "compare_file h content dst w = (same, w')"
  shows "same \<longleftrightarrow> content = s"
proof -
  obtain f w1 where f: "open_stream p w = (f, w1)" by fastforce
  note ef = open_stream_effect [OF f]
  note s1 = same_filesD [OF ef(2)]
  let ?i = "next_stream w"
  have st: "open_streams w1 ?i = Some \<lparr>at_place = p, offset = 0\<rparr>" using ef by simp
  have rd: "readable_part w1 p = s" "st_size w1 p = length s"
    using whole_readable [OF assms(3,5)] s1(9,10) by simp_all
  have len: "stream_length ?i w1 = length s" using st rd by (simp add: stream_length_def open_streams_def)
  have run: "(same, w') = (if length content \<noteq> length s then (False, fclose ?i w1)
      else compare_content ?i content (length s) w1)"
    using assms(1,6) fopen_rb_regular [OF assms(2-4)] f ef(1) len by (simp add: compare_file_def split: if_splits)
  show ?thesis
  proof (cases "length content = length s")
    case True
    then show ?thesis
      using run compare_content_equal [OF st rd(1), of content "length s"] by (metis add_0 drop0 fst_conv)
  next
    case False
    then show ?thesis using run by auto
  qed
qed

lemma writefile_same:
  assumes "plat h \<noteq> Windows" and "is_cstring dst" and "streams_ok w" and "stat w dst = Inr p"
    and "lookup w p = Some (Regular m t s)" and "may_read m" and "damaged w p = None"
    and "os_writefile_ifnotequal h [LStr s, LStr dst] w = (r, w')"
  shows "r = Inr [LInt 0]" and "same_files w w'" and "open_streams w' = open_streams w" and "streams_ok w'"
proof -
  obtain same w1 where c: "compare_file h s dst w = (same, w1)" by fastforce
  note e = compare_file_regular [OF assms(1,4-7) c] compare_file_effect [OF assms(1,3) c]
  have "r = Inr [LInt 0]" "w' = w1"
    using assms(1,2,8) c e(1) do_isfile_regular [OF assms(1,4,5)]
    by (simp_all add: os_writefile_ifnotequal_def luaL_checklstring_def arg_def)
  then show "r = Inr [LInt 0]" "same_files w w'" "open_streams w' = open_streams w" "streams_ok w'" using e(2-4) by simp_all
qed

text \<open>On POSIX systems \<open>os.writefile_ifnotequal\<close> of the text that a readable file already holds returns 0
  and touches nothing, not even the time of the file.\<close>

theorem os_writefile_unchanged:
  assumes "plat h \<noteq> Windows" and "is_cstring dst" and "streams_ok w" and "stat w dst = Inr p"
    and "lookup w p = Some (Regular m t s)" and "may_read m" and "damaged w p = None"
    and "os_writefile_ifnotequal h [LStr s, LStr dst] w = (r, w')"
  shows "r = Inr [LInt 0] \<and> nodes w' = nodes w \<and> open_streams w' = open_streams w"
  using writefile_same [OF assms] same_filesD(1) by blast

theorem os_writefile_unchanged_witness:
  "fst (os_writefile_ifnotequal (sample_host Linux) [LStr ''abc'', LStr ''a.txt''] sample_world) = Inr [LInt 0]"
proof -
  obtain r w' where run: "os_writefile_ifnotequal (sample_host Linux) [LStr ''abc'', LStr ''a.txt''] sample_world = (r, w')"
    by fastforce
  have so: "streams_ok sample_world" by (simp add: streams_ok_def open_streams_def sample_world_def)
  have st: "stat sample_world ''a.txt'' = Inr [''home'', ''a.txt'']"
    by (simp add: stat_def existing_def find_place_def is_rooted_def walk.simps lookup_sample)
      (simp add: sample_world_def lookup_def walk.simps)
  have l: "lookup sample_world [''home'', ''a.txt''] = Some (Regular 0x1A4 7 ''abc'')" by (simp add: lookup_sample)
  have "damaged sample_world [''home'', ''a.txt''] = None" by (simp add: sample_world_def)
  from os_writefile_unchanged [OF _ _ so st l _ this run] run show ?thesis by simp
qed

lemma fopen_wb_effect:
  assumes "fopen_wb path w = (Some f, w1)"
  shows "\<exists>p m. find_place w True path = Inr p \<and> f = next_stream w
    \<and> open_stream p (put p (Regular m (clock w) []) w) = (Some f, w1)
    \<and> (lookup w p = None \<or> (\<exists>t s. lookup w p = Some (Regular m t s) \<and> may_write m))"
  using assms
  by (auto simp: fopen_wb_def open_stream_def create_Inr
      split: sum.splits option.splits node.splits if_splits prod.splits)


lemma open_stream_lookup: "open_stream p w = (f, w1) \<Longrightarrow> lookup w1 = lookup w \<and> cwd w1 = cwd w \<and> clock w1 = clock w \<and> disk_full w1 = disk_full w"
  using open_stream_effect(2) same_filesD by metis

lemma fwrite_new:
  assumes "open_streams w f = Some \<lparr>at_place = p, offset = 0\<rparr>" and "lookup w p = Some (Regular m t [])"
    and "fwrite s f w = (items, w1)"
  shows "items = (if s = [] \<or> disk_full w then 0 else 1)"
    and "lookup w1 = (lookup w)(p \<mapsto> Regular m (if items = 1 then clock w else t) (if items = 1 then s else []))"
    and "cwd w1 = cwd w" and "(open_streams w1)(f := None) = (open_streams w)(f := None)"
  using assms by (auto simp: fwrite_def open_streams_def fun_eq_iff update_conv' put_def lookup_def split: if_splits)

text \<open>What opening for writing, writing and closing does to the files.\<close>

lemma write_opened_effect:
  assumes "fopen_wb dst w = (Some f, w1)" and "write_opened s dst (Some f) w1 = (r, w')" and "streams_ok w"
  obtains p m where "find_place w True dst = Inr p"
    "lookup w' = (lookup w)(p \<mapsto> Regular m (clock w) (if r = Inr [LInt 1] then s else []))"
    "r = (if s = [] \<or> disk_full w then write_failed dst else Inr [LInt 1])"
    "stat w' dst = Inr p" "open_streams w' = open_streams w"
proof -
  obtain p m where p: "find_place w True dst = Inr p" "f = next_stream w"
      "open_stream p (put p (Regular m (clock w) []) w) = (Some f, w1)"
      "lookup w p = None \<or> (\<exists>t s. lookup w p = Some (Regular m t s))"
    using fopen_wb_effect [OF assms(1)] by blast
  note e1 = open_stream_effect [OF p(3)] and l1 = open_stream_lookup [OF p(3)]
  obtain items w2 where wr: "fwrite s f w1 = (items, w2)" by fastforce
  have st: "open_streams w1 f = Some \<lparr>at_place = p, offset = 0\<rparr>" using e1(1,4) by auto
  have rg: "lookup w1 p = Some (Regular m (clock w) [])" using l1 by simp
  note e2 = fwrite_new [OF st rg wr]
  have r: "r = (if items = 1 then Inr [LInt 1] else write_failed dst)" and w': "w' = fclose f w2"
    using assms(2) wr by (auto simp: write_opened_def Let_def split: if_splits)
  note e3 = fclose_effect [where w = w2 and f = f] and s3 = same_filesD [OF fclose_effect(1) [where w = w2 and f = f]]
  have one: "r = Inr [LInt 1] \<longleftrightarrow> items = 1" using r by (simp add: write_failed_def)
  have lk: "lookup w' = (lookup w)(p \<mapsto> Regular m (clock w) (if r = Inr [LInt 1] then s else []))"
    using e2(2) l1 s3(7) w' one by (auto simp: fun_eq_iff)
  have cw: "cwd w' = cwd w" using e2(3) l1 s3(2) w' by simp
  have "walks w' True SYMLOOP_MAX (if is_rooted dst then [] else cwd w) (comps dst) p" "dst \<noteq> []"
  proof -
    let ?nd = "Regular m (clock w) (if r = Inr [LInt 1] then s else [])"
    have "walks w True SYMLOOP_MAX (if is_rooted dst then [] else cwd w) (comps dst) p" "dst \<noteq> []"
      using p(1) by (simp_all add: find_place_iff)
    then have "walks (put p ?nd w) True SYMLOOP_MAX (if is_rooted dst then [] else cwd w) (comps dst) p"
      using p(4) by (auto intro: walks_put walks_replace)
    moreover have "lookup w' = lookup (put p ?nd w)" using lk by auto
    ultimately show "walks w' True SYMLOOP_MAX (if is_rooted dst then [] else cwd w) (comps dst) p"
      by (blast intro: walks_cong)
    show "dst \<noteq> []" by fact
  qed
  then have "stat w' dst = Inr p" using lk cw by (simp add: stat_def find_place_iff split: if_splits)
  moreover have "open_streams w' = open_streams w"
  proof -
    have "open_streams (put p (Regular m (clock w) []) w) = open_streams w" by (simp add: open_streams_def)
    then have "(open_streams w1)(f := None) = (open_streams w)(f := None)" using e1(4) p(2) by auto
    moreover have "(open_streams w)(f := None) = open_streams w" using assms(3) p(2) by (auto simp: streams_ok_def)
    ultimately show ?thesis using e2(4) e3(2) w' by simp
  qed
  moreover have "r = (if s = [] \<or> disk_full w then write_failed dst else Inr [LInt 1])"
    using r e2(1) l1 by simp
  ultimately show thesis using that p(1) lk by blast
qed

lemma streams_ok_cong: "open_streams w' = open_streams w \<Longrightarrow> next_stream w \<le> next_stream w' \<Longrightarrow> streams_ok w \<Longrightarrow> streams_ok w'"
  by (auto simp: streams_ok_def)

text \<open>The two parts of the function: the comparison, which touches nothing, and what follows.\<close>

lemma writefile_run:
  assumes "plat h \<noteq> Windows" and "is_cstring dst" and "streams_ok w"
    and "os_writefile_ifnotequal h [LStr s, LStr dst] w = (r, w')"
  obtains same w1 where "(if do_isfile h dst w then compare_file h s dst w else (False, w)) = (same, w1)"
    "same_files w w1" "open_streams w1 = open_streams w" "streams_ok w1"
    "(r, w') = (if same then (Inr [LInt 0], w1)
      else let (handle, w2) = fopen_wb dst w1 in write_opened s dst handle w2)"
proof -
  obtain same w1 where c: "(if do_isfile h dst w then compare_file h s dst w else (False, w)) = (same, w1)" by fastforce
  have e: "same_files w w1 \<and> open_streams w1 = open_streams w \<and> streams_ok w1"
    using c assms(3) compare_file_effect [OF assms(1,3)] by (cases "do_isfile h dst w") auto
  have "(r, w') = (if same then (Inr [LInt 0], w1)
      else let (handle, w2) = fopen_wb dst w1 in write_opened s dst handle w2)"
    using assms(1,2,4) c by (auto simp: os_writefile_ifnotequal_def luaL_checklstring_def arg_def split: if_splits)
  with that c e show thesis by blast
qed



text \<open>Writing the empty text to a file that does not exist yet makes the empty file and reports a
  failure: \<open>fwrite\<close> of an item of length 0 writes no item.\<close>

theorem os_writefile_empty:
  assumes "plat h \<noteq> Windows" and "is_cstring dst" and "streams_ok w"
    and "find_place w True dst = Inr p" and "lookup w p = None" and "lookup w (butlast p) = Some (Directory m)"
    and "may_write m" and "p \<noteq> []" and "os_writefile_ifnotequal h [LStr [], LStr dst] w = (r, w')"
  shows "r = write_failed dst \<and> stat w' dst = Inr p \<and> contents w' p = [] \<and> lookup w' p \<noteq> None"
proof -
  have st: "\<not> do_isfile h dst w" using assms(1,4,5) by (simp add: do_isfile_def stat_def existing_def)
  obtain w2 where o: "fopen_wb dst w = (Some (next_stream w), w2)"
    using assms(4-8) by (simp add: fopen_wb_def create_def parent_mode_def open_stream_def)
  have "write_opened [] dst (Some (next_stream w)) w2 = (r, w')"
    using assms(1,2,9) st o by (simp add: os_writefile_ifnotequal_def luaL_checklstring_def arg_def)
  from write_opened_effect [OF o this assms(3)] obtain q m' where q: "find_place w True dst = Inr q"
      "lookup w' = (lookup w)(q \<mapsto> Regular m' (clock w) [])" "r = write_failed dst" "stat w' dst = Inr q"
    by (metis (no_types, lifting))
  then show ?thesis using assms(4) by (simp add: contents_def)
qed

theorem os_writefile_empty_witness:
  "fst (os_writefile_ifnotequal (sample_host Linux) [LStr [], LStr ''/home/n.txt''] sample_world) = write_failed ''/home/n.txt''"
proof -
  obtain r w' where run: "os_writefile_ifnotequal (sample_host Linux) [LStr [], LStr ''/home/n.txt''] sample_world = (r, w')"
    by fastforce
  have so: "streams_ok sample_world" by (simp add: streams_ok_def open_streams_def sample_world_def)
  have st: "find_place sample_world True ''/home/n.txt'' = Inr [''home'', ''n.txt'']"
    by (simp add: find_place_def is_rooted_def walk.simps lookup_sample)
  from os_writefile_empty [OF _ _ so st _ _ _ _ run] run show ?thesis by (simp add: lookup_sample)
qed

section \<open>Touching\<close>

text \<open>\<open>os.touchfile\<close> on POSIX systems. For a file that exists it sets the time to the present, keeps the
  contents and returns 0; for a free place in a directory that may be written it makes an empty file and
  returns 1.\<close>

theorem os_touchfile_outcome:
  assumes "plat h \<noteq> Windows" and "is_cstring dst" and "streams_ok w" and "find_place w True dst = Inr p"
    and "os_touchfile h [LStr dst] w = (r, w')"
  shows "(\<forall>m t s. lookup w p = Some (Regular m t s) \<longrightarrow> r = Inr [LInt 0] \<and> w' = put p (Regular m (clock w) s) w)
    \<and> (\<forall>m. lookup w p = None \<and> p \<noteq> [] \<and> lookup w (butlast p) = Some (Directory m) \<and> may_write m \<longrightarrow>
         r = Inr [LInt 1] \<and> lookup w' = (lookup w)(p \<mapsto> Regular (0x1B6 AND NOT (umask w)) (clock w) [])
         \<and> open_streams w' = open_streams w)"
proof (intro conjI allI impI)
  fix m t s assume l: "lookup w p = Some (Regular m t s)"
  then have st: "stat w dst = Inr p" using assms(4) by (simp add: stat_def)
  then show "r = Inr [LInt 0]" "w' = put p (Regular m (clock w) s) w"
    using assms(1,2,5) l do_isfile_regular [OF assms(1) st l]
    by (simp_all add: os_touchfile_def touch_existing_def touch_file_def sys_utime_def Let_def)
next
  fix m assume l: "lookup w p = None \<and> p \<noteq> [] \<and> lookup w (butlast p) = Some (Directory m) \<and> may_write m"
  let ?nd = "Regular (0x1B6 AND NOT (umask w)) (clock w) []"
  obtain f w1 where o: "open_stream p (put p ?nd w) = (f, w1)" by fastforce
  note e = open_stream_effect [OF o]
  have st: "\<not> do_isfile h dst w" using assms(1,4) l by (simp add: do_isfile_def stat_def existing_def)
  have "fopen_wb dst w = (f, w1)"
    using assms(4) l o by (simp add: fopen_wb_def create_def parent_mode_def)
  then have run: "r = Inr [LInt 1]" "w' = fclose (next_stream w) w1"
    using assms(1,2,5) st e(1) by (simp_all add: os_touchfile_def)
  then show "r = Inr [LInt 1]" by simp
  note s3 = same_filesD [OF fclose_effect(1) [where w = w1 and f = "next_stream w"]]
  have "lookup w1 = (lookup w)(p \<mapsto> ?nd)" using open_stream_lookup [OF o] by auto
  then show "lookup w' = (lookup w)(p \<mapsto> ?nd)" using s3(7) run(2) by simp
  have "open_streams w' = (open_streams w)(next_stream w := None)"
    using fclose_effect(2) [of "next_stream w" w1] e(4) run(2) by (simp add: open_streams_def)
  then show "open_streams w' = open_streams w" using assms(3) by (auto simp: streams_ok_def)
qed

theorem os_touchfile_outcome_witness:
  "os_touchfile (sample_host Linux) [LStr ''a.txt''] sample_world =
     (Inr [LInt 0], put [''home'', ''a.txt''] (Regular 0x1A4 100 ''abc'') sample_world)"
proof -
  obtain r w' where run: "os_touchfile (sample_host Linux) [LStr ''a.txt''] sample_world = (r, w')" by fastforce
  have so: "streams_ok sample_world" by (simp add: streams_ok_def open_streams_def sample_world_def)
  have st: "find_place sample_world True ''a.txt'' = Inr [''home'', ''a.txt'']"
    by (simp add: find_place_def is_rooted_def walk.simps lookup_sample)
      (simp add: sample_world_def lookup_def walk.simps)
  have "lookup sample_world [''home'', ''a.txt''] = Some (Regular 0x1A4 7 ''abc'')" "clock sample_world = 100"
    by (simp_all add: lookup_sample) (simp add: sample_world_def)
  with os_touchfile_outcome [OF _ _ so st run] run show ?thesis by simp
qed

section \<open>Writing as a step\<close>

lemma stream_fields:
  "fopen_wb dst w = (f, w1) \<Longrightarrow> damaged w1 = damaged w \<and> cwd w1 = cwd w \<and> next_stream w \<le> next_stream w1"
  "fwrite s i w = (n, w1) \<Longrightarrow> damaged w1 = damaged w \<and> cwd w1 = cwd w \<and> next_stream w1 = next_stream w"
  "damaged (fclose i w) = damaged w \<and> cwd (fclose i w) = cwd w \<and> next_stream (fclose i w) = next_stream w"
  by (auto simp: fopen_wb_def fwrite_def fclose_def open_stream_def create_Inr put_def Let_def
      split: sum.splits option.splits node.splits if_splits prod.splits dest!: create_Inl)

lemma compare_file_same:
  assumes "plat h \<noteq> Windows" and "streams_ok w" and "compare_file h s dst w = (True, w')" and "do_isfile h dst w"
    and "\<forall>p. stat w dst = Inr p \<longrightarrow> damaged w p = None"
  obtains p m t where "stat w dst = Inr p" "lookup w p = Some (Regular m t s)"
proof -
  obtain f w1 where f: "fopen_rb dst w = (Some f, w1)"
    using assms(1,3) by (cases "fopen_rb dst w"; cases "fst (fopen_rb dst w)") (auto simp: compare_file_def)
  then obtain p where p: "stat w dst = Inr p" by (auto simp: fopen_rb_def split: sum.splits)
  then have "\<not> is_dir w p" using assms(1,4) by (simp add: do_isfile_def)
  with f p obtain m t s' where l: "lookup w p = Some (Regular m t s')" and m: "may_read m"
    by (auto simp: fopen_rb_def is_dir_def split: option.splits node.splits if_splits)
  from compare_file_regular [OF assms(1) p l m _ assms(3)] assms(5) p have "s = s'" by simp
  with that p l show thesis by blast
qed

text \<open>A write that succeeds leaves the text in the file that the path names then, and disturbs no other path.\<close>

lemma writefile_step:
  assumes "plat h \<noteq> Windows" and "is_cstring dst" and "streams_ok w"
    and "os_writefile_ifnotequal h [LStr s, LStr dst] w = (r, w')" and "r \<in> {Inr [LInt 0], Inr [LInt 1]}"
    and "\<forall>p. stat w dst = Inr p \<longrightarrow> damaged w p = None"
  obtains p m t where "stat w' dst = Inr p" "lookup w' p = Some (Regular m t s)" "\<forall>q. q \<noteq> p \<longrightarrow> lookup w' q = lookup w q"
    "keeps_paths True w w'" "cwd w' = cwd w" "damaged w' = damaged w" "streams_ok w'" "open_streams w' = open_streams w"
proof -
  obtain same w1 where c: "(if do_isfile h dst w then compare_file h s dst w else (False, w)) = (same, w1)"
    and e: "same_files w w1" "open_streams w1 = open_streams w" "streams_ok w1"
    and run: "(r, w') = (if same then (Inr [LInt 0], w1)
      else let (handle, w2) = fopen_wb dst w1 in write_opened s dst handle w2)"
    by (rule writefile_run [OF assms(1-4)])
  note s1 = same_filesD [OF e(1)]
  show thesis
  proof (cases same)
    case True
    with c have isf: "do_isfile h dst w" and cf: "compare_file h s dst w = (True, w1)" by (auto split: if_splits)
    obtain p m t where p: "stat w dst = Inr p" "lookup w p = Some (Regular m t s)"
      using compare_file_same [OF assms(1,3) cf isf assms(6)] by blast
    have "w' = w1" using run True by simp
    moreover have "stat w1 dst = Inr p" using stat_cong [OF s1(7,2)] p(1) by simp
    moreover have "keeps_paths True w w1" using s1(7) by (auto simp: keeps_paths_def)
    ultimately show thesis using that [of p m t] p e s1 by simp
  next
    case False
    obtain handle w2 where o: "fopen_wb dst w1 = (handle, w2)" by fastforce
    obtain f where f: "handle = Some f"
      using run False o assms(5) by (cases handle) (auto simp: write_opened_def write_failed_def)
    have w: "write_opened s dst (Some f) w2 = (r, w')" using run False o f by simp
    obtain p m where x: "find_place w1 True dst = Inr p"
        "lookup w' = (lookup w1)(p \<mapsto> Regular m (clock w1) (if r = Inr [LInt 1] then s else []))"
        "r = (if s = [] \<or> disk_full w1 then write_failed dst else Inr [LInt 1])"
        "stat w' dst = Inr p" "open_streams w' = open_streams w1"
      using write_opened_effect [OF o [unfolded f] w e(3)] by metis
    have r: "r = Inr [LInt 1]" using x(3) assms(5) by (auto simp: write_failed_def split: if_splits)
    obtain items w3 where wr: "fwrite s f w2 = (items, w3)" by fastforce
    then have w': "w' = fclose f w3" using w by (auto simp: write_opened_def Let_def split: if_splits)
    have fields: "damaged w' = damaged w1" "cwd w' = cwd w1" "next_stream w1 \<le> next_stream w'"
      using stream_fields(1) [OF o] stream_fields(2) [OF wr] stream_fields(3) [of f w3] w' by auto
    have "lookup w1 p = None \<or> (\<exists>m t s. lookup w1 p = Some (Regular m t s))"
      using fopen_wb_effect [OF o [unfolded f]] x(1) by auto
    then have "keeps_paths True w w'"
      using x(2) s1(7) r by (auto simp: keeps_paths_def plain_node_def)
    moreover have "streams_ok w'" using streams_ok_cong [OF x(5) fields(3) e(3)] by blast
    ultimately show thesis
      using that [of p m "clock w1"] x fields e s1 r by (auto simp: fun_upd_def)
  qed
qed

end
