(* ===== verification/Match.thy ===== *)
theory Match
  imports File_Ops
begin

text \<open>
  \<open>src/host/os_match.c\<close>: the enumeration of the entries of a directory that match a mask, as an
  object with a lifetime: \<open>os.matchstart\<close> makes it, \<open>os.matchnext\<close>, \<open>os.matchname\<close> and
  \<open>os.matchisfile\<close> use it, \<open>os.matchdone\<close> and the garbage collector release it. The objects live in a
  heap; the directory streams that are open are recorded beside it. A directory stream delivers the
  entries that the directory had when it was opened, the two dots first.

  An object is finalised when it is unreachable, after which no call can name it; the model lets the
  finaliser run at any time, also twice.
\<close>

section \<open>Objects\<close>

record dirent =
  d_name :: cstring
  d_dir :: bool

record MatchInfo =
  handle :: "nat option"
  entry :: "dirent option"
  match_path :: "cstring option"
  mask :: "cstring option"
  mask_is_literal :: bool
  is_first :: bool
  win_entry :: find_data

record matcher =
  machine :: world
  infos :: "nat \<Rightarrow> MatchInfo option"
  dir_streams :: "nat \<Rightarrow> dirent list option" \<comment> \<open>what an open stream has still to deliver\<close>
  find_streams :: "nat \<Rightarrow> find_data list option"
  next_object :: nat
  next_handle :: nat

definition luaL_checkudata :: "lval list \<Rightarrow> matcher \<Rightarrow> fault + nat \<times> MatchInfo" where
  \<comment> \<open>\<open>luaL_checkudata(L, 1, METATABLE_NAME)\<close>\<close>
  "luaL_checkudata args s =
     (case arg args 1 of
        Some (LUser i) \<Rightarrow> (case infos s i of Some m \<Rightarrow> Inr (i, m) | None \<Rightarrow> Inl (BadArgument 1))
      | _ \<Rightarrow> Inl (BadArgument 1))"

definition set_info :: "nat \<Rightarrow> MatchInfo \<Rightarrow> matcher \<Rightarrow> matcher" where
  "set_info i m s = s\<lparr>infos := (infos s)(i \<mapsto> m)\<rparr>"

text \<open>\<open>opendir\<close>, \<open>readdir\<close> and \<open>closedir\<close>; closing a stream that is not open is undefined.\<close>

definition dir_entries :: "world \<Rightarrow> place \<Rightarrow> dirent list" where
  "dir_entries w p =
     \<lparr>d_name = ''.'', d_dir = True\<rparr> # \<lparr>d_name = ''..'', d_dir = True\<rparr> #
     map (\<lambda>c. \<lparr>d_name = c, d_dir = is_dir w (p @ [c])\<rparr>) (children w p)"

definition opendir :: "cstring \<Rightarrow> matcher \<Rightarrow> nat option \<times> matcher" where
  "opendir path s =
     (case stat (machine s) path of
        Inl _ \<Rightarrow> (None, s)
      | Inr p \<Rightarrow>
          (case lookup (machine s) p of
             Some (Directory m) \<Rightarrow>
               if may_read m then
                 (Some (next_handle s),
                  s\<lparr>dir_streams := (dir_streams s)(next_handle s \<mapsto> dir_entries (machine s) p),
                    next_handle := Suc (next_handle s)\<rparr>)
               else (None, s)
           | _ \<Rightarrow> (None, s)))"

definition closedir :: "nat \<Rightarrow> matcher \<Rightarrow> fault + matcher" where
  "closedir d s =
     (if dir_streams s d = None then Inl OutOfBounds else Inr (s\<lparr>dir_streams := (dir_streams s)(d := None)\<rparr>))"

definition FindClose :: "nat \<Rightarrow> matcher \<Rightarrow> fault + matcher" where
  "FindClose d s =
     (if find_streams s d = None then Inl OutOfBounds else Inr (s\<lparr>find_streams := (find_streams s)(d := None)\<rparr>))"

section \<open>The operations\<close>

text \<open>The finaliser releases what the object still holds, and forgets it.\<close>

definition gc_MatchInfo_win :: "nat \<Rightarrow> MatchInfo \<Rightarrow> matcher \<Rightarrow> fault + matcher" where
  "gc_MatchInfo_win i m s =
     (case handle m of
        None \<Rightarrow> Inr s
      | Some d \<Rightarrow> bind_f (FindClose d s) (\<lambda>s1. Inr (set_info i (m\<lparr>handle := None\<rparr>) s1)))"

definition gc_MatchInfo_posix :: "nat \<Rightarrow> MatchInfo \<Rightarrow> matcher \<Rightarrow> fault + matcher" where
  "gc_MatchInfo_posix i m s =
     (case handle m of
        None \<Rightarrow> Inr (set_info i (m\<lparr>match_path := None, mask := None\<rparr>) s)
      | Some d \<Rightarrow> bind_f (closedir d s) (\<lambda>s1.
          Inr (set_info i (m\<lparr>handle := None, match_path := None, mask := None\<rparr>) s1)))"

definition gc_MatchInfo :: "host \<Rightarrow> nat \<Rightarrow> MatchInfo \<Rightarrow> matcher \<Rightarrow> fault + matcher" where
  "gc_MatchInfo h i m s = (if windows h then gc_MatchInfo_win i m s else gc_MatchInfo_posix i m s)"

lemmas gc_MatchInfo_defs = gc_MatchInfo_def gc_MatchInfo_win_def gc_MatchInfo_posix_def

definition split_mask :: "cstring \<Rightarrow> cstring \<times> cstring" where
  "split_mask m =
     (case strrchr m SLASH of
        Some split \<Rightarrow> (take (length m - length split) m, tl split)
      | None \<Rightarrow> (''.'', m))"

definition empty_info :: MatchInfo where
  "empty_info = \<lparr>handle = None, entry = None, match_path = None, mask = None, mask_is_literal = False,
     is_first = False, win_entry = \<lparr>cFileName = [], attribute_directory = False\<rparr>\<rparr>"

definition new_object :: "MatchInfo \<Rightarrow> matcher \<Rightarrow> lua_ret \<times> matcher" where
  "new_object m s =
     (Inr [LUser (next_object s)], (set_info (next_object s) m s)\<lparr>next_object := Suc (next_object s)\<rparr>)"

definition no_wildcards :: "cstring \<Rightarrow> bool" where
  \<comment> \<open>\<open>strpbrk(mask, "*?[") == NULL\<close>\<close>
  "no_wildcards k \<longleftrightarrow> (\<forall>c \<in> set k. c \<notin> {CHR ''*'', CHR ''?'', CHR ''['' })"

definition os_matchstart_win :: "host \<Rightarrow> lval list \<Rightarrow> matcher \<Rightarrow> lua_ret \<times> matcher" where
  "os_matchstart_win h args s =
     (case luaL_checkconvertlstring h args 1 of
        Inl e \<Rightarrow> (Inl e, s)
      | Inr m \<Rightarrow>
          (case FindFirstFileW (win h) m (machine s) of
             [] \<Rightarrow> new_object (empty_info\<lparr>is_first := True\<rparr>) s
           | e # es \<Rightarrow>
               new_object (empty_info\<lparr>is_first := True, handle := Some (next_handle s), win_entry := e\<rparr>)
                 (s\<lparr>find_streams := (find_streams s)(next_handle s \<mapsto> es), next_handle := Suc (next_handle s)\<rparr>)))"

definition os_matchstart_posix :: "lval list \<Rightarrow> matcher \<Rightarrow> lua_ret \<times> matcher" where
  "os_matchstart_posix args s =
     (case luaL_checkstring args 1 of
        Inl e \<Rightarrow> (Inl e, s)
      | Inr m \<Rightarrow>
          let (p, k) = split_mask m; (d, s1) = opendir p s in
          new_object (empty_info\<lparr>match_path := Some p, mask := Some k,
             mask_is_literal := no_wildcards k, handle := d\<rparr>) s1)"

definition os_matchstart :: "host \<Rightarrow> lval list \<Rightarrow> matcher \<Rightarrow> lua_ret \<times> matcher" where
  "os_matchstart h args s = (if windows h then os_matchstart_win h args s else os_matchstart_posix args s)"

lemmas os_matchstart_defs = os_matchstart_def os_matchstart_win_def os_matchstart_posix_def

definition os_matchdone :: "host \<Rightarrow> lval list \<Rightarrow> matcher \<Rightarrow> lua_ret \<times> matcher" where
  "os_matchdone h args s =
     (case bind_f (luaL_checkudata args s) (\<lambda>(i, m). gc_MatchInfo h i m s) of
        Inl e \<Rightarrow> (Inl e, s)
      | Inr s1 \<Rightarrow> (Inr [], s1))"

text \<open>The entry of a POSIX object is a pointer into its stream, so it is gone when the stream is closed.\<close>

definition current_entry :: "MatchInfo \<Rightarrow> fault + dirent" where
  "current_entry m =
     (case (handle m, entry m) of (Some _, Some e) \<Rightarrow> Inr e | _ \<Rightarrow> Inl OutOfBounds)"

definition os_matchname_win :: "host \<Rightarrow> lval list \<Rightarrow> matcher \<Rightarrow> lua_ret" where
  "os_matchname_win h args s = bind_f (luaL_checkudata args s) (\<lambda>(i, m).
     Inr (case luaL_convertwstring h (cFileName (win_entry m)) of Some n \<Rightarrow> [LStr n] | None \<Rightarrow> []))"

definition os_matchname_posix :: "lval list \<Rightarrow> matcher \<Rightarrow> lua_ret" where
  "os_matchname_posix args s = bind_f (luaL_checkudata args s) (\<lambda>(i, m).
     bind_f (current_entry m) (\<lambda>e. Inr [LStr (d_name e)]))"

definition os_matchname :: "host \<Rightarrow> lval list \<Rightarrow> matcher \<Rightarrow> lua_ret" where
  "os_matchname h args s = (if windows h then os_matchname_win h args s else os_matchname_posix args s)"

lemmas os_matchname_defs = os_matchname_def os_matchname_win_def os_matchname_posix_def

definition os_matchisfile_win :: "lval list \<Rightarrow> matcher \<Rightarrow> lua_ret" where
  "os_matchisfile_win args s = bind_f (luaL_checkudata args s) (\<lambda>(i, m).
     Inr [LBool (\<not> attribute_directory (win_entry m))])"

definition os_matchisfile_posix :: "host \<Rightarrow> lval list \<Rightarrow> matcher \<Rightarrow> lua_ret" where
  "os_matchisfile_posix h args s = bind_f (luaL_checkudata args s) (\<lambda>(i, m).
     bind_f (current_entry m) (\<lambda>e.
       if has_d_type h \<and> d_dir e then Inr [LBool False]
       else
         let fname = (case match_path m of None \<Rightarrow> ''(null)'' | Some p \<Rightarrow> p) @ ''/'' @ d_name e in
         Inr [LBool (do_isfile h fname (machine s))]))"

definition os_matchisfile :: "host \<Rightarrow> lval list \<Rightarrow> matcher \<Rightarrow> lua_ret" where
  "os_matchisfile h args s = (if windows h then os_matchisfile_win args s else os_matchisfile_posix h args s)"

definition is_dots :: "cstring \<Rightarrow> bool" where
  "is_dots name \<longleftrightarrow>
     peek name = DOT \<and> (peek (tl name) = NUL \<or> peek (tl name) = DOT \<and> peek (tl (tl name)) = NUL)"

definition mask_matches :: "host \<Rightarrow> MatchInfo \<Rightarrow> cstring \<Rightarrow> bool" where
  "mask_matches h m name =
     (case mask m of
        None \<Rightarrow> False
      | Some k \<Rightarrow> if mask_is_literal m then k = name else fnmatch h k name)"

primrec read_next :: "host \<Rightarrow> MatchInfo \<Rightarrow> dirent list \<Rightarrow> dirent option \<times> dirent list" where
  "read_next h m [] = (None, [])"
| "read_next h m (e # es) =
     (if is_dots (d_name e) then read_next h m es
      else if mask_matches h m (d_name e) then (Some e, es)
      else read_next h m es)"

definition wide_dots :: "wstring \<Rightarrow> bool" where
  "wide_dots s \<longleftrightarrow> takeWhile (\<lambda>c. c \<noteq> 0) s \<in> {[0x2E], [0x2E, 0x2E]}"

primrec find_next :: "find_data list \<Rightarrow> (find_data \<times> find_data list) option" where
  "find_next [] = None"
| "find_next (e # es) = (if wide_dots (cFileName e) then find_next es else Some (e, es))"

definition os_matchnext_win :: "lval list \<Rightarrow> matcher \<Rightarrow> lua_ret \<times> matcher" where
  "os_matchnext_win args s =
     (case luaL_checkudata args s of
        Inl e \<Rightarrow> (Inl e, s)
      | Inr (i, m) \<Rightarrow>
          (case handle m of
             None \<Rightarrow> (Inr [], s)
           | Some d \<Rightarrow>
               (case find_streams s d of
                  None \<Rightarrow> (Inl OutOfBounds, s)
                | Some es \<Rightarrow>
                    (case find_next (if is_first m then win_entry m # es else es) of
                       None \<Rightarrow>
                         (Inr [], set_info i (m\<lparr>is_first := False, win_entry := last (win_entry m # es)\<rparr>)
                            (s\<lparr>find_streams := (find_streams s)(d \<mapsto> [])\<rparr>))
                     | Some (e, rest) \<Rightarrow>
                         (Inr [LBool True], set_info i (m\<lparr>is_first := False, win_entry := e\<rparr>)
                            (s\<lparr>find_streams := (find_streams s)(d \<mapsto> rest)\<rparr>))))))"

definition os_matchnext_posix :: "host \<Rightarrow> lval list \<Rightarrow> matcher \<Rightarrow> lua_ret \<times> matcher" where
  "os_matchnext_posix h args s =
     (case luaL_checkudata args s of
        Inl e \<Rightarrow> (Inl e, s)
      | Inr (i, m) \<Rightarrow>
          (case handle m of
             None \<Rightarrow> (Inr [], s)
           | Some d \<Rightarrow>
               (case dir_streams s d of
                  None \<Rightarrow> (Inl OutOfBounds, s)
                | Some es \<Rightarrow>
                    let (e, rest) = read_next h m es in
                    (Inr (if e = None then [] else [LBool True]),
                     set_info i (m\<lparr>entry := e\<rparr>) (s\<lparr>dir_streams := (dir_streams s)(d \<mapsto> rest)\<rparr>)))))"

definition os_matchnext :: "host \<Rightarrow> lval list \<Rightarrow> matcher \<Rightarrow> lua_ret \<times> matcher" where
  "os_matchnext h args s = (if windows h then os_matchnext_win args s else os_matchnext_posix h args s)"

lemmas os_matchnext_defs = os_matchnext_def os_matchnext_win_def os_matchnext_posix_def

section \<open>Runs\<close>

datatype match_call =
    MatchStart "lval list"
  | MatchNext "lval list"
  | MatchName "lval list"
  | MatchIsFile "lval list"
  | MatchDone "lval list"
  | Collect nat

definition match_exec :: "host \<Rightarrow> match_call \<Rightarrow> matcher \<Rightarrow> lua_ret \<times> matcher" where
  "match_exec h c s =
     (case c of
        MatchStart args \<Rightarrow> os_matchstart h args s
      | MatchNext args \<Rightarrow> os_matchnext h args s
      | MatchName args \<Rightarrow> (os_matchname h args s, s)
      | MatchIsFile args \<Rightarrow> (os_matchisfile h args s, s)
      | MatchDone args \<Rightarrow> os_matchdone h args s
      | Collect i \<Rightarrow>
          (case infos s i of
             None \<Rightarrow> (Inr [], s)
           | Some m \<Rightarrow> (case gc_MatchInfo h i m s of Inl e \<Rightarrow> (Inl e, s) | Inr s1 \<Rightarrow> (Inr [], s1))))"

text \<open>The scripts may do anything to the files between two calls.\<close>

inductive match_reach :: "host \<Rightarrow> matcher \<Rightarrow> bool" for h where
  start: "infos s = (\<lambda>_. None) \<Longrightarrow> dir_streams s = (\<lambda>_. None) \<Longrightarrow> find_streams s = (\<lambda>_. None) \<Longrightarrow> match_reach h s"
| call: "match_reach h s \<Longrightarrow> match_exec h c s = (r, s') \<Longrightarrow> match_reach h s'"
| files: "match_reach h s \<Longrightarrow> match_reach h (s\<lparr>machine := w\<rparr>)"

definition held :: "matcher \<Rightarrow> nat \<Rightarrow> nat option" where
  \<comment> \<open>the stream that an object holds\<close>
  "held s i = (case infos s i of None \<Rightarrow> None | Some m \<Rightarrow> handle m)"

definition opened :: "host \<Rightarrow> matcher \<Rightarrow> nat set" where
  "opened h s = (if windows h then dom (find_streams s) else dom (dir_streams s))"

definition match_ok :: "host \<Rightarrow> matcher \<Rightarrow> bool" where
  \<comment> \<open>every open stream is held by exactly one object, and what an object holds is open\<close>
  "match_ok h s \<longleftrightarrow>
     (\<forall>i. infos s i \<noteq> None \<longrightarrow> i < next_object s) \<and> (\<forall>d \<in> opened h s. d < next_handle s) \<and>
     opened h s = {d. \<exists>i. held s i = Some d} \<and> (\<forall>i j d. held s i = Some d \<and> held s j = Some d \<longrightarrow> i = j)"

lemma match_okD:
  assumes "match_ok h s"
  shows "infos s i \<noteq> None \<Longrightarrow> i < next_object s" and "d \<in> opened h s \<Longrightarrow> d < next_handle s"
    and "d \<in> opened h s \<longleftrightarrow> (\<exists>i. held s i = Some d)" and "held s i = Some d \<Longrightarrow> held s j = Some d \<Longrightarrow> i = j"
  using assms unfolding match_ok_def by blast+

lemma match_ok_same:
  assumes "match_ok h s" and "held s' = held s" and "opened h s' = opened h s" and "next_handle s' = next_handle s"
    and "\<And>i. infos s' i \<noteq> None \<Longrightarrow> infos s i \<noteq> None \<or> i < next_object s'" and "next_object s \<le> next_object s'"
  shows "match_ok h s'"
proof -
  have "i < next_object s'" if "infos s' i \<noteq> None" for i
    using assms(5) [OF that] match_okD(1) [OF assms(1), of i] assms(6) by linarith
  moreover have "d < next_handle s'" if "d \<in> opened h s'" for d
    using that match_okD(2) [OF assms(1)] assms(3,4) by simp
  moreover have "opened h s' = {d. \<exists>i. held s' i = Some d}"
    using match_okD(3) [OF assms(1)] assms(2,3) by auto
  moreover have "i = j" if "held s' i = Some d \<and> held s' j = Some d" for i j d
    using that match_okD(4) [OF assms(1)] assms(2) by metis
  ultimately show ?thesis unfolding match_ok_def by simp
qed

lemma match_ok_open:
  assumes ok: "match_ok h s" and i: "infos s i = None" and d: "d = next_handle s"
    and "held s' = (held s)(i := Some d)" and "opened h s' = insert d (opened h s)" and "next_handle s' = Suc d"
    and "\<And>j. infos s' j \<noteq> None \<Longrightarrow> infos s j \<noteq> None \<or> j < next_object s'" and "next_object s \<le> next_object s'"
  shows "match_ok h s'"
proof -
  have "held s i = None" using i by (simp add: held_def)
  moreover have nd: "held s j \<noteq> Some d" for j using match_okD(2,3) [OF ok, of d] d by auto
  ultimately have "x \<in> opened h s' \<longleftrightarrow> (\<exists>j. held s' j = Some x)" for x
    using match_okD(3) [OF ok, of x] assms(4,5) by (metis fun_upd_apply insert_iff option.distinct(1) option.inject)
  then have "opened h s' = {d. \<exists>i. held s' i = Some d}" by blast
  moreover have "\<forall>i j d. held s' i = Some d \<and> held s' j = Some d \<longrightarrow> i = j"
    using match_okD(4) [OF ok] assms(4) nd by (auto split: if_splits)
  moreover have "\<forall>d \<in> opened h s'. d < next_handle s'"
    using match_okD(2) [OF ok] assms(5,6) d by (auto intro: less_SucI)
  moreover have "\<forall>j. infos s' j \<noteq> None \<longrightarrow> j < next_object s'"
    using match_okD(1) [OF ok] assms(7,8) by (metis order_less_le_trans)
  ultimately show ?thesis unfolding match_ok_def by blast
qed

lemma match_ok_close:
  assumes ok: "match_ok h s" and i: "held s i = Some d"
    and "held s' = (held s)(i := None)" and "opened h s' = opened h s - {d}" and "next_handle s' = next_handle s"
    and "\<And>j. infos s' j \<noteq> None \<Longrightarrow> infos s j \<noteq> None" and "next_object s' = next_object s"
  shows "match_ok h s'"
proof -
  have "x \<in> opened h s' \<longleftrightarrow> (\<exists>j. held s' j = Some x)" for x
    using match_okD(3) [OF ok, of x] match_okD(4) [OF ok i] assms(3,4) i
    by (metis DiffD1 DiffD2 DiffI fun_upd_apply option.distinct(1) singletonD singletonI option.inject)
  then have "opened h s' = {d. \<exists>i. held s' i = Some d}" by blast
  moreover have "\<forall>i j d. held s' i = Some d \<and> held s' j = Some d \<longrightarrow> i = j"
    using match_okD(4) [OF ok] assms(3) by (auto split: if_splits)
  moreover have "\<forall>d \<in> opened h s'. d < next_handle s'" using match_okD(2) [OF ok] assms(4,5) by auto
  moreover have "\<forall>j. infos s' j \<noteq> None \<longrightarrow> j < next_object s'" using match_okD(1) [OF ok] assms(6,7) by metis
  ultimately show ?thesis unfolding match_ok_def by blast
qed

lemma gc_ok:
  assumes ok: "match_ok h s" and i: "infos s i = Some m"
  shows "\<exists>s'. gc_MatchInfo h i m s = Inr s' \<and> match_ok h s' \<and> held s' = (held s)(i := None)"
proof (cases "handle m")
  case None
  let ?s = "if windows h then s else set_info i (m\<lparr>match_path := None, mask := None\<rparr>) s"
  have h: "held s i = None" using i None by (simp add: held_def)
  then have "held ?s = held s" using i None by (auto simp: held_def set_info_def)
  moreover have "match_ok h ?s"
    by (rule match_ok_same [OF ok]) (use i None in \<open>auto simp: held_def set_info_def opened_def split: if_splits\<close>)
  ultimately show ?thesis using None h by (auto simp: gc_MatchInfo_defs fun_upd_idem)
next
  case (Some d)
  have h: "held s i = Some d" using i Some by (simp add: held_def)
  then have o: "d \<in> opened h s" using match_okD(3) [OF ok] by blast
  show ?thesis
  proof (cases "windows h")
    case True
    let ?s = "set_info i (m\<lparr>handle := None\<rparr>) (s\<lparr>find_streams := (find_streams s)(d := None)\<rparr>)"
    have e: "gc_MatchInfo h i m s = Inr ?s" using Some True o by (auto simp: gc_MatchInfo_defs FindClose_def opened_def)
    have hs: "held ?s = (held s)(i := None)" by (auto simp: held_def set_info_def)
    have "match_ok h ?s"
      by (rule match_ok_close [OF ok h hs]) (use True i in \<open>auto simp: opened_def set_info_def split: if_splits\<close>)
    with e hs show ?thesis by blast
  next
    case False
    let ?s = "set_info i (m\<lparr>handle := None, match_path := None, mask := None\<rparr>) (s\<lparr>dir_streams := (dir_streams s)(d := None)\<rparr>)"
    have e: "gc_MatchInfo h i m s = Inr ?s" using Some False o by (auto simp: gc_MatchInfo_defs closedir_def opened_def)
    have hs: "held ?s = (held s)(i := None)" by (auto simp: held_def set_info_def)
    have "match_ok h ?s"
      by (rule match_ok_close [OF ok h hs]) (use False i in \<open>auto simp: opened_def set_info_def split: if_splits\<close>)
    with e hs show ?thesis by blast
  qed
qed

lemma new_object_ok:
  assumes ok: "match_ok h s" and m: "handle m = None"
  shows "match_ok h (snd (new_object m s))"
proof -
  have no: "infos s (next_object s) = None" using match_okD(1) [OF ok, of "next_object s"] by blast
  show ?thesis
    by (rule match_ok_same [OF ok]) (use no m in \<open>auto simp: new_object_def set_info_def held_def opened_def split: if_splits\<close>)
qed

lemma opendir_effect:
  "opendir p s = (d, s1) \<Longrightarrow> infos s1 = infos s \<and> next_object s1 = next_object s \<and> find_streams s1 = find_streams s \<and>
     (d = None \<and> s1 = s \<or> d = Some (next_handle s) \<and> next_handle s1 = Suc (next_handle s)
        \<and> dom (dir_streams s1) = insert (next_handle s) (dom (dir_streams s)))"
  by (auto simp: opendir_def split: sum.splits option.splits node.splits if_splits)

lemma new_stream_ok:
  assumes ok: "match_ok h s" and m: "handle m = Some (next_handle s)"
    and "infos s1 = infos s" "next_object s1 = next_object s" "next_handle s1 = Suc (next_handle s)"
    and "opened h s1 = insert (next_handle s) (opened h s)"
  shows "match_ok h (snd (new_object m s1))"
proof -
  have no: "infos s (next_object s) = None" using match_okD(1) [OF ok, of "next_object s"] by blast
  show ?thesis
    by (rule match_ok_open [OF ok no refl])
      (use no m assms(3-6) in \<open>auto simp: new_object_def set_info_def held_def opened_def fun_eq_iff split: if_splits\<close>)
qed

lemma os_matchstart_ok:
  assumes ok: "match_ok h s"
  shows "match_ok h (snd (os_matchstart h args s))"
proof (cases "windows h")
  case True
  show ?thesis
  proof (cases "luaL_checkconvertlstring h args 1")
    case (Inr k)
    show ?thesis
    proof (cases "FindFirstFileW (win h) k (machine s)")
      case Nil
      then show ?thesis using Inr True new_object_ok [OF ok, of "empty_info\<lparr>is_first := True\<rparr>"]
        by (simp add: os_matchstart_defs empty_info_def)
    next
      case (Cons e es)
      let ?s = "s\<lparr>find_streams := (find_streams s)(next_handle s \<mapsto> es), next_handle := Suc (next_handle s)\<rparr>"
      have "match_ok h (snd (new_object (empty_info\<lparr>is_first := True, handle := Some (next_handle s), win_entry := e\<rparr>) ?s))"
        by (rule new_stream_ok [OF ok]) (simp_all add: opened_def True)
      then show ?thesis using Cons Inr True by (simp add: os_matchstart_defs)
    qed
  qed (use ok True in \<open>simp add: os_matchstart_defs\<close>)
next
  case False
  show ?thesis
  proof (cases "luaL_checkstring args 1")
    case (Inr k)
    obtain p n where pn: "split_mask k = (p, n)" by fastforce
    obtain d s1 where o: "opendir p s = (d, s1)" by fastforce
    let ?m = "empty_info\<lparr>match_path := Some p, mask := Some n,
      mask_is_literal := no_wildcards n, handle := d\<rparr>"
    have "match_ok h (snd (new_object ?m s1))"
    proof (cases d)
      case None
      then have "s1 = s" using opendir_effect [OF o] by simp
      then show ?thesis using None by (intro new_object_ok) (simp_all add: ok)
    next
      case (Some x)
      then show ?thesis using opendir_effect [OF o] False
        by (intro new_stream_ok [OF ok]) (simp_all add: opened_def)
    qed
    then show ?thesis using Inr False pn o by (simp add: os_matchstart_defs)
  qed (use ok False in \<open>simp add: os_matchstart_defs\<close>)
qed

lemma checkudata_Inr: "luaL_checkudata args s = Inr (i, m) \<Longrightarrow> infos s i = Some m"
  by (auto simp: luaL_checkudata_def split: option.splits lval.splits)

lemma os_matchnext_ok:
  assumes ok: "match_ok h s"
  shows "match_ok h (snd (os_matchnext h args s)) \<and> fst (os_matchnext h args s) \<noteq> Inl OutOfBounds"
proof (cases "luaL_checkudata args s")
  case (Inl e)
  then show ?thesis using ok by (auto simp: os_matchnext_defs luaL_checkudata_def split: option.splits lval.splits)
next
  case (Inr im)
  then obtain i m where im: "luaL_checkudata args s = Inr (i, m)" by (cases im) auto
  note i = checkudata_Inr [OF im]
  show ?thesis
  proof (cases "handle m")
    case None
    then show ?thesis using ok im by (simp add: os_matchnext_defs)
  next
    case (Some d)
    have "held s i = Some d" using i Some by (simp add: held_def)
    then have o: "d \<in> opened h s" using match_okD(3) [OF ok] by blast
    have win: "match_ok h (set_info i m' (s\<lparr>find_streams := (find_streams s)(d \<mapsto> es)\<rparr>))"
      if "handle m' = Some d" "windows h" for m' es
      by (rule match_ok_same [OF ok])
        (use that i Some o in \<open>auto simp: held_def set_info_def opened_def fun_eq_iff split: if_splits\<close>)
    have pos: "match_ok h (set_info i m' (s\<lparr>dir_streams := (dir_streams s)(d \<mapsto> es)\<rparr>))"
      if "handle m' = Some d" "\<not> windows h" for m' es
      by (rule match_ok_same [OF ok])
        (use that i Some o in \<open>auto simp: held_def set_info_def opened_def fun_eq_iff split: if_splits\<close>)
    show ?thesis using im Some o win pos
      by (auto simp: os_matchnext_defs opened_def Let_def split: option.splits prod.splits if_splits)
  qed
qed

lemma os_matchdone_ok:
  assumes ok: "match_ok h s"
  shows "match_ok h (snd (os_matchdone h args s)) \<and> fst (os_matchdone h args s) \<noteq> Inl OutOfBounds"
proof (cases "luaL_checkudata args s")
  case (Inl e)
  then show ?thesis using ok by (auto simp: os_matchdone_def luaL_checkudata_def split: option.splits lval.splits)
next
  case (Inr im)
  then obtain i m where im: "luaL_checkudata args s = Inr (i, m)" by (cases im) auto
  from gc_ok [OF ok checkudata_Inr [OF im]] im show ?thesis by (auto simp: os_matchdone_def)
qed

lemma match_exec_ok:
  assumes ok: "match_ok h s" and run: "match_exec h c s = (r, s')"
  shows "match_ok h s'"
proof -
  have "match_ok h (snd (match_exec h c s))"
  proof (cases c)
    case (Collect i)
    show ?thesis
    proof (cases "infos s i")
      case (Some m)
      from gc_ok [OF ok Some] Some Collect show ?thesis by (auto simp: match_exec_def)
    qed (use ok Collect in \<open>simp add: match_exec_def\<close>)
  qed (simp_all add: match_exec_def ok os_matchstart_ok os_matchnext_ok os_matchdone_ok)
  with run show ?thesis by simp
qed

lemma match_reach_ok: "match_reach h s \<Longrightarrow> match_ok h s"
proof (induction rule: match_reach.induct)
  case (start s)
  then show ?case by (simp add: match_ok_def opened_def held_def)
next
  case (call s c r s')
  then show ?case using match_exec_ok by blast
next
  case (files s w)
  show ?case by (rule match_ok_same [OF files.IH]) (auto simp: held_def opened_def fun_eq_iff)
qed

lemma check_faults:
  "luaL_checklstring args i \<noteq> Inl OutOfBounds" "luaL_checkstring args i \<noteq> Inl OutOfBounds"
  "luaL_checkconvertlstring h args i \<noteq> Inl OutOfBounds"
proof -
  show l: "luaL_checklstring args i \<noteq> Inl OutOfBounds" by (simp add: luaL_checklstring_def split: option.splits)
  then show "luaL_checkstring args i \<noteq> Inl OutOfBounds"
    by (cases "luaL_checklstring args i") (simp_all add: luaL_checkstring_def)
  show "luaL_checkconvertlstring h args i \<noteq> Inl OutOfBounds"
    using l by (cases "luaL_checklstring args i") (simp_all add: luaL_checkconvertlstring_def split: option.splits)
qed

lemma os_matchstart_fault: "fst (os_matchstart h args s) \<noteq> Inl OutOfBounds"
proof (cases "windows h")
  case True
  show ?thesis
  proof (cases "luaL_checkconvertlstring h args 1")
    case (Inl e)
    then show ?thesis using True check_faults(3) [of h args 1] by (simp add: os_matchstart_defs)
  next
    case (Inr k)
    then show ?thesis using True by (simp add: os_matchstart_defs new_object_def split: list.splits)
  qed
next
  case False
  show ?thesis
  proof (cases "luaL_checkstring args 1")
    case (Inl e)
    then show ?thesis using False check_faults(2) [of args 1] by (simp add: os_matchstart_defs)
  next
    case (Inr k)
    then show ?thesis using False by (simp add: os_matchstart_defs new_object_def split: prod.splits)
  qed
qed

text \<open>C9: Whatever scripts do with match objects, in any order and with any arguments, and whenever the
  finaliser runs: every open directory stream is held by exactly one object, so that none leaks, and
  none is read or closed after it has been closed. Only the name of an entry that is not there any
  more (or not yet) may be asked for, by \<open>os.matchname\<close> and \<open>os.matchisfile\<close>.\<close>

theorem match_streams_safe:
  assumes "match_reach h s" and "match_exec h c s = (r, s')"
  shows "(\<forall>d. d \<in> opened h s' \<longleftrightarrow> (\<exists>!i. held s' i = Some d))
    \<and> (r = Inl OutOfBounds \<longrightarrow> (\<exists>args. c = MatchName args \<or> c = MatchIsFile args))"
proof
  have ok': "match_ok h s'" using match_reach.call [OF assms] by (rule match_reach_ok)
  show "\<forall>d. d \<in> opened h s' \<longleftrightarrow> (\<exists>!i. held s' i = Some d)"
    using match_okD(3,4) [OF ok'] by metis
  have ok: "match_ok h s" using assms(1) by (rule match_reach_ok)
  show "r = Inl OutOfBounds \<longrightarrow> (\<exists>args. c = MatchName args \<or> c = MatchIsFile args)"
  proof (cases c)
    case (MatchStart args)
    have "fst (os_matchstart h args s) \<noteq> Inl OutOfBounds" by (rule os_matchstart_fault)
    with MatchStart assms(2) show ?thesis by (simp add: match_exec_def)
  next
    case (MatchNext args)
    with os_matchnext_ok [OF ok, of args] assms(2) show ?thesis by (simp add: match_exec_def)
  next
    case (MatchDone args)
    with os_matchdone_ok [OF ok, of args] assms(2) show ?thesis by (simp add: match_exec_def)
  next
    case (Collect i)
    then show ?thesis
    proof (cases "infos s i")
      case (Some m)
      from gc_ok [OF ok Some] Some Collect assms(2) show ?thesis by (auto simp: match_exec_def)
    qed (use assms(2) Collect in \<open>auto simp: match_exec_def\<close>)
  qed simp_all
qed

definition idle_matcher :: "world \<Rightarrow> matcher" where
  "idle_matcher w = \<lparr>machine = w, infos = (\<lambda>_. None), dir_streams = (\<lambda>_. None), find_streams = (\<lambda>_. None),
     next_object = 0, next_handle = 0\<rparr>"

theorem match_streams_safe_witness:
  "\<exists>r s'. match_exec (sample_host Linux) (MatchStart [LStr ''*'']) (idle_matcher sample_world) = (r, s')
     \<and> (\<forall>d. d \<in> opened (sample_host Linux) s' \<longleftrightarrow> (\<exists>!i. held s' i = Some d))"
proof -
  have reach: "match_reach (sample_host Linux) (idle_matcher sample_world)"
    by (rule match_reach.start) (simp_all add: idle_matcher_def)
  obtain r s' where run: "match_exec (sample_host Linux) (MatchStart [LStr ''*'']) (idle_matcher sample_world) = (r, s')"
    by (cases "match_exec (sample_host Linux) (MatchStart [LStr ''*'']) (idle_matcher sample_world)") simp
  have "\<forall>d. d \<in> opened (sample_host Linux) s' \<longleftrightarrow> (\<exists>!i. held s' i = Some d)"
    using match_streams_safe [OF reach run] by (rule conjunct1)
  with run show ?thesis by blast
qed

section \<open>Enumeration\<close>

text \<open>The loop of a script that collects the names: at most \<open>n\<close> of them.\<close>

primrec collect_names :: "host \<Rightarrow> nat \<Rightarrow> nat \<Rightarrow> matcher \<Rightarrow> cstring list" where
  "collect_names h 0 i s = []"
| "collect_names h (Suc n) i s =
     (case os_matchnext h [LUser i] s of
        (Inr [LBool True], s1) \<Rightarrow>
          (case os_matchname h [LUser i] s1 of
             Inr [LStr name] \<Rightarrow> name # collect_names h n i s1
           | _ \<Rightarrow> [])
      | _ \<Rightarrow> [])"

lemma read_next_filter:
  "read_next h m es = (e, rest) \<Longrightarrow>
     filter (\<lambda>x. \<not> is_dots (d_name x) \<and> mask_matches h m (d_name x)) es =
     (case e of None \<Rightarrow> [] | Some x \<Rightarrow> x # filter (\<lambda>x. \<not> is_dots (d_name x) \<and> mask_matches h m (d_name x)) rest)"
  by (induction es arbitrary: e rest) (auto split: if_splits)

lemma collect_names_filter:
  assumes "plat h \<noteq> Windows" and "infos s i = Some m" and "handle m = Some d" and "dir_streams s d = Some es"
    and "length (filter (\<lambda>x. \<not> is_dots (d_name x) \<and> mask_matches h m (d_name x)) es) < n"
  shows "collect_names h n i s = map d_name (filter (\<lambda>x. \<not> is_dots (d_name x) \<and> mask_matches h m (d_name x)) es)"
  using assms
proof (induction n arbitrary: s m es)
  case (Suc n)
  obtain e rest where e: "read_next h m es = (e, rest)" by fastforce
  note f = read_next_filter [OF e]
  let ?s = "set_info i (m\<lparr>entry := e\<rparr>) (s\<lparr>dir_streams := (dir_streams s)(d \<mapsto> rest)\<rparr>)"
  have nxt: "os_matchnext h [LUser i] s = (Inr (if e = None then [] else [LBool True]), ?s)"
    using Suc.prems(1-4) e by (simp add: os_matchnext_defs luaL_checkudata_def arg_def)
  show ?case
  proof (cases e)
    case None
    then show ?thesis using nxt f by simp
  next
    case (Some x)
    have nm: "os_matchname h [LUser i] ?s = Inr [LStr (d_name x)]"
      using Suc.prems(1,3) Some
      by (simp add: os_matchname_defs luaL_checkudata_def arg_def set_info_def current_entry_def)
    have mm: "mask_matches h (m\<lparr>entry := e'\<rparr>) = mask_matches h m" for e' by (simp add: mask_matches_def fun_eq_iff split: option.split)
    have "collect_names h n i ?s =
        map d_name (filter (\<lambda>y. \<not> is_dots (d_name y) \<and> mask_matches h (m\<lparr>entry := e\<rparr>) (d_name y)) rest)"
      by (rule Suc.IH) (use Suc.prems f Some in \<open>simp_all add: set_info_def mm\<close>)
    then show ?thesis using nxt nm f Some mm by simp
  qed
qed simp

lemma is_dots_iff: "is_cstring c \<Longrightarrow> is_dots c \<longleftrightarrow> c = ''.'' \<or> c = ''..''"
proof (cases c)
  case (Cons a d)
  assume n: "is_cstring c"
  show ?thesis
  proof (cases d)
    case Nil
    then show ?thesis using Cons by (simp add: is_dots_def)
  next
    case d: (Cons b e)
    have b: "b \<noteq> NUL" using n Cons d by simp
    show ?thesis
    proof (cases e)
      case Nil
      then show ?thesis using Cons d b by (simp add: is_dots_def)
    next
      case (Cons x y)
      then have "x \<noteq> NUL" using n \<open>c = a # d\<close> d by simp
      then show ?thesis using Cons \<open>c = a # d\<close> d b by (simp add: is_dots_def)
    qed
  qed
qed (simp add: is_dots_def)

lemma names_not_dots: "file_name c \<Longrightarrow> is_cstring c \<Longrightarrow> \<not> is_dots c"
  by (simp only: is_dots_iff file_name_def) simp

text \<open>C32: A script that goes through the matches of a mask on a POSIX system sees exactly the names of the
  entries of the directory that the mask matches, each once, in the order of the directory; the two
  dots are never among them. One call more than there are matches is enough to see the end.\<close>

theorem os_match_enumerates:
  assumes "plat h \<noteq> Windows" and "is_cstring k" and "split_mask k = (p, pat)" and "wf_world (machine s)"
    and "stat (machine s) p = Inr q" and "lookup (machine s) q = Some (Directory m)" and "may_read m"
    and "\<forall>c \<in> set (children (machine s) q). is_cstring c"
    and "os_matchstart h [LStr k] s = (r, s')"
  shows "\<exists>i. r = Inr [LUser i] \<and>
    (let ok = (\<lambda>c. if no_wildcards pat then pat = c else fnmatch h pat c);
         found = filter ok (children (machine s) q)
     in \<forall>n > length found. collect_names h n i s' = found)"
proof -
  let ?lit = "no_wildcards pat"
  let ?ok = "\<lambda>c. if ?lit then pat = c else fnmatch h pat c"
  let ?m = "empty_info\<lparr>match_path := Some p, mask := Some pat, mask_is_literal := ?lit, handle := Some (next_handle s)\<rparr>"
  let ?es = "dir_entries (machine s) q"
  have o: "opendir p s = (Some (next_handle s),
      s\<lparr>dir_streams := (dir_streams s)(next_handle s \<mapsto> ?es), next_handle := Suc (next_handle s)\<rparr>)"
    using assms(5-7) by (simp add: opendir_def)
  then have "(r, s') = new_object ?m (s\<lparr>dir_streams := (dir_streams s)(next_handle s \<mapsto> ?es), next_handle := Suc (next_handle s)\<rparr>)"
    using assms(1-3,9) by (simp add: os_matchstart_defs)
  then have start: "r = Inr [LUser (next_object s)]" "infos s' (next_object s) = Some ?m" "dir_streams s' (next_handle s) = Some ?es"
    by (simp_all add: new_object_def set_info_def)
  have nd: "\<not> is_dots c" if "c \<in> set (children (machine s) q)" for c
  proof (rule names_not_dots)
    show "file_name c" using that wf_worldD(2) [OF assms(4), of "q @ [c]" c] by (simp add: children_iff)
    show "is_cstring c" using that assms(8) by blast
  qed
  have mm: "mask_matches h ?m = ?ok" by (simp add: mask_matches_def fun_eq_iff)
  have dots: "is_dots ''.''" "is_dots ''..''" by (simp_all add: is_dots_def)
  have "map d_name (filter (\<lambda>x. \<not> is_dots (d_name x) \<and> mask_matches h ?m (d_name x)) ?es) = filter ?ok (children (machine s) q)"
    unfolding mm dir_entries_def using nd
    by (simp add: dots filter_map comp_def cong: filter_cong)
  then have fl: "map d_name (filter (\<lambda>x. \<not> is_dots (d_name x) \<and> mask_matches h ?m (d_name x)) ?es) = filter ?ok (children (machine s) q)" .
  from arg_cong [OF fl, of length] have len: "length (filter (\<lambda>x. \<not> is_dots (d_name x) \<and> mask_matches h ?m (d_name x)) ?es)
      = length (filter ?ok (children (machine s) q))" by (simp only: length_map)
  have hm: "handle ?m = Some (next_handle s)" by simp
  have "collect_names h n (next_object s) s' = filter ?ok (children (machine s) q)"
    if "length (filter ?ok (children (machine s) q)) < n" for n
    using collect_names_filter [OF assms(1) start(2) hm start(3), of n] that unfolding len fl by blast
  then show ?thesis using start(1) unfolding Let_def by blast
qed

theorem os_match_enumerates_witness:
  "\<exists>i. fst (os_matchstart (sample_host Linux) [LStr ''/home/*''] (idle_matcher sample_world)) = Inr [LUser i]
    \<and> collect_names (sample_host Linux) 3 i (snd (os_matchstart (sample_host Linux) [LStr ''/home/*''] (idle_matcher sample_world)))
      = [''a.txt'', ''b.txt'']"
proof -
  have st: "stat sample_world ''/home'' = Inr [''home'']"
    by (simp add: stat_def existing_def find_place_def is_rooted_def walk.simps lookup_sample)
  have lk: "lookup sample_world [''home''] = Some (Directory 0x1ED)" by (simp add: lookup_sample)
  have sp: "split_mask ''/home/*'' = (''/home'', ''*'')" by (simp add: split_mask_def)
  have ch: "children sample_world [''home''] = [''a.txt'', ''b.txt'']" by (simp add: children_def sample_world_def)
  have cs: "is_cstring ''/home/*''" "is_cstring ''a.txt''" "is_cstring ''b.txt''" by simp_all
  have cl: "\<forall>c \<in> set (children sample_world [''home'']). is_cstring c" using cs unfolding ch by simp
  have wild: "\<not> no_wildcards ''*''" by (simp add: no_wildcards_def)
  have nw: "plat (sample_host Linux) \<noteq> Windows" by simp
  have mach: "machine (idle_matcher sample_world) = sample_world" by (simp add: idle_matcher_def)
  obtain r s' where run: "os_matchstart (sample_host Linux) [LStr ''/home/*''] (idle_matcher sample_world) = (r, s')"
    by (cases "os_matchstart (sample_host Linux) [LStr ''/home/*''] (idle_matcher sample_world)") simp
  from os_match_enumerates [where h = "sample_host Linux" and s = "idle_matcher sample_world", unfolded mach,
      OF nw cs(1) sp wf_sample(1) st lk sample_bits(3) cl run]
  obtain i where "r = Inr [LUser i]" and all: "\<forall>n > 2. collect_names (sample_host Linux) n i s' = [''a.txt'', ''b.txt'']"
    unfolding ch using wild by (auto simp: numeral_2_eq_2)
  moreover have "collect_names (sample_host Linux) 3 i s' = [''a.txt'', ''b.txt'']" by (rule all [rule_format]) simp
  ultimately show ?thesis unfolding run by simp
qed

text \<open>A mask directly below the root has an empty directory part, and no directory has the empty name:
  the match object that \<open>os.matchstart\<close> makes for such a mask delivers nothing, whatever the root
  directory holds and whatever happens to the files.\<close>

theorem os_match_below_root:
  assumes "plat h \<noteq> Windows" and "is_cstring k" and "SLASH \<notin> set k"
  shows "\<exists>i. fst (os_matchstart h [LStr (SLASH # k)] s) = Inr [LUser i]
    \<and> (\<forall>w. let s' = (snd (os_matchstart h [LStr (SLASH # k)] s))\<lparr>machine := w\<rparr>
            in os_matchnext h [LUser i] s' = (Inr [], s'))"
proof -
  have "split_mask (SLASH # k) = ([], k)" using assms(3) by (simp add: split_mask_def)
  moreover have "opendir [] s = (None, s)" by (simp add: opendir_def stat_def existing_def find_place_def)
  moreover have "luaL_checkstring [LStr (SLASH # k)] 1 = Inr (SLASH # k)" using assms(2) by simp
  ultimately have "os_matchstart h [LStr (SLASH # k)] s = new_object (empty_info\<lparr>match_path := Some [], mask := Some k,
      mask_is_literal := no_wildcards k, handle := None\<rparr>) s"
    using assms(1) by (simp add: os_matchstart_defs)
  then show ?thesis
    by (simp add: new_object_def os_matchnext_defs luaL_checkudata_def arg_def set_info_def Let_def)
qed

theorem os_match_below_root_witness:
  "\<exists>i. fst (os_matchstart (sample_host Linux) [LStr ''/h*''] (idle_matcher sample_world)) = Inr [LUser i]
    \<and> fst (os_matchnext (sample_host Linux) [LUser i]
          (snd (os_matchstart (sample_host Linux) [LStr ''/h*''] (idle_matcher sample_world)))) = Inr []"
proof -
  have nw: "plat (sample_host Linux) \<noteq> Windows" by simp
  have c: "is_cstring ''h*''" "SLASH \<notin> set ''h*''" by simp_all
  from os_match_below_root [OF nw c, of "idle_matcher sample_world"] obtain i
    where i: "fst (os_matchstart (sample_host Linux) [LStr ''/h*''] (idle_matcher sample_world)) = Inr [LUser i]"
      and n: "\<forall>w. let s' = (snd (os_matchstart (sample_host Linux) [LStr ''/h*''] (idle_matcher sample_world)))\<lparr>machine := w\<rparr>
            in os_matchnext (sample_host Linux) [LUser i] s' = (Inr [], s')" by blast
  let ?s = "snd (os_matchstart (sample_host Linux) [LStr ''/h*''] (idle_matcher sample_world))"
  have "?s\<lparr>machine := machine ?s\<rparr> = ?s" by simp
  with n have "os_matchnext (sample_host Linux) [LUser i] ?s = (Inr [], ?s)" unfolding Let_def by metis
  with i show ?thesis by auto
qed

end
