(* ===== verification/Engine.thy ===== *)
theory Engine
  imports File_Ops
begin

text \<open>
  The running program: the Lua values that live in a state (tables are objects with an identity,
  functions are closures with upvalues), the globals of the host (\<open>scripts_path\<close> and the flags of
  \<open>src/host/premake.c\<close> and \<open>src/host/term_textColor.c\<close>), and what the process consists of. What runs
  and compiles Lua code is a parameter. Tables have no metatables.
\<close>

section \<open>Values and state\<close>

datatype val =
    Base lval \<comment> \<open>nil, booleans, numbers and strings\<close>
  | Table nat
  | Native string "val list" \<comment> \<open>a C function, named as in the source, with its upvalues\<close>
  | Function nat \<comment> \<open>a function that the Lua compiler made\<close>

abbreviation (input) nil :: val where "nil \<equiv> Base LNil"
abbreviation (input) str :: "string \<Rightarrow> val" where "str s \<equiv> Base (LStr s)"

record engine =
  slots :: "nat \<Rightarrow> lval \<Rightarrow> val" \<comment> \<open>the tables\<close>
  next_table :: nat
  closures :: "nat \<Rightarrow> string \<times> val" \<comment> \<open>code and first upvalue, the environment\<close>
  next_closure :: nat
  disk :: world
  scripts_path :: "cstring option"
  warned :: bool
  printed :: string \<comment> \<open>\<open>stdout\<close>\<close>
  s_currentColor :: int
  s_shouldUseColor :: int
  console :: "int option" \<comment> \<open>the attributes of the Windows console, if there is one\<close>

definition REGISTRY :: nat where "REGISTRY = 0" \<comment> \<open>\<open>LUA_REGISTRYINDEX\<close>\<close>
definition GLOBALS :: nat where "GLOBALS = 1"

definition set_field :: "nat \<Rightarrow> lval \<Rightarrow> val \<Rightarrow> engine \<Rightarrow> engine" where
  "set_field t k v e = e\<lparr>slots := (slots e)(t := (slots e t)(k := v))\<rparr>"

definition lua_getglobal :: "string \<Rightarrow> engine \<Rightarrow> val" where
  "lua_getglobal k e = slots e GLOBALS (LStr k)"

definition lua_setglobal :: "string \<Rightarrow> val \<Rightarrow> engine \<Rightarrow> engine" where
  "lua_setglobal k v e = set_field GLOBALS (LStr k) v e"

definition lua_getfield :: "val \<Rightarrow> string \<Rightarrow> engine \<Rightarrow> fault + val" where
  "lua_getfield v k e =
     (case v of Table t \<Rightarrow> Inr (slots e t (LStr k)) | _ \<Rightarrow> Inl (LuaError ''attempt to index a value''))"

definition to_string :: "val \<Rightarrow> string option" where
  "to_string v = (case v of Base b \<Rightarrow> lua_tolstring b | _ \<Rightarrow> None)"

definition to_cstring :: "val \<Rightarrow> cstring option" where
  "to_cstring v = map_option c_view (to_string v)"

definition new_table :: "engine \<Rightarrow> nat \<times> engine" where
  "new_table e =
     (next_table e, e\<lparr>slots := (slots e)(next_table e := (\<lambda>_. nil)), next_table := Suc (next_table e)\<rparr>)"

lemma set_field_fields [simp]:
  "slots (set_field t k v e) u l = (if u = t \<and> l = k then v else slots e u l)"
  "next_table (set_field t k v e) = next_table e" "closures (set_field t k v e) = closures e"
  "next_closure (set_field t k v e) = next_closure e" "disk (set_field t k v e) = disk e"
  "scripts_path (set_field t k v e) = scripts_path e" "warned (set_field t k v e) = warned e"
  "printed (set_field t k v e) = printed e" "s_currentColor (set_field t k v e) = s_currentColor e"
  "s_shouldUseColor (set_field t k v e) = s_shouldUseColor e" "console (set_field t k v e) = console e"
  by (simp_all add: set_field_def)

lemma getglobal_setglobal [simp]:
  "lua_getglobal k (lua_setglobal l v e) = (if k = l then v else lua_getglobal k e)"
  by (simp add: lua_getglobal_def lua_setglobal_def)

lemma setglobal_fields [simp]:
  "disk (lua_setglobal k v e) = disk e" "scripts_path (lua_setglobal k v e) = scripts_path e"
  "warned (lua_setglobal k v e) = warned e" "printed (lua_setglobal k v e) = printed e"
  "next_table (lua_setglobal k v e) = next_table e" "closures (lua_setglobal k v e) = closures e"
  "next_closure (lua_setglobal k v e) = next_closure e"
  "s_currentColor (lua_setglobal k v e) = s_currentColor e"
  "s_shouldUseColor (lua_setglobal k v e) = s_shouldUseColor e" "console (lua_setglobal k v e) = console e"
  by (simp_all add: lua_setglobal_def)

lemma getglobal_update [simp]:
  "lua_getglobal k (e\<lparr>disk := w\<rparr>) = lua_getglobal k e" "lua_getglobal k (e\<lparr>scripts_path := q\<rparr>) = lua_getglobal k e"
  "lua_getglobal k (e\<lparr>closures := f\<rparr>) = lua_getglobal k e" "lua_getglobal k (e\<lparr>warned := b\<rparr>) = lua_getglobal k e"
  "lua_getglobal k (e\<lparr>printed := o'\<rparr>) = lua_getglobal k e"
  by (simp_all add: lua_getglobal_def)

section \<open>Calls\<close>

type_synonym 'a run = "engine \<Rightarrow> (fault + 'a) \<times> engine"

definition bind_run :: "'a run \<Rightarrow> ('a \<Rightarrow> 'b run) \<Rightarrow> 'b run" where
  "bind_run f k e = (case f e of (Inl x, e1) \<Rightarrow> (Inl x, e1) | (Inr x, e1) \<Rightarrow> k x e1)"

definition on_disk :: "'a io \<Rightarrow> 'a run" where
  "on_disk f e = (case f (disk e) of (r, w) \<Rightarrow> (r, e\<lparr>disk := w\<rparr>))"

lemma bind_run_simps [simp]:
  "f e = (Inr x, e1) \<Longrightarrow> bind_run f k e = k x e1" "f e = (Inl y, e1) \<Longrightarrow> bind_run f k e = (Inl y, e1)"
  by (simp_all add: bind_run_def)

text \<open>What \<open>lua_pcall\<close> catches; undefined behaviour is not among it.\<close>

definition the_default :: "'a \<Rightarrow> 'a option \<Rightarrow> 'a" where
  "the_default d x = (case x of None \<Rightarrow> d | Some y \<Rightarrow> y)"

definition catchable :: "fault \<Rightarrow> bool" where
  "catchable x = (case x of BadArgument _ \<Rightarrow> True | LuaError _ \<Rightarrow> True | _ \<Rightarrow> False)"

section \<open>The program\<close>

datatype load_status = LUA_OK | LUA_ERRFILE | LUA_ERRSYNTAX | LUA_ERRMEM

datatype load_result = Loaded string | LoadFailed load_status string \<comment> \<open>with a message\<close>

datatype targ = Narrow cstring | Wide wstring \<comment> \<open>a \<open>TCHAR\<close> string\<close>

record program =
  on :: host
  builtin_scripts :: "(cstring \<times> string) list" \<comment> \<open>generated by the build\<close>
  luaL_loadfilex :: "cstring \<Rightarrow> cstring option \<Rightarrow> world \<Rightarrow> load_result"
  luaL_loadbuffer :: "string \<Rightarrow> cstring \<Rightarrow> load_result"
  run_lua :: "val \<Rightarrow> val list \<Rightarrow> engine \<Rightarrow> (fault + val list) \<times> engine"
  traceback :: "val \<Rightarrow> int \<Rightarrow> engine \<Rightarrow> val" \<comment> \<open>\<open>debug.traceback\<close>\<close>
  registerModules :: "engine \<Rightarrow> engine" \<comment> \<open>generated by the build\<close>
  curl :: bool \<comment> \<open>\<open>PREMAKE_CURL\<close>\<close>
  compression :: bool \<comment> \<open>\<open>PREMAKE_COMPRESSION\<close>\<close>
  LUA_COPYRIGHT :: string
  PREMAKE_VERSION :: string
  readlink :: "cstring \<Rightarrow> cstring option" \<comment> \<open>cut off at \<open>PATH_MAX\<close>; \<open>None\<close> for a negative result\<close>
  sysctl_pathname :: "cstring option"
  openbsd :: bool
  bundle_path :: "cstring option"
  GetModuleFileNameW :: wstring
  isatty :: bool

definition arg_text :: "host \<Rightarrow> targ \<Rightarrow> cstring option" where
  "arg_text h a = (case a of Narrow s \<Rightarrow> Some s | Wide ws \<Rightarrow> luaL_convertwstring h ws)"

end
