(* ===== verification/Search.thy ===== *)
theory Search
  imports Engine
begin

text \<open>
  Where files are looked for: \<open>src/host/os_pathsearch.c\<close> and \<open>src/host/os_locate.c\<close>, and from
  \<open>src/host/premake.c\<close> the scripts embedded in the executable, the search for the main script and for
  the executable, and the search path that scripts see as \<open>premake.path\<close>.
\<close>

section \<open>Lists of directories\<close>

definition path_separator :: "host \<Rightarrow> char \<Rightarrow> bool" where
  "path_separator h c \<longleftrightarrow> c = CHR '';'' \<or> \<not> windows h \<and> c = CHR '':''"

definition search_split :: "host \<Rightarrow> cstring \<Rightarrow> cstring option" where
  \<comment> \<open>the closest separator; a pointer behind another one is the shorter suffix\<close>
  "search_split h path =
     (let semi = strchr path (CHR '';'');
          full = (if windows h then None else strchr path (CHR '':'')) in
      case semi of
        None \<Rightarrow> full
      | Some s \<Rightarrow> (case full of None \<Rightarrow> semi | Some f \<Rightarrow> if length f < length s then semi else full))"

lemma strchr_length: "strchr s c = Some r \<Longrightarrow> r \<noteq> [] \<and> length r \<le> length s"
  using strchr_SomeD by fastforce

lemma search_split_length: "search_split h path = Some r \<Longrightarrow> r \<noteq> [] \<and> length r \<le> length path"
  by (auto simp: search_split_def Let_def dest: strchr_length split: option.splits if_splits)

function do_pathsearch :: "host \<Rightarrow> cstring \<Rightarrow> cstring \<Rightarrow> world \<Rightarrow> fault + cstring option" where
  "do_pathsearch h filename path w =
     (let split = search_split h path;
          piece = (case split of None \<Rightarrow> path | Some r \<Rightarrow> take (length path - length r) path) in
      if do_isfile h (piece @ ''/'' @ filename) w then map_sum id Some (getabsolute_in h piece None w)
      else (case split of None \<Rightarrow> Inr None | Some r \<Rightarrow> do_pathsearch h filename (tl r) w))"
  by pat_completeness auto
termination
proof (relation "measure (\<lambda>(h, filename, path, w). length path)", goal_cases)
  case (2 h filename path w split piece r)
  then show ?case using search_split_length [of h path r] by (cases r) auto
qed simp

declare do_pathsearch.simps [simp del]

primrec search_args :: "host \<Rightarrow> cstring \<Rightarrow> lval list \<Rightarrow> nat list \<Rightarrow> world \<Rightarrow> lua_ret" where
  "search_args h filename args [] w = Inr []"
| "search_args h filename args (i # is) w =
     (if arg args i = Some LNil then search_args h filename args is w
      else bind_f (luaL_checkstring args i) (\<lambda>path.
             bind_f (do_pathsearch h filename path w) (\<lambda>r.
               case r of Some d \<Rightarrow> Inr [LStr d] | None \<Rightarrow> search_args h filename args is w)))"

definition os_pathsearch :: "host \<Rightarrow> lval list \<Rightarrow> world \<Rightarrow> lua_ret" where
  "os_pathsearch h args w =
     bind_f (luaL_checkstring args 1) (\<lambda>filename. search_args h filename args [2..<length args + 1] w)"

definition do_locate :: "host \<Rightarrow> cstring \<Rightarrow> cstring \<Rightarrow> world \<Rightarrow> fault + cstring option" where
  "do_locate h filename path w =
     map_sum id (map_option (\<lambda>d. d @ ''/'' @ filename)) (do_pathsearch h filename path w)"

section \<open>Embedded scripts\<close>

primrec find_script :: "(cstring \<times> string) list \<Rightarrow> cstring \<Rightarrow> string option" where
  "find_script [] filename = None"
| "find_script (s # ss) filename = (if fst s = filename then Some (snd s) else find_script ss filename)"

definition premake_find_embedded_script :: "program \<Rightarrow> cstring \<Rightarrow> string option" where
  "premake_find_embedded_script p filename =
     (if builtin (on p) then find_script (builtin_scripts p) filename else None)"

definition premake_getEmbeddedResource :: "program \<Rightarrow> lval list \<Rightarrow> lua_ret" where
  "premake_getEmbeddedResource p args =
     bind_f (luaL_checkstring args 1) (\<lambda>filename.
       case premake_find_embedded_script p filename of None \<Rightarrow> Inr [] | Some bytecode \<Rightarrow> Inr [LStr bytecode])"

section \<open>\<open>os.locate\<close>\<close>

primrec locate_names :: "program \<Rightarrow> cstring option \<Rightarrow> lval list \<Rightarrow> world \<Rightarrow> lua_ret" where
  "locate_names p path [] w = Inr []"
| "locate_names p path (v # vs) w =
     (case lua_tolstring v of
        None \<Rightarrow> locate_names p path vs w
      | Some text \<Rightarrow>
          let name = c_view text in
          if peek name = CHR ''$'' \<and> peek (tl name) = SLASH \<and> premake_find_embedded_script p (drop 2 name) \<noteq> None
          then Inr [LStr text]
          else if do_isfile (on p) name w
          then map_sum id (\<lambda>s. [LStr s]) (getabsolute_in (on p) name None w)
          else
            (case path of
               None \<Rightarrow> Inl OutOfBounds \<comment> \<open>\<open>strchr\<close> of NULL\<close>
             | Some dirs \<Rightarrow>
                 bind_f (do_locate (on p) name dirs w) (\<lambda>r.
                   case r of
                     Some s \<Rightarrow> Inr [LStr s]
                   | None \<Rightarrow>
                       if premake_find_embedded_script p name \<noteq> None then Inr [LStr (''$/'' @ text)]
                       else locate_names p path vs w)))"

definition os_locate :: "program \<Rightarrow> lval list \<Rightarrow> engine \<Rightarrow> lua_ret" where
  "os_locate p args e =
     bind_f (lua_getfield (lua_getglobal ''premake'' e) ''path'' e) (\<lambda>path.
       locate_names p (to_cstring path) args (disk e))"

section \<open>The main script\<close>

text \<open>The bits of \<open>enum FileSearchMask\<close>.\<close>

definition SEARCH_LOCAL :: nat where "SEARCH_LOCAL = 1"
definition SEARCH_SCRIPTS :: nat where "SEARCH_SCRIPTS = 2"
definition SEARCH_PATH :: nat where "SEARCH_PATH = 4"
definition SEARCH_EMBEDDED :: nat where "SEARCH_EMBEDDED = 8"

lemmas search_bits = SEARCH_LOCAL_def SEARCH_SCRIPTS_def SEARCH_PATH_def SEARCH_EMBEDDED_def

definition locate_in :: "bool \<Rightarrow> host \<Rightarrow> cstring \<Rightarrow> cstring option \<Rightarrow> world \<Rightarrow> fault + cstring option" where
  \<comment> \<open>one of the searches, when it is asked for and its list of directories is there\<close>
  "locate_in wanted h filename dirs w =
     (case dirs of Some d \<Rightarrow> if wanted then do_locate h filename d w else Inr None | None \<Rightarrow> Inr None)"

definition or_else :: "fault + 'a option \<Rightarrow> (fault + 'a option) \<Rightarrow> fault + 'a option" where
  "or_else r next = bind_f r (\<lambda>x. case x of Some y \<Rightarrow> Inr (Some y) | None \<Rightarrow> next)"

definition premake_locate_file :: "program \<Rightarrow> cstring \<Rightarrow> nat \<Rightarrow> engine \<Rightarrow> fault + cstring option" where
  "premake_locate_file p filename searchMask e =
     (if searchMask AND SEARCH_LOCAL \<noteq> 0 \<and> do_isfile (on p) filename (disk e)
      then map_sum id Some (getabsolute_in (on p) filename None (disk e))
      else
        or_else (locate_in (searchMask AND SEARCH_SCRIPTS \<noteq> 0) (on p) filename (scripts_path e) (disk e))
       (or_else (locate_in (searchMask AND SEARCH_PATH \<noteq> 0) (on p) filename (luaL_getenv (on p) ''PREMAKE_PATH'') (disk e))
          (Inr (if searchMask AND SEARCH_EMBEDDED \<noteq> 0 \<and> premake_find_embedded_script p filename \<noteq> None
                then Some (''$/'' @ filename) else None))))"

text \<open>The result is built in a buffer of \<open>PATH_MAX\<close> bytes, part by part.\<close>

definition getabsolute_fits :: "host \<Rightarrow> nat \<Rightarrow> cstring \<Rightarrow> world \<Rightarrow> bool" where
  "getabsolute_fits h n value w =
     (let base = (if do_isabsolute value then [] else the_default [] (do_getcwd h BUFSIZE w) @ ''/'');
          buffer = do_translate (base @ value) SLASH;
          start = (if peek buffer = SLASH then (if peek (tl buffer) = SLASH then ''//'' else ''/'') else '''');
          parts = strtok_all (\<lambda>c. c = SLASH) buffer in
      \<forall>k \<le> length parts. case absolute_parts None (take k parts) start of Inr r \<Rightarrow> length r < n | Inl _ \<Rightarrow> True)"

definition set_scripts_path :: "host \<Rightarrow> cstring \<Rightarrow> unit run" where
  "set_scripts_path h relativePath e =
     (case getabsolute_in h relativePath None (disk e) of
        Inl x \<Rightarrow> (Inl x, e)
      | Inr path \<Rightarrow>
          if getabsolute_fits h (path_max h) relativePath (disk e)
          then (Inr (), e\<lparr>scripts_path := Some path\<rparr>)
          else (Inl OutOfBounds, e))"

section \<open>\<open>premake.path\<close>\<close>

definition set_home_dir :: "host \<Rightarrow> unit run" where
  "set_home_dir h e =
     (Inr (), lua_setglobal ''_USER_HOME_DIR''
        (str (case luaL_getenv h ''HOME'' of
                Some value \<Rightarrow> value
              | None \<Rightarrow> (case luaL_getenv h ''USERPROFILE'' of Some value \<Rightarrow> value | None \<Rightarrow> ''~''))) e)"

definition build_premake_path :: "host \<Rightarrow> unit run" where
  "build_premake_path h e =
     (case to_string (lua_getglobal ''_USER_HOME_DIR'' e) of
        None \<Rightarrow> (Inl (LuaError ''attempt to concatenate a value''), e)
      | Some home \<Rightarrow>
          let path = ''.'' @ (case scripts_path e of None \<Rightarrow> '''' | Some s \<Rightarrow> '';'' @ s)
                @ '';'' @ (case luaL_getenv h ''PREMAKE_PATH'' of None \<Rightarrow> '''' | Some s \<Rightarrow> s @ '';'')
                @ home @ ''/.premake''
                @ (if plat h = Macosx then '';'' @ home @ ''/Library/Application Support/Premake'' else '''')
                @ '';/usr/local/share/premake;/usr/share/premake'';
              path' = (if windows h then path else map (\<lambda>c. if c = CHR '':'' then CHR '';'' else c) path) in
          (case lua_getglobal ''premake'' e of
             Table t \<Rightarrow> (Inr (), set_field t (LStr ''path'') (str path') e)
           | _ \<Rightarrow> (Inl (LuaError ''attempt to index a value''), e)))"

section \<open>The executable\<close>

definition own_path :: "program \<Rightarrow> fault + cstring option" where
  \<comment> \<open>what the system says about the running executable\<close>
  "own_path p =
     (let named = (\<lambda>l. case l of Some s \<Rightarrow> if s = [] then None else Some s | None \<Rightarrow> None) in
      case plat (on p) of
        Windows \<Rightarrow>
          Inr (let ws = GetModuleFileNameW p in
               if 0 < length ws \<and> length ws \<le> path_max (on p) then luaL_convertwstring (on p) ws else None)
      | Macosx \<Rightarrow> Inr (bundle_path p)
      | Linux \<Rightarrow> Inr (named (readlink p ''/proc/self/exe''))
      | Solaris \<Rightarrow> Inr (named (readlink p ''/proc/self/path/a.out''))
      | Bsd \<Rightarrow>
          if openbsd p then Inr None
          else
            (case readlink p ''/proc/curproc/file'' of
               Some s \<Rightarrow> Inr (named (Some s))
             | None \<Rightarrow>
                 (case readlink p ''/proc/curproc/exe'' of
                    Some s \<Rightarrow> Inr (named (Some s))
                  | None \<Rightarrow>
                      (case sysctl_pathname p of
                         \<comment> \<open>the length stays the size of the buffer when the call fails, and counts the NUL\<close>
                         None \<Rightarrow> Inl OutOfBounds
                       | Some s \<Rightarrow> if path_max (on p) < length s + 1 then Inl OutOfBounds else Inr (Some s))))
      | _ \<Rightarrow> Inr None)"

definition search_executable :: "host \<Rightarrow> cstring option \<Rightarrow> world \<Rightarrow> fault + cstring option" where
  "search_executable h pargv0 w =
     (case os_pathsearch h [case pargv0 of None \<Rightarrow> LNil | Some a \<Rightarrow> LStr a,
                            case luaL_getenv h ''PATH'' of None \<Rightarrow> LNil | Some d \<Rightarrow> LStr d] w of
        Inr (LStr d # _) \<Rightarrow> Inr (Some (d @ ''/'' @ the_default [] pargv0))
      | Inr _ \<Rightarrow> Inr None
      | Inl x \<Rightarrow> if catchable x then Inr None else Inl x)"

definition argv0_as_is :: "host \<Rightarrow> cstring option \<Rightarrow> world \<Rightarrow> fault + cstring" where
  \<comment> \<open>without a working directory, \<open>os_getcwd\<close> leaves nothing on the stack\<close>
  "argv0_as_is h pargv0 w =
     (case pargv0 of
        None \<Rightarrow> Inl OutOfBounds
      | Some a \<Rightarrow>
          (case do_getcwd h BUFSIZE w of
             Some d \<Rightarrow> Inr (if do_isabsolute a then a else d @ ''/'' @ a)
           | None \<Rightarrow> if do_isabsolute a then Inl OutOfBounds
                     else Inl (LuaError ''attempt to concatenate a function value'')))"

definition premake_locate_executable :: "program \<Rightarrow> targ \<Rightarrow> world \<Rightarrow> fault + cstring" where
  "premake_locate_executable p argv0 w =
     (let pargv0 = arg_text (on p) argv0 in
      bind_f (or_else (own_path p) (search_executable (on p) pargv0 w)) (\<lambda>path.
        case path of Some s \<Rightarrow> Inr s | None \<Rightarrow> argv0_as_is (on p) pargv0 w))"

section \<open>The entries of a list of directories\<close>

primrec entries :: "(char \<Rightarrow> bool) \<Rightarrow> cstring \<Rightarrow> cstring list" where
  "entries sep [] = [[]]"
| "entries sep (c # s) =
     (if sep c then [] # entries sep s
      else (case entries sep s of [] \<Rightarrow> [[c]] | v # vs \<Rightarrow> (c # v) # vs))"

lemma entries_not_Nil [simp]: "entries sep s \<noteq> []"
  by (induction s) (auto split: list.splits)

lemma entries_plain: "\<forall>c \<in> set s. \<not> sep c \<Longrightarrow> entries sep s = [s]"
  by (induction s) auto

lemma entries_join: "sep c \<Longrightarrow> entries sep (s @ c # t) = entries sep s @ entries sep t"
proof (induction s)
  case (Cons d s)
  then show ?case by (cases "entries sep s") auto
qed simp

lemma entries_dropWhile:
  "entries sep s =
     (case dropWhile (\<lambda>c. \<not> sep c) s of [] \<Rightarrow> [s] | c # r \<Rightarrow> takeWhile (\<lambda>c. \<not> sep c) s # entries sep r)"
proof (induction s)
  case (Cons d s)
  show ?case
  proof (cases "sep d")
    case False
    with Cons show ?thesis by (cases "dropWhile (\<lambda>c. \<not> sep c) s") (auto simp del: dropWhile_eq_Nil_conv)
  qed simp
qed simp

lemma search_split_dropWhile:
  "search_split h path =
     (case dropWhile (\<lambda>c. \<not> path_separator h c) path of [] \<Rightarrow> None | c # r \<Rightarrow> Some (c # r))"
proof (induction path)
  case Nil
  then show ?case by (simp add: search_split_def)
next
  case (Cons c s)
  have l: "strchr s d = Some f \<Longrightarrow> length f < Suc (length s)" for d f using strchr_length [of s d f] by simp
  show ?case
  proof (cases "path_separator h c")
    case True
    then show ?thesis
      using l by (fastforce simp: search_split_def path_separator_def Let_def split: option.splits dest: less_asym)
  next
    case False
    then have "search_split h (c # s) = search_split h s"
      by (cases "plat h = Windows") (simp_all add: search_split_def path_separator_def)
    with Cons False show ?thesis by simp
  qed
qed

lemma do_pathsearch_entries:
  "do_pathsearch h f path w =
     (case find (\<lambda>d. do_isfile h (d @ ''/'' @ f) w) (entries (path_separator h) path) of
        None \<Rightarrow> Inr None
      | Some d \<Rightarrow> map_sum id Some (getabsolute_in h d None w))"
proof (induction "length path" arbitrary: path rule: less_induct)
  case less
  let ?sep = "path_separator h"
  show ?case
  proof (cases "dropWhile (\<lambda>c. \<not> ?sep c) path")
    case Nil
    then have "search_split h path = None" by (simp only: search_split_dropWhile list.case)
    moreover have "entries ?sep path = [path]" by (simp only: entries_dropWhile [of ?sep path] Nil list.case)
    ultimately show ?thesis by (simp add: do_pathsearch.simps [of h f path])
  next
    case (Cons c r)
    then have sp: "search_split h path = Some (c # r)" by (simp only: search_split_dropWhile list.case)
    have en: "entries ?sep path = takeWhile (\<lambda>c. \<not> ?sep c) path # entries ?sep r"
      by (simp only: entries_dropWhile [of ?sep path] Cons list.case)
    have pr: "take (length path - Suc (length r)) path = takeWhile (\<lambda>c. \<not> ?sep c) path"
    proof -
      have p: "takeWhile (\<lambda>c. \<not> ?sep c) path @ c # r = path" by (metis Cons takeWhile_dropWhile_id)
      from arg_cong [OF p, of length] have "length path - Suc (length r) = length (takeWhile (\<lambda>c. \<not> ?sep c) path)" by simp
      then show ?thesis using p by (metis append_eq_conv_conj)
    qed
    have "length r < length path" using search_split_length [OF sp] by simp
    from less [OF this] show ?thesis by (simp add: do_pathsearch.simps [of h f path] sp en pr)
  qed
qed

declare entries.simps [simp del]

lemma find_append: "find P (xs @ ys) = (case find P xs of None \<Rightarrow> find P ys | Some x \<Rightarrow> Some x)"
  by (induction xs) auto

lemma search_args_entries:
  assumes "\<forall>k \<in> set ks. 2 \<le> k \<and> k \<le> length paths + 1" and "\<forall>s \<in> set paths. is_cstring s"
  shows "search_args h f (LStr g # map LStr paths) ks w =
    (case find (\<lambda>d. do_isfile h (d @ ''/'' @ f) w) (concat (map (\<lambda>k. entries (path_separator h) (paths ! (k - 2))) ks)) of
       None \<Rightarrow> Inr []
     | Some d \<Rightarrow> map_sum id (\<lambda>s. [LStr s]) (getabsolute_in h d None w))"
  using assms(1)
proof (induction ks)
  case (Cons k ks)
  then have k: "2 \<le> k" "k \<le> length paths + 1" by simp_all
  then have a: "arg (LStr g # map LStr paths) k = Some (LStr (paths ! (k - 2)))"
    by (auto simp: arg_def nth_Cons' numeral_2_eq_2)
  have "paths ! (k - 2) \<in> set paths" using k by (intro nth_mem) linarith
  then have c: "is_cstring (paths ! (k - 2))" using assms(2) by blast
  have chk: "luaL_checkstring (LStr g # map LStr paths) k = Inr (paths ! (k - 2))"
    using a c by (simp add: luaL_checkstring_def luaL_checklstring_def)
  show ?case
  proof (cases "find (\<lambda>d. do_isfile h (d @ ''/'' @ f) w) (entries (path_separator h) (paths ! (k - 2)))")
    case None
    with Cons chk a show ?thesis by (simp add: do_pathsearch_entries find_append)
  next
    case (Some d)
    with chk a show ?thesis
      by (cases "getabsolute_in h d None w") (simp_all add: do_pathsearch_entries find_append)
  qed
qed simp

text \<open>\<open>os.pathsearch\<close> goes through the entries of all its lists in order, empty entries included, and
  returns the absolute path of the first one below which the file is.\<close>

theorem os_pathsearch_first:
  assumes "is_cstring f" and "\<forall>s \<in> set paths. is_cstring s"
  shows "os_pathsearch h (LStr f # map LStr paths) w =
    (case find (\<lambda>d. do_isfile h (d @ ''/'' @ f) w) (concat (map (entries (path_separator h)) paths)) of
       None \<Rightarrow> Inr []
     | Some d \<Rightarrow> map_sum id (\<lambda>s. [LStr s]) (getabsolute_in h d None w))"
proof -
  have "map (\<lambda>k. entries (path_separator h) (paths ! (k - 2))) [2..<length paths + 2] = map (entries (path_separator h)) paths"
  proof -
    have "map (\<lambda>k. entries (path_separator h) (paths ! (k - 2))) [2..<length paths + 2]
        = map (\<lambda>i. entries (path_separator h) (paths ! i)) [0..<length paths]"
      unfolding map_add_upt [symmetric] by simp
    also have "\<dots> = map (entries (path_separator h)) (map ((!) paths) [0..<length paths])" by simp
    finally show ?thesis by (simp only: map_nth)
  qed
  then show ?thesis
    using search_args_entries [where ks = "[2..<length paths + 2]" and paths = paths and f = f and g = f and h = h and w = w]
      assms by (simp add: os_pathsearch_def del: upt_Suc)
qed

theorem os_pathsearch_first_witness:
  "os_pathsearch (sample_host Linux) [LStr ''a.txt'', LStr ''/usr;/home:/home/b''] sample_world = Inr [LStr ''/home'']"
proof -
  have c: "is_cstring ''a.txt''" "\<forall>s \<in> set [''/usr;/home:/home/b'']. is_cstring s" by simp_all
  have e: "entries (path_separator (sample_host Linux)) ''/usr;/home:/home/b'' = [''/usr'', ''/home'', ''/home/b'']"
    by (simp add: path_separator_def entries.simps)
  have s: "stat sample_world ''/usr/a.txt'' = Inl ENOENT" "stat sample_world ''/home/a.txt'' = Inr [''home'', ''a.txt'']"
    by (simp_all add: stat_def existing_def find_place_def is_rooted_def walk.simps lookup_sample)
  have d: "\<not> is_dir sample_world [''home'', ''a.txt'']" by (simp add: is_dir_iff lookup_sample)
  have g: "getabsolute_in (sample_host Linux) ''/home'' None sample_world = Inr ''/home''"
  proof -
    have "do_isabsolute ''/home''" "do_translate ''/home'' SLASH = ''/home''" "strtok_all (\<lambda>c. c = SLASH) ''/home'' = [''home'']"
      by code_simp+
    then show ?thesis
      by (simp add: getabsolute_in_def do_getabsolute_def Let_def BUFSIZE_def remove_trailing_slash_def split: option.split)
  qed
  from os_pathsearch_first [OF c, of "sample_host Linux" sample_world] show ?thesis
    by (simp add: e do_isfile_def s d g)
qed

text \<open>An empty entry stands for the root while it is searched, and for the working directory in the result.\<close>

lemma os_pathsearch_empty_entry:
  assumes "is_cstring f" and "do_isfile h (SLASH # f) w"
  shows "os_pathsearch h [LStr f, LStr []] w = map_sum id (\<lambda>s. [LStr s]) (getabsolute_in h [] None w)"
proof -
  have e: "entries (path_separator h) [] = [[]]" by (simp add: entries.simps)
  show ?thesis using os_pathsearch_first [OF assms(1), of "[[]]" h w] assms(2) by (simp add: e)
qed

section \<open>What \<open>os.locate\<close> finds\<close>

definition embedded :: "program \<Rightarrow> cstring \<Rightarrow> bool" where
  "embedded p n \<longleftrightarrow> premake_find_embedded_script p n \<noteq> None"

definition embedded_path :: "program \<Rightarrow> cstring \<Rightarrow> bool" where
  "embedded_path p n \<longleftrightarrow> (\<exists>m. n = ''$/'' @ m \<and> embedded p m)"

definition below :: "host \<Rightarrow> cstring \<Rightarrow> cstring \<Rightarrow> world \<Rightarrow> cstring option" where
  \<comment> \<open>the first of the directories that has the file\<close>
  "below h dirs n w = find (\<lambda>d. do_isfile h (d @ ''/'' @ n) w) (entries (path_separator h) dirs)"

definition nowhere :: "program \<Rightarrow> cstring \<Rightarrow> world \<Rightarrow> cstring \<Rightarrow> bool" where
  "nowhere p dirs w n \<longleftrightarrow>
     \<not> embedded_path p n \<and> \<not> do_isfile (on p) n w \<and> below (on p) dirs n w = None \<and> \<not> embedded p n"

definition found_as :: "program \<Rightarrow> cstring \<Rightarrow> world \<Rightarrow> cstring \<Rightarrow> fault + cstring" where
  "found_as p dirs w n =
     (if embedded_path p n then Inr n
      else if do_isfile (on p) n w then getabsolute_in (on p) n None w
      else (case below (on p) dirs n w of
              Some d \<Rightarrow> map_sum id (\<lambda>a. a @ ''/'' @ n) (getabsolute_in (on p) d None w)
            | None \<Rightarrow> Inr (''$/'' @ n)))"

lemma embedded_path_test:
  "embedded_path p n \<longleftrightarrow> peek n = CHR ''$'' \<and> peek (tl n) = SLASH \<and> premake_find_embedded_script p (drop 2 n) \<noteq> None"
proof
  assume "peek n = CHR ''$'' \<and> peek (tl n) = SLASH \<and> premake_find_embedded_script p (drop 2 n) \<noteq> None"
  moreover have "n = ''$/'' @ drop 2 n" if "peek n = CHR ''$''" "peek (tl n) = SLASH"
    using that by (cases n; cases "tl n") (auto simp: numeral_2_eq_2)
  ultimately show "embedded_path p n" unfolding embedded_path_def embedded_def by metis
qed (auto simp: embedded_path_def embedded_def)

lemma locate_names_Cons:
  assumes "is_cstring n"
  shows "locate_names p (Some dirs) (LStr n # vs) w =
    (if nowhere p dirs w n then locate_names p (Some dirs) vs w
     else map_sum id (\<lambda>s. [LStr s]) (found_as p dirs w n))"
proof -
  note defs = nowhere_def found_as_def embedded_path_test embedded_def below_def do_locate_def do_pathsearch_entries
  show ?thesis
  proof (cases "embedded_path p n \<or> do_isfile (on p) n w")
    case True
    then show ?thesis using assms by (auto simp: defs Let_def)
  next
    case False
    show ?thesis
    proof (cases "below (on p) dirs n w")
      case None
      then show ?thesis using False assms by (auto simp: defs Let_def)
    next
      case (Some d)
      then show ?thesis using False assms
        by (cases "getabsolute_in (on p) d None w") (simp_all add: defs Let_def)
    qed
  qed
qed

text \<open>C21: \<open>os.locate\<close> returns nothing exactly if none of the names is an embedded script, a file, or a file
  below an entry of \<open>premake.path\<close>; otherwise the first name that is one of them decides, and of its
  meanings a full name of an embedded script comes first, then a file, then the first entry of the
  path that has it, and an embedded script of that name last.\<close>

theorem os_locate_order:
  assumes "\<forall>n \<in> set names. is_cstring n" and "lua_getglobal ''premake'' e = Table t"
    and "to_cstring (slots e t (LStr ''path'')) = Some dirs"
  shows "os_locate p (map LStr names) e =
    (case dropWhile (nowhere p dirs (disk e)) names of
       [] \<Rightarrow> Inr []
     | n # _ \<Rightarrow> map_sum id (\<lambda>s. [LStr s]) (found_as p dirs (disk e) n))"
proof -
  have "os_locate p (map LStr names) e = locate_names p (Some dirs) (map LStr names) (disk e)"
    using assms(2,3) by (simp add: os_locate_def lua_getfield_def)
  moreover have "locate_names p (Some dirs) (map LStr names) w =
    (case dropWhile (nowhere p dirs w) names of
       [] \<Rightarrow> Inr [] | n # _ \<Rightarrow> map_sum id (\<lambda>s. [LStr s]) (found_as p dirs w n))" for w
    using assms(1)
  proof (induction names)
    case (Cons n ns)
    then show ?case by (simp del: locate_names.simps(2) add: locate_names_Cons)
  qed simp
  ultimately show ?thesis by simp
qed

section \<open>The entries of \<open>premake.path\<close>\<close>

lemma entries_map:
  "(\<And>c. sep (f c) \<longleftrightarrow> sep c) \<Longrightarrow> (\<And>c. \<not> sep c \<Longrightarrow> f c = c) \<Longrightarrow> entries sep (map f s) = entries sep s"
  by (induction s) (auto simp: entries.simps split: list.splits)

lemma entries_join_semi: "entries (path_separator h) (s @ CHR '';'' # t) = entries (path_separator h) s @ entries (path_separator h) t"
  by (rule entries_join) (simp add: path_separator_def)

text \<open>The entries of \<open>premake.path\<close>, in the order in which they are searched: the working directory, the
  directories of \<open>--scripts\<close> and of \<open>PREMAKE_PATH\<close>, those in the home directory, and the two of the
  system. The colons that become semicolons on POSIX systems do not change them.\<close>

theorem build_premake_path_entries:
  assumes "to_string (lua_getglobal ''_USER_HOME_DIR'' e) = Some home" and "lua_getglobal ''premake'' e = Table t"
  shows "\<exists>path. build_premake_path h e = (Inr (), set_field t (LStr ''path'') (str path) e)
    \<and> entries (path_separator h) path =
       [''.''] @ (case scripts_path e of None \<Rightarrow> [] | Some s \<Rightarrow> entries (path_separator h) s)
       @ (case luaL_getenv h ''PREMAKE_PATH'' of None \<Rightarrow> [] | Some s \<Rightarrow> entries (path_separator h) s)
       @ entries (path_separator h) (home @ ''/.premake'')
       @ (if plat h = Macosx then entries (path_separator h) (home @ ''/Library/Application Support/Premake'') else [])
       @ [''/usr/local/share/premake'', ''/usr/share/premake'']"
proof -
  let ?en = "entries (path_separator h)"
  let ?colon = "\<lambda>c. if c = CHR '':'' then CHR '';'' else c"
  have lit: "?en ''.'' = [''.'']" "?en ''/usr/local/share/premake'' = [''/usr/local/share/premake'']"
    "?en ''/usr/share/premake'' = [''/usr/share/premake'']"
    by (rule entries_plain, simp add: path_separator_def)+
  have j: "?en (s @ '';'' @ r) = ?en s @ ?en r" for s r using entries_join_semi by simp
  define head where "head = ''.'' @ (case scripts_path e of None \<Rightarrow> '''' | Some s \<Rightarrow> '';'' @ s)"
  define env where "env = (case luaL_getenv h ''PREMAKE_PATH'' of None \<Rightarrow> '''' | Some s \<Rightarrow> s @ '';'')"
  define mac where "mac = (if plat h = Macosx then '';'' @ home @ ''/Library/Application Support/Premake'' else '''')"
  define rest where "rest = '';/usr/local/share/premake;/usr/share/premake''"
  have head: "?en head = [''.''] @ (case scripts_path e of None \<Rightarrow> [] | Some s \<Rightarrow> ?en s)"
    using j [of "''.''"] lit(1) by (cases "scripts_path e") (simp_all add: head_def)
  have sys: "?en (s @ rest) = ?en s @ [''/usr/local/share/premake'', ''/usr/share/premake'']" for s
    using j [of s "''/usr/local/share/premake;/usr/share/premake''"] j [of "''/usr/local/share/premake''" "''/usr/share/premake''"] lit
    by (simp add: rest_def)
  have mac: "?en (s @ mac) = ?en s @ (if plat h = Macosx then ?en (home @ ''/Library/Application Support/Premake'') else [])" for s
    using j [of s "home @ ''/Library/Application Support/Premake''"] by (simp add: mac_def)
  have env: "?en (env @ s) = (case luaL_getenv h ''PREMAKE_PATH'' of None \<Rightarrow> [] | Some s \<Rightarrow> ?en s) @ ?en s" for s
    using j [of _ s] by (cases "luaL_getenv h ''PREMAKE_PATH''") (simp_all add: env_def)
  let ?path = "head @ '';'' @ env @ (home @ ''/.premake'') @ mac @ rest"
  have en: "?en ?path = [''.''] @ (case scripts_path e of None \<Rightarrow> [] | Some s \<Rightarrow> ?en s)
       @ (case luaL_getenv h ''PREMAKE_PATH'' of None \<Rightarrow> [] | Some s \<Rightarrow> ?en s)
       @ ?en (home @ ''/.premake'')
       @ (if plat h = Macosx then ?en (home @ ''/Library/Application Support/Premake'') else [])
       @ [''/usr/local/share/premake'', ''/usr/share/premake'']"
    using sys [of "(home @ ''/.premake'') @ mac"] mac [of "home @ ''/.premake''"] by (simp only: j head env append_assoc)
  let ?path' = "if windows h then ?path else map ?colon ?path"
  have "?en ?path' = ?en ?path"
  proof (cases "windows h")
    case False
    then have "path_separator h (?colon c) = path_separator h c" "\<not> path_separator h c \<Longrightarrow> ?colon c = c" for c
      by (simp_all add: path_separator_def)
    from entries_map [where f = ?colon and sep = "path_separator h", OF this] have "?en (map ?colon ?path) = ?en ?path" .
    with False show ?thesis by simp
  qed simp
  moreover have "build_premake_path h e = (Inr (), set_field t (LStr ''path'') (str ?path') e)"
    unfolding build_premake_path_def assms option.case val.case Let_def head_def env_def mac_def rest_def append_assoc ..
  ultimately show ?thesis using en by (intro exI [of _ ?path']) simp
qed

section \<open>A sample program\<close>

text \<open>A program on the sample machine, with one embedded script, on which loading always succeeds.\<close>

definition sample_program :: "platform \<Rightarrow> program" where
  "sample_program q =
     \<lparr>on = sample_host q, builtin_scripts = [(''src/_premake_main.lua'', ''main''), (''base.lua'', ''base'')],
      luaL_loadfilex = (\<lambda>name mode w. LoadFailed LUA_ERRFILE (''cannot open '' @ name)),
      luaL_loadbuffer = (\<lambda>text name. Loaded text),
      run_lua = (\<lambda>f args e. (Inr [], e)), traceback = (\<lambda>v n e. v), registerModules = (\<lambda>e. e),
      curl = False, compression = False, LUA_COPYRIGHT = ''Lua'', PREMAKE_VERSION = ''5'',
      readlink = (\<lambda>_. Some ''/bin/premake5''), sysctl_pathname = None, openbsd = False, bundle_path = None,
      GetModuleFileNameW = [], isatty = False\<rparr>"

definition sample_engine :: engine where
  "sample_engine =
     (let e = \<lparr>slots = (\<lambda>_ _. nil), next_table = 3, closures = (\<lambda>_. ([], nil)), next_closure = 0, disk = sample_world,
               scripts_path = None, warned = False, printed = [], s_currentColor = -1, s_shouldUseColor = -1, console = None\<rparr> in
      lua_setglobal ''_USER_HOME_DIR'' (str ''/home'')
        (lua_setglobal ''premake'' (Table 2) (set_field 2 (LStr ''path'') (str ''.;/home'') e)))"

lemma sample_engine_simps [simp]:
  "lua_getglobal ''premake'' sample_engine = Table 2" "lua_getglobal ''_USER_HOME_DIR'' sample_engine = str ''/home''"
  "slots sample_engine 2 (LStr ''path'') = str ''.;/home''" "disk sample_engine = sample_world"
  "scripts_path sample_engine = None" "s_currentColor sample_engine = -1" "s_shouldUseColor sample_engine = -1"
  "printed sample_engine = []" "warned sample_engine = False" "next_closure sample_engine = 0"
  by (simp_all add: sample_engine_def Let_def GLOBALS_def lua_setglobal_def lua_getglobal_def)

lemma sample_program_simps [simp]:
  "on (sample_program q) = sample_host q"
  "premake_find_embedded_script (sample_program q) n =
     (if n = ''src/_premake_main.lua'' then Some ''main'' else if n = ''base.lua'' then Some ''base'' else None)"
  "readlink (sample_program q) s = Some ''/bin/premake5''" "luaL_loadbuffer (sample_program q) text name = Loaded text"
  "run_lua (sample_program q) f args e = (Inr [], e)"
  "luaL_loadfilex (sample_program q) name m w = LoadFailed LUA_ERRFILE (''cannot open '' @ name)"
  "isatty (sample_program q) = False"
  by (auto simp: sample_program_def premake_find_embedded_script_def)

lemma sample_path: "to_cstring (slots sample_engine 2 (LStr ''path'')) = Some ''.;/home''"
  by (simp add: to_cstring_def to_string_def)

lemma sample_missing:
  "stat sample_world ''nothing'' = Inl ENOENT" "stat sample_world ''base.lua'' = Inl ENOENT"
  "stat sample_world ''./nothing'' = Inl ENOENT" "stat sample_world ''./base.lua'' = Inl ENOENT"
  "stat sample_world ''/home/nothing'' = Inl ENOENT" "stat sample_world ''/home/base.lua'' = Inl ENOENT"
  by (simp_all add: stat_def existing_def find_place_def is_rooted_def walk.simps lookup_sample,
      simp_all add: sample_world_def lookup_def walk.simps)

lemma sample_located:
  "nowhere (sample_program Linux) ''.;/home'' sample_world ''nothing''"
  "\<not> nowhere (sample_program Linux) ''.;/home'' sample_world ''base.lua''"
  "found_as (sample_program Linux) ''.;/home'' sample_world ''base.lua'' = Inr ''$/base.lua''"
proof -
  have e: "entries (path_separator (sample_host Linux)) ''.;/home'' = [''.'', ''/home'']"
    by (simp add: path_separator_def entries.simps)
  have b: "below (sample_host Linux) ''.;/home'' ''nothing'' sample_world = None"
    "below (sample_host Linux) ''.;/home'' ''base.lua'' sample_world = None"
    by (simp_all add: below_def e do_isfile_def sample_missing)
  show "nowhere (sample_program Linux) ''.;/home'' sample_world ''nothing''"
    by (simp add: nowhere_def embedded_path_def embedded_def b do_isfile_def sample_missing)
  show "\<not> nowhere (sample_program Linux) ''.;/home'' sample_world ''base.lua''"
    by (simp add: nowhere_def embedded_def)
  show "found_as (sample_program Linux) ''.;/home'' sample_world ''base.lua'' = Inr ''$/base.lua''"
    by (simp add: found_as_def embedded_path_def b do_isfile_def sample_missing)
qed

theorem os_locate_order_witness:
  "os_locate (sample_program Linux) [LStr ''nothing'', LStr ''base.lua'', LStr ''/home/a.txt''] sample_engine
     = Inr [LStr ''$/base.lua'']"
proof -
  have c: "\<forall>n \<in> set [''nothing'', ''base.lua'', ''/home/a.txt'']. is_cstring n" by simp
  from os_locate_order [where p = "sample_program Linux", OF c sample_engine_simps(1) sample_path]
  show ?thesis using sample_located by simp
qed

theorem build_premake_path_entries_witness:
  "\<exists>path. build_premake_path (sample_host Linux) sample_engine
      = (Inr (), set_field 2 (LStr ''path'') (str path) sample_engine)
    \<and> entries (path_separator (sample_host Linux)) path
      = [''.'', ''/home/.premake'', ''/usr/local/share/premake'', ''/usr/share/premake'']"
proof -
  have h: "to_string (lua_getglobal ''_USER_HOME_DIR'' sample_engine) = Some ''/home''" by (simp add: to_string_def)
  have e: "entries (path_separator (sample_host Linux)) ''/home/.premake'' = [''/home/.premake'']"
    by (rule entries_plain) (simp add: path_separator_def)
  from build_premake_path_entries [OF h sample_engine_simps(1), of "sample_host Linux"] show ?thesis
    by (simp add: e luaL_getenv_def)
qed

end
