(* ===== verification/Terminal.thy ===== *)
theory Terminal
  imports Search
begin

text \<open>
  \<open>src/host/term_textColor.c\<close>: the colour of the text on the terminal, with its two static variables
  (the present colour, and whether colours are used, which is decided once), and the printing of
  errors in \<open>src/host/premake.c\<close>.
\<close>

section \<open>Colours\<close>

definition int_of_integer :: "int \<Rightarrow> int" where
  \<comment> \<open>the cast \<open>(int)\<close> of a \<open>lua_Integer\<close>\<close>
  "int_of_integer i = sint (word_of_int i :: 32 word)"

lemma int_of_integer_id: "- (2 ^ 31) \<le> c \<Longrightarrow> c < 2 ^ 31 \<Longrightarrow> int_of_integer c = c"
  by (simp add: int_of_integer_def sint_sbintrunc' signed_take_bit_int_eq_self)

definition getenvOrFallback :: "host \<Rightarrow> cstring \<Rightarrow> cstring \<Rightarrow> cstring" where
  "getenvOrFallback h var fallback = (case getenv h var of Some value \<Rightarrow> value | None \<Rightarrow> fallback)"

definition colors_wanted :: "program \<Rightarrow> bool" where
  "colors_wanted p \<longleftrightarrow>
     peek (getenvOrFallback (on p) ''CLICOLOR'' ''1'') \<noteq> CHR ''0'' \<and> isatty p
     \<or> peek (getenvOrFallback (on p) ''CLICOLOR_FORCE'' ''0'') \<noteq> CHR ''0''"

definition shouldUseColors :: "program \<Rightarrow> engine \<Rightarrow> bool \<times> engine" where
  "shouldUseColors p e =
     (let v = (if s_shouldUseColor e < 0 then (if colors_wanted p then 1 else 0) else s_shouldUseColor e) in
      (v \<noteq> 0, e\<lparr>s_shouldUseColor := v\<rparr>))"

definition term_doGetTextColor :: "program \<Rightarrow> engine \<Rightarrow> int" where
  "term_doGetTextColor p e =
     (if windows (on p) then (case console e of None \<Rightarrow> -1 | Some n \<Rightarrow> n) else s_currentColor e)"

definition colorTable :: "string list" where
  "colorTable = map (\<lambda>s. CHR 0x1B # s)
     [''[0;30m'', ''[0;34m'', ''[0;32m'', ''[0;36m'', ''[0;31m'', ''[0;35m'', ''[0;33m'', ''[0;37m'',
      ''[1;30m'', ''[1;34m'', ''[1;32m'', ''[1;36m'', ''[1;31m'', ''[1;35m'', ''[1;33m'', ''[1;37m'']"

definition color_sequence :: "int \<Rightarrow> string" where
  "color_sequence color = (if 0 \<le> color \<and> color < 16 then colorTable ! nat color else CHR 0x1B # ''[0m'')"

definition term_doSetTextColor :: "program \<Rightarrow> int \<Rightarrow> engine \<Rightarrow> engine" where
  "term_doSetTextColor p color e =
     (if windows (on p) then
        (if 0 \<le> color then
           (case shouldUseColors p e of
              (True, e1) \<Rightarrow> e1\<lparr>console := map_option (\<lambda>_. color mod 2 ^ 16) (console e1)\<rparr>
            | (False, e1) \<Rightarrow> e1)
         else e)
      else
        (case shouldUseColors p e of
           (False, e1) \<Rightarrow> e1
         | (True, e1) \<Rightarrow> e1\<lparr>s_currentColor := color, printed := printed e1 @ color_sequence color\<rparr>))"

definition term_getTextColor :: "program \<Rightarrow> engine \<Rightarrow> lua_ret" where
  "term_getTextColor p e = Inr [LInt (term_doGetTextColor p e)]"

definition term_setTextColor :: "program \<Rightarrow> lval list \<Rightarrow> lval list run" where
  "term_setTextColor p args e =
     (case luaL_optinteger args 1 (-1) of
        Inl x \<Rightarrow> (Inl x, e)
      | Inr n \<Rightarrow> (Inr [], term_doSetTextColor p (int_of_integer n) e))"

section \<open>Errors\<close>

definition setErrorColor :: "program \<Rightarrow> unit run" where
  "setErrorColor p e =
     (case lua_getfield (lua_getglobal ''term'' e) ''errorColor'' e of
        Inl x \<Rightarrow> (Inl x, e)
      | Inr v \<Rightarrow>
          if v = nil then (Inr (), term_doSetTextColor p 12 e)
          else
            (case (case v of Base b \<Rightarrow> lua_tointeger b | _ \<Rightarrow> None) of
               None \<Rightarrow> (Inl (LuaError ''number expected''), e)
             | Some n \<Rightarrow> (Inr (), term_doSetTextColor p (int_of_integer n) e)))"

definition premake_handle_lua_error :: "program \<Rightarrow> val \<Rightarrow> unit run" where
  \<comment> \<open>the value is the error on top of the stack; a message that is not a string is NULL\<close>
  "premake_handle_lua_error p err e =
     (let oldColor = term_doGetTextColor p e in
      bind_run (setErrorColor p) (\<lambda>_ e1.
        case to_cstring err of
          None \<Rightarrow> (Inl OutOfBounds, e1)
        | Some message \<Rightarrow>
            let line = (if strncmp_eq message ''** Error:'' 9 then message @ [CHR 0x0A]
                        else ''Error: '' @ message @ [CHR 0x0A]) in
            (Inr (), term_doSetTextColor p oldColor (e1\<lparr>printed := printed e1 @ line\<rparr>))) e)"

section \<open>Properties\<close>

definition uses_colors :: "program \<Rightarrow> engine \<Rightarrow> bool" where
  "uses_colors p e \<longleftrightarrow> (if s_shouldUseColor e < 0 then colors_wanted p else s_shouldUseColor e \<noteq> 0)"

lemma shouldUseColors_fst [simp]: "fst (shouldUseColors p e) = uses_colors p e"
  by (simp add: shouldUseColors_def uses_colors_def Let_def)

lemma uses_colors_update [simp]:
  "uses_colors p (e\<lparr>printed := o'\<rparr>) = uses_colors p e" "uses_colors p (e\<lparr>s_currentColor := c\<rparr>) = uses_colors p e"
  "uses_colors p (e\<lparr>s_currentColor := c, printed := o'\<rparr>) = uses_colors p e"
  by (simp_all add: uses_colors_def)

lemma set_color_posix:
  assumes "plat (on p) \<noteq> Windows"
  shows "printed (term_doSetTextColor p c e) = printed e @ (if uses_colors p e then color_sequence c else '''')"
    and "s_currentColor (term_doSetTextColor p c e) = (if uses_colors p e then c else s_currentColor e)"
    and "uses_colors p (term_doSetTextColor p c e) = uses_colors p e"
    and "slots (term_doSetTextColor p c e) = slots e" and "disk (term_doSetTextColor p c e) = disk e"
  using assms
  by (simp_all add: term_doSetTextColor_def shouldUseColors_def uses_colors_def Let_def split: bool.split)

text \<open>An error is printed as one line between two colour sequences, with its prefix unless the message
  brings its own, and the colour from before is restored; without colours only the line is printed.\<close>

theorem handle_lua_error_prints:
  assumes "plat (on p) \<noteq> Windows" and "lua_getglobal ''term'' e = Table t"
    and "slots e t (LStr ''errorColor'') = nil \<and> c = 12 \<or> slots e t (LStr ''errorColor'') = Base (LInt c)"
    and "- (2 ^ 31) \<le> c \<and> c < 2 ^ 31" and "is_cstring message"
  shows "\<exists>e'. premake_handle_lua_error p (str message) e = (Inr (), e')
    \<and> printed e' = printed e @ (if uses_colors p e then color_sequence c else '''')
        @ (if prefix ''** Error:'' message then message else ''Error: '' @ message) @ [CHR 0x0A]
        @ (if uses_colors p e then color_sequence (s_currentColor e) else '''')
    \<and> s_currentColor e' = s_currentColor e \<and> disk e' = disk e \<and> slots e' = slots e"
proof -
  have i: "int_of_integer c = c"
    using assms(4) by (intro int_of_integer_id) simp_all
  have set: "setErrorColor p e = (Inr (), term_doSetTextColor p c e)"
    using assms(2,3) i by (auto simp: setErrorColor_def lua_getfield_def)
  have pr: "strncmp_eq message ''** Error:'' 9 \<longleftrightarrow> prefix ''** Error:'' message"
  proof -
    have "length ''** Error:'' = 9" by simp
    with strncmp_prefix [of message "''** Error:''"] show ?thesis by (simp only:)
  qed
  have m: "to_cstring (str message) = Some message" using assms(5) by (simp add: to_cstring_def to_string_def)
  have g: "term_doGetTextColor p e = s_currentColor e" using assms(1) by (simp add: term_doGetTextColor_def)
  show ?thesis
    using set_color_posix [OF assms(1)]
    by (simp add: premake_handle_lua_error_def bind_run_def set m g pr Let_def)
qed

theorem handle_lua_error_prints_witness:
  "\<exists>e'. premake_handle_lua_error (sample_program Linux) (str ''stop'') (lua_setglobal ''term'' (Table 5) sample_engine) = (Inr (), e')
    \<and> printed e' = ''Error: stop'' @ [CHR 0x0A] \<and> s_currentColor e' = -1"
proof -
  let ?e = "lua_setglobal ''term'' (Table 5) sample_engine"
  have t: "lua_getglobal ''term'' ?e = Table 5" by simp
  have n: "slots ?e 5 (LStr ''errorColor'') = nil \<and> (12::int) = 12 \<or> slots ?e 5 (LStr ''errorColor'') = Base (LInt 12)"
    by (simp add: lua_setglobal_def sample_engine_def Let_def GLOBALS_def)
  have m: "- (2 ^ 31) \<le> (12::int) \<and> (12::int) < 2 ^ 31" "is_cstring ''stop''" by simp_all
  have w: "plat (on (sample_program Linux)) \<noteq> Windows" by simp
  have u: "\<not> uses_colors (sample_program Linux) ?e"
    by (simp add: uses_colors_def colors_wanted_def getenvOrFallback_def)
  from handle_lua_error_prints [OF w t n m] u show ?thesis by auto
qed

text \<open>On a terminal that shows colours, a colour that has been set is the one that is read back, and what
  was printed is its escape sequence; where none are used nothing happens. Once decided, this does not
  change any more.\<close>

theorem text_color_roundtrip:
  assumes "plat (on p) \<noteq> Windows" and "- (2 ^ 31) \<le> c \<and> c < 2 ^ 31"
  shows "\<exists>e'. term_setTextColor p [LInt c] e = (Inr [], e')
    \<and> term_getTextColor p e' = (if uses_colors p e then Inr [LInt c] else term_getTextColor p e)
    \<and> printed e' = printed e @ (if uses_colors p e then color_sequence c else '''')
    \<and> uses_colors p e' = uses_colors p e"
proof -
  have i: "int_of_integer c = c"
    using assms(2) by (intro int_of_integer_id) simp_all
  have opt: "luaL_optinteger [LInt c] 1 (-1) = Inr c"
    by (simp add: luaL_optinteger_def luaL_checkinteger_def lua_isnoneornil_def arg_def)
  show ?thesis
    using set_color_posix [OF assms(1)] assms(1)
    by (simp add: term_setTextColor_def opt i term_getTextColor_def term_doGetTextColor_def del: One_nat_def)
qed

theorem text_color_roundtrip_witness:
  "\<exists>e'. term_setTextColor (sample_program Linux) [LInt 4] sample_engine = (Inr [], e')
    \<and> term_getTextColor (sample_program Linux) e' = Inr [LInt (-1)]"
proof -
  have w: "plat (on (sample_program Linux)) \<noteq> Windows" by simp
  have u: "\<not> uses_colors (sample_program Linux) sample_engine"
    by (simp add: uses_colors_def colors_wanted_def getenvOrFallback_def)
  have c: "- (2 ^ 31) \<le> (4::int) \<and> (4::int) < 2 ^ 31" by simp
  from text_color_roundtrip [OF w c, of sample_engine] u show ?thesis
    by (auto simp: term_getTextColor_def term_doGetTextColor_def)
qed

end
