(* ===== verification/Script_Loader.thy ===== *)
theory Script_Loader
  imports Terminal
begin

text \<open>
  \<open>src/host/lua_auxlib.c\<close>, and the loading of embedded scripts in \<open>src/host/premake.c\<close>: where the source
  of a script comes from, the closure that every loaded script is wrapped in (it sets \<open>_SCRIPT\<close>,
  \<open>_SCRIPT_DIR\<close> and the working directory while the script runs), and the replacements of \<open>loadfile\<close>,
  \<open>dofile\<close> and the searcher of \<open>require\<close>. The stack of a C function is the list of its values, because
  its height decides some of the behaviour. The compiler and the interpreter are parameters.
\<close>

section \<open>Embedded scripts\<close>

definition new_function :: "string \<Rightarrow> engine \<Rightarrow> val \<times> engine" where
  \<comment> \<open>the first upvalue of a compiled chunk is the table of globals\<close>
  "new_function text e =
     (Function (next_closure e),
      e\<lparr>closures := (closures e)(next_closure e := (text, Table GLOBALS)), next_closure := Suc (next_closure e)\<rparr>)"

definition push_loaded :: "load_result \<Rightarrow> engine \<Rightarrow> (load_status \<times> val) \<times> engine" where
  "push_loaded r e =
     (case r of
        Loaded text \<Rightarrow> (case new_function text e of (f, e1) \<Rightarrow> ((LUA_OK, f), e1))
      | LoadFailed z msg \<Rightarrow> ((z, str msg), e))"

definition embedded_warning :: "cstring \<Rightarrow> string" where
  "embedded_warning filename =
     ''** warning: using embedded script '' @ quoted filename @ ''; use /scripts argument to load from files'' @ [CHR 0x0A]"

definition premake_load_embedded_script :: "program \<Rightarrow> cstring \<Rightarrow> engine \<Rightarrow> (load_status \<times> val list) \<times> engine" where
  \<comment> \<open>the status and what was pushed\<close>
  "premake_load_embedded_script p filename e =
     (case premake_find_embedded_script p filename of
        None \<Rightarrow> ((LUA_ERRFILE, []), e)
      | Some bytecode \<Rightarrow>
          let e1 = (if ndebug (on p) \<or> warned e then e
                    else e\<lparr>warned := True, printed := printed e @ embedded_warning filename\<rparr>) in
          (case push_loaded (luaL_loadbuffer p bytecode filename) e1 of
             ((z, v), e2) \<Rightarrow> ((z, [str (''$/'' @ filename), v]), e2)))"

section \<open>\<open>luaL_loadfile\<close>\<close>

definition from_script_dir :: "program \<Rightarrow> cstring \<Rightarrow> ((load_status \<times> val list) option) run" where
  \<comment> \<open>nothing unless the running script is embedded\<close>
  "from_script_dir p filename e =
     (case to_cstring (lua_getglobal ''_SCRIPT_DIR'' e) of
        None \<Rightarrow> (Inr None, e)
      | Some script_dir \<Rightarrow>
          if peek script_dir \<noteq> CHR ''$'' then (Inr None, e)
          else
            (case getabsolute_in (on p) filename (Some script_dir) (disk e) of
               Inl x \<Rightarrow> (Inl x, e)
             | Inr test_name \<Rightarrow>
                 if length test_name < 2 then (Inl OutOfBounds, e)
                 else (case premake_load_embedded_script p (drop 2 test_name) e of (r, e1) \<Rightarrow> (Inr (Some r), e1))))"

definition from_disk :: "program \<Rightarrow> cstring \<Rightarrow> cstring option \<Rightarrow> load_status option \<Rightarrow> (load_status option \<times> val list) run" where
  \<comment> \<open>\<open>z\<close> is the status so far, and stays it when nothing is located\<close>
  "from_disk p filename mode z e =
     (case os_locate p [LStr filename] e of
        Inl x \<Rightarrow> (Inl x, e)
      | Inr rs \<Rightarrow>
          (case (case rs of LStr s # _ \<Rightarrow> Some s | _ \<Rightarrow> None) of
             None \<Rightarrow> (Inr (z, []), e)
           | Some test_name \<Rightarrow>
               (case push_loaded (luaL_loadfilex p (c_view test_name) mode (disk e)) e of
                  ((s, v), e1) \<Rightarrow>
                    (Inr (Some s, if s = LUA_ERRFILE then [str test_name] else [str test_name, v]), e1))))"

definition wrap_chunk :: "program \<Rightarrow> cstring \<Rightarrow> nat \<Rightarrow> bool \<Rightarrow> load_status \<Rightarrow> val list \<Rightarrow> (load_status \<times> val list) run" where
  "wrap_chunk p filename bottom env z st e =
     (if \<not> ndebug (on p) \<and> length st \<noteq> bottom + (if z = LUA_OK then 2 else 0)
      then (Inl Aborted, e) \<comment> \<open>the assertion\<close>
      else if z = LUA_OK then
        (Inr (z, take (length st - 2) st @
           [Native ''chunk_wrapper'' ((if env then [nil] else []) @ drop (length st - 2) st)]), e)
      else if z = LUA_ERRFILE then
        (Inr (z, st @ [str (''cannot open '' @ filename @ '': No such file or directory'')]), e)
      else (Inr (z, st), e))"

definition premake_luaL_loadfilex ::
    "program \<Rightarrow> val list \<Rightarrow> cstring option \<Rightarrow> cstring option \<Rightarrow> (load_status \<times> val list) run" where
  \<comment> \<open>from the stack at the call to the status and the stack at the return\<close>
  "premake_luaL_loadfilex p st fname mode e =
     (case fname of
        None \<Rightarrow> (Inl OutOfBounds, e)
      | Some filename \<Rightarrow>
          let bottom = length st;
              is_require = bottom \<ge> 4;
              env = (\<not> is_require \<and> bottom \<ge> 3) in
          if peek filename = CHR ''$'' then
            (if length filename < 2 then (Inl OutOfBounds, e)
             else
               (case premake_load_embedded_script p (drop 2 filename) e of
                  ((z, vs), e1) \<Rightarrow>
                    if z \<noteq> LUA_OK then (Inr (z, st @ vs), e1)
                    else wrap_chunk p filename bottom env z (st @ vs) e1))
          else
            bind_run (from_script_dir p filename) (\<lambda>r e1.
              let st1 = (case r of None \<Rightarrow> st | Some (_, vs) \<Rightarrow> st @ vs); z1 = map_option fst r in
              if z1 = Some LUA_OK then wrap_chunk p filename bottom env LUA_OK st1 e1
              else
                bind_run (from_disk p filename mode z1) (\<lambda>(z2, vs) e2.
                  let st2 = st1 @ vs in
                  if z2 = Some LUA_OK then wrap_chunk p filename bottom env LUA_OK st2 e2
                  else if vs \<noteq> [] \<and> z2 \<noteq> Some LUA_ERRFILE then (Inr (the_default LUA_ERRFILE z2, st2), e2)
                  else
                    (case premake_load_embedded_script p filename e2 of
                       ((z3, vs3), e3) \<Rightarrow> wrap_chunk p filename bottom env z3 (st2 @ vs3) e3)) e1) e)"

section \<open>The wrapper\<close>

definition upvalue :: "val list \<Rightarrow> nat \<Rightarrow> val" where
  "upvalue ups i = (if 1 \<le> i \<and> i \<le> length ups then ups ! (i - 1) else nil)"

definition lua_setupvalue :: "val \<Rightarrow> val \<Rightarrow> engine \<Rightarrow> engine" where
  \<comment> \<open>the first upvalue of a compiled function\<close>
  "lua_setupvalue f v e =
     (case f of Function n \<Rightarrow> e\<lparr>closures := (closures e)(n := (fst (closures e n), v))\<rparr> | _ \<Rightarrow> e)"

definition script_dir_of :: "cstring \<Rightarrow> cstring" where
  "script_dir_of filename =
     (case strrchr filename SLASH of
        Some ptr \<Rightarrow> take (length filename - length ptr) filename
      | None \<Rightarrow> filename)"

definition enter_script :: "host \<Rightarrow> val \<Rightarrow> cstring \<Rightarrow> unit run" where
  \<comment> \<open>\<open>_SCRIPT\<close>, \<open>_SCRIPT_DIR\<close> and the working directory of a script\<close>
  "enter_script h name dir e =
     (let e1 = lua_setglobal ''_SCRIPT_DIR'' (str dir) (lua_setglobal ''_SCRIPT'' name e) in
      if peek dir = CHR ''$'' then (Inr (), e1)
      else bind_run (on_disk (do_chdir h dir)) (\<lambda>_ e2. (Inr (), e2)) e1)"

definition leave_script :: "host \<Rightarrow> cstring option \<Rightarrow> val \<Rightarrow> val \<Rightarrow> unit run" where
  \<comment> \<open>the buffer of the working directory is read even where \<open>do_getcwd\<close> has failed\<close>
  "leave_script h here script script_dir e =
     (case here of
        None \<Rightarrow> (Inl Uninitialised, e)
      | Some d \<Rightarrow> bind_run (on_disk (do_chdir h d)) (\<lambda>_ e1.
          (Inr (), lua_setglobal ''_SCRIPT_DIR'' script_dir (lua_setglobal ''_SCRIPT'' script e1))) e)"

definition chunk_wrapper :: "program \<Rightarrow> val list \<Rightarrow> val list \<Rightarrow> (val list) run" where
  "chunk_wrapper p ups args e =
     (let offset = (case upvalue ups 1 of Table _ \<Rightarrow> 1 | _ \<Rightarrow> 0);
          here = do_getcwd (on p) (path_max (on p)) (disk e);
          script = lua_getglobal ''_SCRIPT'' e; script_dir = lua_getglobal ''_SCRIPT_DIR'' e;
          name = upvalue ups (1 + offset); chunk = upvalue ups (2 + offset) in
      case to_cstring name of
        None \<Rightarrow> (Inl OutOfBounds, lua_setglobal ''_SCRIPT'' name e) \<comment> \<open>\<open>strrchr\<close> of NULL\<close>
      | Some filename \<Rightarrow>
          bind_run (enter_script (on p) name (script_dir_of filename)) (\<lambda>_ e1.
            let e2 = (if offset = 1 then lua_setupvalue chunk (upvalue ups 1) e1 else e1) in
            bind_run (run_lua p chunk args) (\<lambda>rs.
              bind_run (leave_script (on p) here script script_dir) (\<lambda>_ e4.
                (Inr ((if offset = 1 then [chunk] else []) @ rs), e4))) e2) e)"

definition call_value :: "program \<Rightarrow> val \<Rightarrow> val list \<Rightarrow> (val list) run" where
  "call_value p v args =
     (case v of
        Native n ups \<Rightarrow> if n = ''chunk_wrapper'' then chunk_wrapper p ups args else run_lua p v args
      | _ \<Rightarrow> run_lua p v args)"

section \<open>\<open>loadfile\<close> and \<open>dofile\<close>\<close>

definition opt_string :: "val list \<Rightarrow> nat \<Rightarrow> fault + cstring option" where
  \<comment> \<open>\<open>luaL_optstring(L, i, NULL)\<close>\<close>
  "opt_string args i =
     (if length args < i \<or> args ! (i - 1) = nil then Inr None
      else (case to_cstring (args ! (i - 1)) of None \<Rightarrow> Inl (BadArgument i) | Some s \<Rightarrow> Inr (Some s)))"

definition set_first_upvalue :: "val \<Rightarrow> val \<Rightarrow> val" where
  "set_first_upvalue v f = (case f of Native n (_ # ups) \<Rightarrow> Native n (v # ups) | _ \<Rightarrow> f)"

definition load_aux :: "load_status \<Rightarrow> val option \<Rightarrow> val list \<Rightarrow> val list" where
  \<comment> \<open>the results, from the stack\<close>
  "load_aux status env st =
     (if status = LUA_OK
      then [case env of Some v \<Rightarrow> set_first_upvalue v (last st) | None \<Rightarrow> last st]
      else [nil, last st])"

definition premake_luaB_loadfile :: "program \<Rightarrow> val list \<Rightarrow> (val list) run" where
  "premake_luaB_loadfile p args e =
     (case bind_f (opt_string args 1) (\<lambda>fname. map_sum id (Pair fname) (opt_string args 2)) of
        Inl x \<Rightarrow> (Inl x, e)
      | Inr (fname, mode) \<Rightarrow>
          bind_run (premake_luaL_loadfilex p args fname mode) (\<lambda>(status, st) e1.
            (Inr (load_aux status (if length args \<ge> 3 then Some (args ! 2) else None) st), e1)) e)"

definition error_object :: "val \<Rightarrow> fault" where
  "error_object v = LuaError (the_default [] (to_string v))"

definition premake_luaB_dofile :: "program \<Rightarrow> val list \<Rightarrow> (val list) run" where
  "premake_luaB_dofile p args e =
     (case opt_string args 1 of
        Inl x \<Rightarrow> (Inl x, e)
      | Inr fname \<Rightarrow>
          bind_run (premake_luaL_loadfilex p [if args = [] then nil else hd args] fname None) (\<lambda>(status, st) e1.
            if status \<noteq> LUA_OK then (Inl (error_object (last st)), e1)
            else bind_run (call_value p (last st) []) (\<lambda>rs e2. (Inr (tl (butlast st) @ rs), e2)) e1) e)"

section \<open>\<open>require\<close>\<close>

definition readable :: "host \<Rightarrow> cstring \<Rightarrow> world \<Rightarrow> bool \<times> world" where
  "readable h filename w =
     (case (if windows h
            then (case luaL_convertlstring h filename of None \<Rightarrow> (None, w) | Some wfilename \<Rightarrow> wfopen_rb (win h) wfilename w)
            else fopen_rb filename w) of
        (None, w1) \<Rightarrow> (False, w1)
      | (Some f, w1) \<Rightarrow> (True, fclose f w1))"

text \<open>The templates of a search path are the non-empty pieces between the semicolons.\<close>

definition pushnexttemplate :: "cstring \<Rightarrow> (cstring \<times> cstring) option" where
  "pushnexttemplate path =
     (case dropWhile (\<lambda>c. c = CHR '';'') path of
        [] \<Rightarrow> None
      | c # s \<Rightarrow> Some (takeWhile (\<lambda>c. c \<noteq> CHR '';'') (c # s), dropWhile (\<lambda>c. c \<noteq> CHR '';'') (c # s)))"

definition gsub_char :: "char \<Rightarrow> cstring \<Rightarrow> cstring \<Rightarrow> cstring" where
  \<comment> \<open>\<open>luaL_gsub\<close> of a pattern that is one character\<close>
  "gsub_char c r s = concat (map (\<lambda>x. if x = c then r else [x]) s)"

lemma pushnexttemplate_less: "pushnexttemplate path = Some (t, l) \<Longrightarrow> length l < length path"
proof -
  assume p: "pushnexttemplate path = Some (t, l)"
  show ?thesis
  proof (cases "dropWhile (\<lambda>c. c = CHR '';'') path")
    case Nil
    with p show ?thesis unfolding pushnexttemplate_def by simp
  next
    case (Cons c s)
    note c = dropWhile_ConsD [OF Cons]
    have "l = dropWhile (\<lambda>c. c \<noteq> CHR '';'') (c # s)" using p unfolding pushnexttemplate_def Cons by simp
    then have "length l \<le> length s" using c by (simp add: length_dropWhile_le)
    with c show ?thesis by simp
  qed
qed

function search_templates :: "host \<Rightarrow> cstring \<Rightarrow> cstring \<Rightarrow> string \<Rightarrow> world \<Rightarrow> (string + cstring) \<times> world" where
  \<comment> \<open>the file that was found, or the message\<close>
  "search_templates h name path msg w =
     (case pushnexttemplate path of
        None \<Rightarrow> (Inl msg, w)
      | Some (template, l) \<Rightarrow>
          let filename = gsub_char (CHR ''?'') name template in
          (case readable h filename w of
             (True, w1) \<Rightarrow> (Inr filename, w1)
           | (False, w1) \<Rightarrow>
               search_templates h name l (msg @ [CHR 0x0A, CHR 0x09] @ ''no file '' @ quoted filename) w1))"
  by pat_completeness auto
termination
  by (relation "measure (\<lambda>(h, name, path, msg, w). length path)") (auto dest: pushnexttemplate_less)

declare search_templates.simps [simp del]

definition searchpath :: "host \<Rightarrow> cstring \<Rightarrow> cstring \<Rightarrow> cstring \<Rightarrow> cstring \<Rightarrow> world \<Rightarrow> (string + cstring) \<times> world" where
  "searchpath h name path sep dirsep w =
     search_templates h (if sep \<noteq> [] then gsub_char (hd sep) dirsep name else name) path [] w"

definition LUA_DIRSEP :: "host \<Rightarrow> cstring" where
  "LUA_DIRSEP h = (if windows h then [BACKSLASH] else ''/'')"

definition findfile :: "host \<Rightarrow> val \<Rightarrow> cstring \<Rightarrow> cstring \<Rightarrow> (string + cstring) run" where
  "findfile h package name pname e =
     (case lua_getfield package pname e of
        Inl x \<Rightarrow> (Inl x, e)
      | Inr v \<Rightarrow>
          (case to_cstring v of
             None \<Rightarrow> (Inl (LuaError (quoted (''package.'' @ pname) @ '' must be a string'')), e)
           | Some path \<Rightarrow>
               (case searchpath h name path ''.'' (LUA_DIRSEP h) (disk e) of (r, w) \<Rightarrow> (Inr r, e\<lparr>disk := w\<rparr>))))"

definition checkload :: "bool \<Rightarrow> cstring \<Rightarrow> cstring \<Rightarrow> val list \<Rightarrow> fault + val list" where
  "checkload ok name filename st =
     (if ok then Inr [last st, str filename]
      else Inl (LuaError (''error loading module '' @ quoted name @ '' from file '' @ quoted filename @
             '':'' @ [CHR 0x0A, CHR 0x09] @ the_default ''(null)'' (to_cstring (last st)))))"

definition premake_searcher_Lua :: "program \<Rightarrow> val list \<Rightarrow> val list \<Rightarrow> (val list) run" where
  "premake_searcher_Lua p ups args e =
     (case (if args = [] then None else to_cstring (hd args)) of
        None \<Rightarrow> (Inl (BadArgument 1), e)
      | Some name \<Rightarrow>
          bind_run (findfile (on p) (upvalue ups 1) name ''path'') (\<lambda>r e1.
            case r of
              Inl msg \<Rightarrow> (Inr [str msg], e1)
            | Inr filename \<Rightarrow>
                \<comment> \<open>the name, the path, the name with its dots replaced and the file name are on the stack\<close>
                let path = the_default nil (case lua_getfield (upvalue ups 1) ''path'' e of Inr v \<Rightarrow> Some v | Inl _ \<Rightarrow> None) in
                bind_run (premake_luaL_loadfilex p (args @ [path, str (gsub_char (CHR ''.'') (LUA_DIRSEP (on p)) name), str filename])
                            (Some filename) None)
                  (\<lambda>(status, st) e2. (checkload (status = LUA_OK) name filename st, e2)) e1) e)"

section \<open>Loading\<close>

lemma load_embedded_OK:
  "premake_load_embedded_script p n e = ((LUA_OK, vs), e1) \<Longrightarrow> \<exists>a b. vs = [a, b]"
  by (auto simp: premake_load_embedded_script_def Let_def split: option.splits prod.splits)

lemma wrap_chunk_OK:
  assumes "wrap_chunk p f n env LUA_OK (st @ [a, b]) e = (Inr (z, st'), e')"
  shows "z = LUA_OK \<and> st' = st @ [Native ''chunk_wrapper'' ((if env then [nil] else []) @ [a, b])] \<and> e' = e"
  using assms by (auto simp: wrap_chunk_def split: if_splits)

lemma wrap_chunk_other: "z \<noteq> LUA_OK \<Longrightarrow> wrap_chunk p f n env z st e = (Inr (z', st'), e') \<Longrightarrow> z' \<noteq> LUA_OK"
  by (auto simp: wrap_chunk_def split: if_splits)

lemma wrap_embedded_OK:
  assumes "premake_load_embedded_script p g e = ((z, vs), e1)" and "wrap_chunk p f n env z (st @ vs) e1 = (Inr (LUA_OK, st'), e')"
  shows "\<exists>a b. st' = st @ [Native ''chunk_wrapper'' ((if env then [nil] else []) @ [a, b])]"
proof (cases "z = LUA_OK")
  case True
  with load_embedded_OK [of p g e vs e1] assms(1) obtain a b where "vs = [a, b]" by auto
  with True wrap_chunk_OK [of p f n env st a b e1 LUA_OK st' e'] assms(2) show ?thesis by auto
qed (use assms wrap_chunk_other in blast)

lemma from_disk_OK:
  "from_disk p f mode z e = (Inr (Some LUA_OK, vs), e1) \<Longrightarrow> z \<noteq> Some LUA_OK \<Longrightarrow> \<exists>a b. vs = [a, b]"
  by (auto simp: from_disk_def split: sum.splits option.splits prod.splits if_splits)

text \<open>Whatever the source of a script: what a successful load leaves on top of the stack is a wrapper with
  the name of the script and its chunk, and a first upvalue more if the call had three arguments.\<close>

lemma loadfilex_OK:
  assumes "premake_luaL_loadfilex p st fname mode e = (Inr (LUA_OK, st'), e')"
  shows "\<exists>rest a b. st' = st @ rest @ [Native ''chunk_wrapper'' ((if length st = 3 then [nil] else []) @ [a, b])]"
proof (cases fname)
  case None
  with assms show ?thesis by (simp add: premake_luaL_loadfilex_def)
next
  case (Some f)
  let ?env = "\<not> 4 \<le> length st \<and> 3 \<le> length st"
  have env: "?env \<longleftrightarrow> length st = 3" by linarith
  show ?thesis
  proof (cases "peek f = CHR ''$''")
    case True
    then obtain z vs e1 where l: "premake_load_embedded_script p (drop 2 f) e = ((z, vs), e1)"
      and w: "wrap_chunk p f (length st) ?env z (st @ vs) e1 = (Inr (LUA_OK, st'), e')"
      using assms Some by (auto simp: premake_luaL_loadfilex_def Let_def split: if_splits prod.splits)
    from wrap_embedded_OK [OF l w] show ?thesis unfolding env by (metis append_Nil)
  next
    case False
    then obtain r e1 where r: "from_script_dir p f e = (Inr r, e1)"
      using assms Some by (auto simp: premake_luaL_loadfilex_def bind_run_def Let_def split: prod.splits sum.splits)
    define st1 where "st1 = (case r of None \<Rightarrow> st | Some (_, vs) \<Rightarrow> st @ vs)"
    obtain rest1 where rest1: "st1 = st @ rest1" by (cases r) (auto simp: st1_def)
    note go = assms [unfolded premake_luaL_loadfilex_def Some option.case Let_def if_not_P [OF False] bind_run_def r prod.case sum.case,
        folded st1_def]
    show ?thesis
    proof (cases "map_option fst r = Some LUA_OK")
      case True
      then obtain vs where vs: "r = Some (LUA_OK, vs)" by auto
      have "\<exists>a b. vs = [a, b]"
        using r vs load_embedded_OK [of p _ _ vs]
        by (auto simp: from_script_dir_def split: option.splits if_splits sum.splits prod.splits)
      then obtain a b where ab: "vs = [a, b]" by blast
      have "wrap_chunk p f (length st) ?env LUA_OK (st @ [a, b]) e1 = (Inr (LUA_OK, st'), e')"
        using go True by (simp add: st1_def vs ab)
      from wrap_chunk_OK [OF this] show ?thesis unfolding env by (metis append_Nil)
    next
      case no: False
      obtain z2 vs2 e2 where d: "from_disk p f mode (map_option fst r) e1 = (Inr (z2, vs2), e2)"
        using go no by (auto split: prod.splits sum.splits)
      show ?thesis
      proof (cases "z2 = Some LUA_OK")
        case True
        from from_disk_OK [OF d [unfolded True] no] obtain a b where ab: "vs2 = [a, b]" by blast
        have "wrap_chunk p f (length st) ?env LUA_OK (st1 @ [a, b]) e2 = (Inr (LUA_OK, st'), e')"
          using go no True d ab by simp
        from wrap_chunk_OK [OF this] show ?thesis unfolding env rest1 by (metis append_assoc)
      next
        case nd: False
        show ?thesis
        proof (cases "vs2 \<noteq> [] \<and> z2 \<noteq> Some LUA_ERRFILE")
          case True
          then have "the_default LUA_ERRFILE z2 = LUA_OK" using go no nd d by simp
          with nd show ?thesis by (cases z2) (auto simp: the_default_def)
        next
          case False
          obtain z3 vs3 e3 where l: "premake_load_embedded_script p f e2 = ((z3, vs3), e3)"
            by (cases "premake_load_embedded_script p f e2") auto
          have "wrap_chunk p f (length st) ?env z3 ((st1 @ vs2) @ vs3) e3 = (Inr (LUA_OK, st'), e')"
            using go no nd d l False by (auto split: if_splits)
          from wrap_embedded_OK [OF l this] show ?thesis unfolding env rest1 by (metis append_assoc)
        qed
      qed
    qed
  qed
qed

text \<open>A script that was loaded by \<open>loadfile\<close> with an explicit environment that is neither a table nor a
  string, like \<open>nil\<close>, crashes the process when it is called, whatever it is and wherever it came from:
  the wrapper takes the environment for the name of the script.\<close>

theorem loadfile_nil_env_crashes:
  assumes "premake_luaB_loadfile p [file, mode, env] e = (Inr [f], e1)"
    and "to_cstring env = None" and "\<And>t. env \<noteq> Table t"
  shows "fst (call_value p f args e2) = Inl OutOfBounds"
proof -
  obtain fname m status st where l: "premake_luaL_loadfilex p [file, mode, env] fname m e = (Inr (status, st), e1)"
    and f: "[f] = load_aux status (Some env) st"
    using assms(1) by (auto simp: premake_luaB_loadfile_def bind_run_def split: sum.splits prod.splits)
  have ok: "status = LUA_OK" using f by (auto simp: load_aux_def split: if_splits)
  from loadfilex_OK [OF l [unfolded ok]] obtain rest a b
    where "st = [file, mode, env] @ rest @ [Native ''chunk_wrapper'' [nil, a, b]]" by auto
  then have "f = Native ''chunk_wrapper'' [env, a, b]" using f ok by (simp add: load_aux_def set_first_upvalue_def)
  moreover have "(case env of Table _ \<Rightarrow> 1 | _ \<Rightarrow> 0) = (0::nat)"
  proof (cases env)
    case (Table t)
    with assms(3) [of t] show ?thesis by simp
  qed simp_all
  ultimately show ?thesis using assms(2) by (simp add: call_value_def chunk_wrapper_def upvalue_def Let_def)
qed

text \<open>In a release build a script on disk that runs an embedded script by its name gets an extra first
  result, the full name of the script, because the name that \<open>os.locate\<close> found stays on the stack; a
  debug build stops on its assertion.\<close>

theorem dofile_embedded_extra_result:
  assumes "is_cstring n" and "peek n \<noteq> CHR ''$''"
    and "\<And>d. to_cstring (lua_getglobal ''_SCRIPT_DIR'' e) = Some d \<Longrightarrow> peek d \<noteq> CHR ''$''"
    and "os_locate p [LStr n] e = Inr [LStr (''$/'' @ n)]"
    and "luaL_loadfilex p (''$/'' @ n) None (disk e) = LoadFailed LUA_ERRFILE msg"
    and "premake_find_embedded_script p n = Some chunk" and "luaL_loadbuffer p chunk n = Loaded text"
  shows "\<exists>f e1. disk e1 = disk e \<and>
    premake_luaB_dofile p [str n] e =
      (if ndebug (on p) then
         (case chunk_wrapper p [str (''$/'' @ n), f] [] e1 of
            (Inl x, e2) \<Rightarrow> (Inl x, e2)
          | (Inr rs, e2) \<Rightarrow> (Inr (str (''$/'' @ n) # rs), e2))
       else (Inl Aborted, e1))"
proof -
  have o: "opt_string [str n] 1 = Inr (Some n)" using assms(1) by (simp add: opt_string_def to_cstring_def to_string_def)
  have s: "from_script_dir p n e = (Inr None, e)"
    using assms(3) by (cases "to_cstring (lua_getglobal ''_SCRIPT_DIR'' e)") (simp_all add: from_script_dir_def)
  have cv: "c_view (''$/'' @ n) = ''$/'' @ n" using assms(1) by (intro c_view_cstring) simp
  have d: "from_disk p n None None e = (Inr (Some LUA_ERRFILE, [str (''$/'' @ n)]), e)"
    unfolding from_disk_def assms(4) sum.case list.case lval.case option.case cv assms(5) push_loaded_def load_result.case prod.case
    by simp
  obtain f e1 where l: "premake_load_embedded_script p n e = ((LUA_OK, [str (''$/'' @ n), f]), e1)" "disk e1 = disk e"
    using assms(6,7) by (auto simp: premake_load_embedded_script_def push_loaded_def new_function_def Let_def)
  have w: "premake_luaL_loadfilex p [str n] (Some n) None e =
      wrap_chunk p n 1 False LUA_OK [str n, str (''$/'' @ n), str (''$/'' @ n), f] e1"
    using assms(2) s d l(1) by (simp add: premake_luaL_loadfilex_def Let_def bind_run_def)
  show ?thesis
  proof (cases "ndebug (on p)")
    case True
    then have "premake_luaL_loadfilex p [str n] (Some n) None e =
        (Inr (LUA_OK, [str n, str (''$/'' @ n), Native ''chunk_wrapper'' [str (''$/'' @ n), f]]), e1)"
      unfolding w by (simp add: wrap_chunk_def)
    then have "premake_luaB_dofile p [str n] e =
        (case chunk_wrapper p [str (''$/'' @ n), f] [] e1 of
            (Inl x, e2) \<Rightarrow> (Inl x, e2)
          | (Inr rs, e2) \<Rightarrow> (Inr (str (''$/'' @ n) # rs), e2))"
      using o by (simp add: premake_luaB_dofile_def bind_run_def call_value_def split: prod.split sum.split)
    with True l(2) show ?thesis by auto
  next
    case False
    then have "premake_luaL_loadfilex p [str n] (Some n) None e = (Inl Aborted, e1)"
      unfolding w by (simp add: wrap_chunk_def)
    then have "premake_luaB_dofile p [str n] e = (Inl Aborted, e1)"
      using o by (simp add: premake_luaB_dofile_def bind_run_def)
    with False l(2) show ?thesis by auto
  qed
qed

text \<open>C36: A script that runs from the executable loads its siblings from the executable, whatever files
  there are: only the embedded scripts decide, and the file system is not touched.\<close>

theorem embedded_sibling_first:
  assumes "peek f \<noteq> CHR ''$''" and "to_cstring (lua_getglobal ''_SCRIPT_DIR'' e) = Some (CHR ''$'' # d)"
    and "getabsolute_in (on p) f (Some (CHR ''$'' # d)) (disk e) = Inr (''$/'' @ n)"
    and "premake_find_embedded_script p n = Some chunk" and "luaL_loadbuffer p chunk n = Loaded text"
  shows "\<exists>k e1. premake_luaL_loadfilex p st (Some f) mode e =
      (Inr (LUA_OK, st @ [Native ''chunk_wrapper'' ((if length st = 3 then [nil] else []) @ [str (''$/'' @ n), Function k])]), e1)
    \<and> closures e1 k = (text, Table GLOBALS) \<and> disk e1 = disk e \<and> slots e1 = slots e"
proof -
  obtain k e1 where l: "premake_load_embedded_script p n e = ((LUA_OK, [str (''$/'' @ n), Function k]), e1)"
    "closures e1 k = (text, Table GLOBALS)" "disk e1 = disk e" "slots e1 = slots e"
    using assms(4,5) by (auto simp: premake_load_embedded_script_def push_loaded_def new_function_def Let_def)
  have s: "from_script_dir p f e = (Inr (Some (LUA_OK, [str (''$/'' @ n), Function k])), e1)"
    using assms(2,3) l(1) by (simp add: from_script_dir_def)
  have env: "\<not> 4 \<le> length st \<and> 3 \<le> length st \<longleftrightarrow> length st = 3" by linarith
  have "premake_luaL_loadfilex p st (Some f) mode e =
      wrap_chunk p f (length st) (length st = 3) LUA_OK (st @ [str (''$/'' @ n), Function k]) e1"
    unfolding premake_luaL_loadfilex_def option.case Let_def if_not_P [OF assms(1)] bind_run_def s prod.case sum.case env by simp
  then show ?thesis using l(2-4) by (auto simp: wrap_chunk_def)
qed


section \<open>Samples of loading\<close>

lemma sample_loadfile:
  "premake_luaB_loadfile (sample_program Linux) [str ''$/base.lua'', nil, nil] sample_engine
   = (Inr [Native ''chunk_wrapper'' [nil, str ''$/base.lua'', Function 0]], snd (new_function ''base'' sample_engine))"
  by (simp add: premake_luaB_loadfile_def opt_string_def to_cstring_def to_string_def premake_luaL_loadfilex_def Let_def
      premake_load_embedded_script_def push_loaded_def new_function_def wrap_chunk_def load_aux_def set_first_upvalue_def bind_run_def)

theorem loadfile_nil_env_crashes_witness:
  "fst (call_value (sample_program Linux) (Native ''chunk_wrapper'' [nil, str ''$/base.lua'', Function 0]) [] sample_engine)
     = Inl OutOfBounds"
proof (rule loadfile_nil_env_crashes [OF sample_loadfile])
  show "to_cstring nil = None" by (simp add: to_cstring_def to_string_def)
qed simp

lemma sample_locate: "os_locate (sample_program Linux) [LStr ''base.lua''] sample_engine = Inr [LStr ''$/base.lua'']"
proof -
  have "is_cstring ''base.lua''" by simp
  from locate_names_Cons [OF this, of "sample_program Linux" "''.;/home''" "[]" sample_world] show ?thesis
    using sample_located sample_path by (simp add: os_locate_def lua_getfield_def del: locate_names.simps(2))
qed

theorem dofile_embedded_extra_result_witness:
  "\<exists>f e1. premake_luaB_dofile (sample_program Linux) [str ''base.lua''] sample_engine =
    (case chunk_wrapper (sample_program Linux) [str ''$/base.lua'', f] [] e1 of
       (Inl x, e2) \<Rightarrow> (Inl x, e2)
     | (Inr rs, e2) \<Rightarrow> (Inr (str ''$/base.lua'' # rs), e2))"
proof -
  have c: "is_cstring ''base.lua''" "peek ''base.lua'' \<noteq> CHR ''$''" by simp_all
  have d: "peek d \<noteq> CHR ''$''" if "to_cstring (lua_getglobal ''_SCRIPT_DIR'' sample_engine) = Some d" for d
    using that by (simp add: sample_engine_def Let_def lua_getglobal_def lua_setglobal_def GLOBALS_def to_cstring_def to_string_def)
  have l: "os_locate (sample_program Linux) [LStr ''base.lua''] sample_engine = Inr [LStr (''$/'' @ ''base.lua'')]"
    using sample_locate by simp
  have f: "luaL_loadfilex (sample_program Linux) (''$/'' @ ''base.lua'') None (disk sample_engine)
      = LoadFailed LUA_ERRFILE ''cannot open $/base.lua''" by simp
  have m: "premake_find_embedded_script (sample_program Linux) ''base.lua'' = Some ''base''"
    "luaL_loadbuffer (sample_program Linux) ''base'' ''base.lua'' = Loaded ''base''" by simp_all
  have r: "ndebug (on (sample_program Linux))" by simp
  from dofile_embedded_extra_result [OF c d l f m] show ?thesis unfolding if_P [OF r] append_Cons append_Nil by blast
qed

theorem embedded_sibling_first_witness:
  "\<exists>k e1. premake_luaL_loadfilex (sample_program Linux) [str ''base.lua''] (Some ''base.lua'') None
        (lua_setglobal ''_SCRIPT_DIR'' (str ''$/.'') sample_engine) =
      (Inr (LUA_OK, [str ''base.lua'', Native ''chunk_wrapper'' [str ''$/base.lua'', Function k]]), e1)"
proof -
  let ?e = "lua_setglobal ''_SCRIPT_DIR'' (str ''$/.'') sample_engine"
  have p: "peek ''base.lua'' \<noteq> CHR ''$''" by simp
  have d: "to_cstring (lua_getglobal ''_SCRIPT_DIR'' ?e) = Some (CHR ''$'' # ''/.'')" by (simp add: to_cstring_def to_string_def)
  have g: "getabsolute_in (on (sample_program Linux)) ''base.lua'' (Some (CHR ''$'' # ''/.'')) (disk ?e) = Inr (''$/'' @ ''base.lua'')"
  proof -
    have "\<not> do_isabsolute ''base.lua''" "do_translate ''$/./base.lua'' SLASH = ''$/./base.lua''"
      "strtok_all (\<lambda>c. c = SLASH) ''$/./base.lua'' = [''$'', ''.'', ''base.lua'']"
      by code_simp+
    then show ?thesis
      by (simp add: getabsolute_in_def do_getabsolute_def Let_def BUFSIZE_def remove_trailing_slash_def split: option.split)
  qed
  have m: "premake_find_embedded_script (sample_program Linux) ''base.lua'' = Some ''base''"
    "luaL_loadbuffer (sample_program Linux) ''base'' ''base.lua'' = Loaded ''base''" by simp_all
  from embedded_sibling_first [OF p d g m, of "[str ''base.lua'']" None] show ?thesis by auto
qed

section \<open>Running\<close>

definition passable :: "world \<Rightarrow> place \<Rightarrow> bool" where
  \<comment> \<open>a directory that can be reached and entered by its name\<close>
  "passable w p \<longleftrightarrow> (\<forall>c \<in> set p. file_name c) \<and>
     (\<forall>k \<le> length p. \<exists>m. lookup w (take k p) = Some (Directory m) \<and> may_search m)"

lemma passableD: "passable w p \<Longrightarrow> \<exists>m. lookup w p = Some (Directory m) \<and> may_search m"
  unfolding passable_def by (metis order_refl take_all)

lemma stat_passable:
  assumes "passable w p"
  shows "stat w (path_of p) = Inr p"
proof -
  have names: "\<forall>c \<in> set p. file_name c" and dirs: "\<And>k. k \<le> length p \<Longrightarrow> \<exists>m. lookup w (take k p) = Some (Directory m) \<and> may_search m"
    using assms by (auto simp: passable_def)
  have slash: "\<forall>c \<in> set p. SLASH \<notin> set c" using names by (auto simp: file_name_def)
  obtain m where m: "lookup w [] = Some (Directory m)" "may_search m" using dirs [of 0] by auto
  obtain n where here: "lookup w p = Some (Directory n)" using passableD [OF assms] by blast
  have "walks w True SYMLOOP_MAX [] p ([] @ p)"
    by (rule walks_plain) (use dirs names here in \<open>auto simp: is_link_iff\<close>)
  then have plain: "walks w True SYMLOOP_MAX [] p p" by simp
  have "walks w True SYMLOOP_MAX [] (comps (path_of p)) p"
  proof (cases "p = []")
    case True
    then have "comps (path_of p) = [[], []]" by (simp add: path_of_def)
    with True walks.stay [OF m _ walks.stay [OF m _ walks.here]] show ?thesis by simp
  next
    case False
    then have "comps (path_of p) = [] # p" using slash by (simp add: comps_path_of)
    with plain walks.stay [OF m, of "[]"] show ?thesis by simp
  qed
  then show ?thesis using here by (simp add: stat_def find_place_iff)
qed

lemma do_chdir_back:
  assumes "plat h \<noteq> Windows" and "passable w p"
  shows "do_chdir h (path_of p) w = (Inr True, w\<lparr>cwd := p\<rparr>)"
  using passableD [OF assms(2)] stat_passable [OF assms(2)] by (auto simp: do_chdir_posix [OF assms(1)])

lemma do_chdir_total:
  assumes "plat h \<noteq> Windows"
  obtains b w' where "do_chdir h d w = (Inr b, w')" "nodes w' = nodes w"
  using do_chdir_posix [OF assms, of d w] by (auto split: sum.splits option.splits node.splits if_splits)

text \<open>Entering the directory of a script: the two variables are set, and nothing but the working directory changes.\<close>

lemma enter_script_effect:
  assumes "plat h \<noteq> Windows"
  obtains e1 where "enter_script h (str name) dir e = (Inr (), e1)"
    "lua_getglobal ''_SCRIPT'' e1 = str name" "lua_getglobal ''_SCRIPT_DIR'' e1 = str dir"
    "\<forall>q. dir = path_of q \<and> passable (disk e) q \<longrightarrow> disk e1 = (disk e)\<lparr>cwd := q\<rparr>"
proof -
  let ?in = "lua_setglobal ''_SCRIPT_DIR'' (str dir) (lua_setglobal ''_SCRIPT'' (str name) e)"
  show thesis
  proof (cases "peek dir = CHR ''$''")
    case True
    moreover have "dir \<noteq> path_of q" for q
      using True path_of_rooted [of q] by (auto simp: is_rooted_def)
    ultimately show ?thesis by (intro that [of ?in]) (simp_all add: enter_script_def)
  next
    case False
    obtain b w' where c: "do_chdir h dir (disk e) = (Inr b, w')" by (rule do_chdir_total [OF assms(1)])
    have "w' = (disk e)\<lparr>cwd := q\<rparr>" if "dir = path_of q" "passable (disk e) q" for q
      using c do_chdir_back [OF assms(1) that(2)] that(1) by simp
    with False c show ?thesis by (intro that [of "?in\<lparr>disk := w'\<rparr>"]) (auto simp: enter_script_def bind_run_def on_disk_def)
  qed
qed

text \<open>C7: What a wrapped script sees and what is left of it, on POSIX systems, for any script. While it runs,
  \<open>_SCRIPT\<close> is its name, \<open>_SCRIPT_DIR\<close> its directory and, for a script on disk whose directory can be
  entered, that is the working directory. When it returns, its results are returned, the two globals
  are what they were, and the working directory is again the one from before if it is still there. An
  error leaves everything as the script had it.\<close>

theorem chunk_wrapper_scope:
  assumes "plat (on p) \<noteq> Windows" and "is_cstring name"
    and "length (path_of (cwd (disk e))) < path_max (on p)" and "lookup (disk e) (cwd (disk e)) \<noteq> None"
  shows "\<exists>e1. lua_getglobal ''_SCRIPT'' e1 = str name \<and> lua_getglobal ''_SCRIPT_DIR'' e1 = str (script_dir_of name)
    \<and> (\<forall>q. script_dir_of name = path_of q \<and> passable (disk e) q \<longrightarrow> disk e1 = (disk e)\<lparr>cwd := q\<rparr>)
    \<and> (\<forall>x e2. run_lua p (Function f) args e1 = (Inl x, e2) \<longrightarrow>
         chunk_wrapper p [str name, Function f] args e = (Inl x, e2))
    \<and> (\<forall>rs e2. run_lua p (Function f) args e1 = (Inr rs, e2) \<longrightarrow>
         (\<exists>e3. chunk_wrapper p [str name, Function f] args e = (Inr rs, e3)
           \<and> lua_getglobal ''_SCRIPT'' e3 = lua_getglobal ''_SCRIPT'' e
           \<and> lua_getglobal ''_SCRIPT_DIR'' e3 = lua_getglobal ''_SCRIPT_DIR'' e
           \<and> (passable (disk e2) (cwd (disk e)) \<longrightarrow> disk e3 = (disk e2)\<lparr>cwd := cwd (disk e)\<rparr>)))"
proof -
  let ?dir = "script_dir_of name" and ?here = "path_of (cwd (disk e))"
  have n: "to_cstring (str name) = Some name" using assms(2) by (simp add: to_cstring_def to_string_def)
  have here: "do_getcwd (on p) (path_max (on p)) (disk e) = Some ?here"
    using assms(1,3,4) by (simp add: do_getcwd_def sys_getcwd_def)
  obtain e1 where enter: "enter_script (on p) (str name) ?dir e = (Inr (), e1)"
    and g1: "lua_getglobal ''_SCRIPT'' e1 = str name" "lua_getglobal ''_SCRIPT_DIR'' e1 = str ?dir"
    and d1: "\<forall>q. ?dir = path_of q \<and> passable (disk e) q \<longrightarrow> disk e1 = (disk e)\<lparr>cwd := q\<rparr>"
    by (rule enter_script_effect [OF assms(1)])
  have run: "chunk_wrapper p [str name, Function f] args e =
      bind_run (run_lua p (Function f) args) (\<lambda>rs.
        bind_run (leave_script (on p) (Some ?here) (lua_getglobal ''_SCRIPT'' e) (lua_getglobal ''_SCRIPT_DIR'' e)) (\<lambda>_ e4.
          (Inr rs, e4))) e1"
    using n here enter by (simp add: chunk_wrapper_def upvalue_def Let_def bind_run_def)
  have "\<exists>e3. chunk_wrapper p [str name, Function f] args e = (Inr rs, e3)
           \<and> lua_getglobal ''_SCRIPT'' e3 = lua_getglobal ''_SCRIPT'' e
           \<and> lua_getglobal ''_SCRIPT_DIR'' e3 = lua_getglobal ''_SCRIPT_DIR'' e
           \<and> (passable (disk e2) (cwd (disk e)) \<longrightarrow> disk e3 = (disk e2)\<lparr>cwd := cwd (disk e)\<rparr>)"
    if r: "run_lua p (Function f) args e1 = (Inr rs, e2)" for rs e2
  proof -
    obtain b w' where c: "do_chdir (on p) ?here (disk e2) = (Inr b, w')" by (rule do_chdir_total [OF assms(1)])
    have "w' = (disk e2)\<lparr>cwd := cwd (disk e)\<rparr>" if "passable (disk e2) (cwd (disk e))"
      using c do_chdir_back [OF assms(1) that] by simp
    then show ?thesis by (simp add: run bind_run_def r leave_script_def on_disk_def c)
  qed
  moreover have "chunk_wrapper p [str name, Function f] args e = (Inl x, e2)"
    if "run_lua p (Function f) args e1 = (Inl x, e2)" for x e2
    by (simp add: run bind_run_def that)
  ultimately show ?thesis using g1 d1 by (intro exI [of _ e1]) blast
qed

theorem chunk_wrapper_scope_witness:
  "\<exists>e3. chunk_wrapper (sample_program Linux) [str ''/home/x.lua'', Function 0] [] sample_engine = (Inr [], e3)
    \<and> lua_getglobal ''_SCRIPT'' e3 = lua_getglobal ''_SCRIPT'' sample_engine"
proof -
  have w: "plat (on (sample_program Linux)) \<noteq> Windows" "is_cstring ''/home/x.lua''" by simp_all
  have l: "length (path_of (cwd (disk sample_engine))) < path_max (on (sample_program Linux))"
    by (simp add: path_of_def sample_world_def)
  have d: "lookup (disk sample_engine) (cwd (disk sample_engine)) \<noteq> None"
    using wf_sample(2) by (simp add: cwd_ok_def)
  from chunk_wrapper_scope [OF w l d, of 0 "[]"] show ?thesis by auto
qed

section \<open>Finding modules\<close>

lemma templates_step:
  "pushnexttemplate path =
     (case strtok_all (\<lambda>c. c = CHR '';'') path of
        [] \<Rightarrow> None
      | t # ts \<Rightarrow> Some (t, dropWhile (\<lambda>c. c \<noteq> CHR '';'') (dropWhile (\<lambda>c. c = CHR '';'') path)))"
proof (cases "dropWhile (\<lambda>c. c = CHR '';'') path")
  case Nil
  then show ?thesis unfolding pushnexttemplate_def by (simp only: strtok_all_empty list.case)
next
  case (Cons c s)
  then show ?thesis unfolding pushnexttemplate_def by (simp only: strtok_all_step [OF Cons] list.case)
qed

lemma readable_posix: "plat h \<noteq> Windows \<Longrightarrow> \<not> fst (readable h f w) \<Longrightarrow> readable h f w = (False, w)"
  by (auto simp: readable_def fopen_rb_def open_stream_def split: sum.splits option.splits if_splits)

text \<open>The search for a module on POSIX systems: the templates are tried in order, each with the name in
  the place of its question marks, and the first file that can be read is the result; if there is none,
  the message lists every file that was tried, and nothing was touched.\<close>

theorem search_templates_first:
  assumes "plat h \<noteq> Windows"
  shows "search_templates h name path msg w =
    (let files = map (gsub_char (CHR ''?'') name) (strtok_all (\<lambda>c. c = CHR '';'') path) in
     case find (\<lambda>f. fst (readable h f w)) files of
       Some f \<Rightarrow> (Inr f, snd (readable h f w))
     | None \<Rightarrow> (Inl (msg @ concat (map (\<lambda>f. [CHR 0x0A, CHR 0x09] @ ''no file '' @ quoted f) files)), w))"
proof (induction "length path" arbitrary: path msg rule: less_induct)
  case less
  let ?tok = "strtok_all (\<lambda>c. c = CHR '';'')"
  show ?case
  proof (cases "dropWhile (\<lambda>c. c = CHR '';'') path")
    case Nil
    then have "?tok path = []" by (rule strtok_all_empty)
    then show ?thesis by (subst search_templates.simps) (simp add: templates_step)
  next
    case (Cons c s)
    let ?t = "takeWhile (\<lambda>c. c \<noteq> CHR '';'') (c # s)" and ?l = "dropWhile (\<lambda>c. c \<noteq> CHR '';'') (c # s)"
    have tok: "?tok path = ?t # ?tok ?l" by (rule strtok_all_step [OF Cons])
    have nxt: "pushnexttemplate path = Some (?t, ?l)" by (simp only: templates_step tok list.case Cons)
    from less [OF pushnexttemplate_less [OF nxt]] have IH: "search_templates h name ?l m w =
      (let files = map (gsub_char (CHR ''?'') name) (?tok ?l) in
       case find (\<lambda>f. fst (readable h f w)) files of
         Some f \<Rightarrow> (Inr f, snd (readable h f w))
       | None \<Rightarrow> (Inl (m @ concat (map (\<lambda>f. [CHR 0x0A, CHR 0x09] @ ''no file '' @ quoted f) files)), w))" for m .
    let ?f = "gsub_char (CHR ''?'') name ?t"
    have step: "search_templates h name path msg w =
        (case readable h ?f w of
           (True, w1) \<Rightarrow> (Inr ?f, w1)
         | (False, w1) \<Rightarrow> search_templates h name ?l (msg @ [CHR 0x0A, CHR 0x09] @ ''no file '' @ quoted ?f) w1)"
      by (subst search_templates.simps) (simp only: nxt option.case prod.case Let_def)
    show ?thesis
    proof (cases "readable h ?f w")
      case (Pair b w1)
      show ?thesis
      proof (cases b)
        case True
        then show ?thesis unfolding step tok by (simp add: Pair Let_def del: takeWhile.simps)
      next
        case False
        with readable_posix [OF assms, of ?f w] Pair have r: "readable h ?f w = (False, w)" by simp
        show ?thesis unfolding step tok r prod.case bool.case IH
          by (simp add: r Let_def del: takeWhile.simps split: option.split)
      qed
    qed
  qed
qed


theorem search_templates_first_witness:
  "fst (search_templates (sample_host Linux) ''a'' ''/home/?.lua;/home/?.txt'' '''' sample_world) = Inr ''/home/a.txt''"
proof -
  have t: "map (gsub_char (CHR ''?'') ''a'') (strtok_all (\<lambda>c. c = CHR '';'') ''/home/?.lua;/home/?.txt'') = [''/home/a.lua'', ''/home/a.txt'']"
    by code_simp
  have s: "stat sample_world ''/home/a.lua'' = Inl ENOENT" "stat sample_world ''/home/a.txt'' = Inr [''home'', ''a.txt'']"
    by (simp_all add: stat_def existing_def find_place_def is_rooted_def walk.simps lookup_sample)
  have r: "\<not> fst (readable (sample_host Linux) ''/home/a.lua'' sample_world)"
    "fst (readable (sample_host Linux) ''/home/a.txt'' sample_world)"
    by (simp_all add: readable_def fopen_rb_def s lookup_sample open_stream_def)
  have w: "plat (sample_host Linux) \<noteq> Windows" by simp
  from search_templates_first [OF w, where name = "''a''" and path = "''/home/?.lua;/home/?.txt''" and msg = "''''" and w = sample_world]
  show ?thesis using r unfolding t by simp
qed

end
