(* ===== verification/Startup.thy ===== *)
theory Startup
  imports Script_Loader
begin

text \<open>
  \<open>src/host/premake.c\<close> and \<open>src/host/premake_main.c\<close>: the tables of built-in functions and their
  registration, the initialisation of the Lua state, the arguments, and the run of the main script up
  to the exit code. The state that \<open>luaL_newstate\<close> and \<open>luaL_openlibs\<close> make is a parameter.
\<close>

section \<open>The built-in functions\<close>

type_synonym luaL_Reg = "string \<times> string"

definition criteria_functions :: "luaL_Reg list" where
  "criteria_functions = [(''_compile'', ''criteria_compile''), (''_delete'', ''criteria_delete''), (''matches'', ''criteria_matches'')]"

definition debug_functions :: "luaL_Reg list" where
  "debug_functions = [(''prompt'', ''debug_prompt'')]"

definition path_functions :: "luaL_Reg list" where
  "path_functions =
     [(''getabsolute'', ''path_getabsolute''), (''getrelative'', ''path_getrelative''), (''isabsolute'', ''path_isabsolute''),
      (''join'', ''path_join''), (''deferredjoin'', ''path_deferred_join''), (''hasdeferredjoin'', ''path_has_deferred_join''),
      (''resolvedeferredjoin'', ''path_resolve_deferred_join''), (''normalize'', ''path_normalize''),
      (''translate'', ''path_translate''), (''wildcards'', ''path_wildcards'')]"

definition os_functions :: "host \<Rightarrow> luaL_Reg list" where
  "os_functions h =
     [(''chdir'', ''os_chdir''), (''chmod'', ''os_chmod''), (''comparefiles'', ''os_comparefiles''), (''copyfile'', ''os_copyfile''),
      (''_is64bit'', ''os_is64bit''), (''isdir'', ''os_isdir''), (''getcwd'', ''os_getcwd''), (''getnumcpus'', ''os_getnumcpus''),
      (''getpass'', ''os_getpass''), (''getWindowsRegistry'', ''os_getWindowsRegistry''),
      (''listWindowsRegistry'', ''os_listWindowsRegistry''), (''getversion'', ''os_getversion''), (''host'', ''os_host''),
      (''hostarch'', ''os_hostarch''), (''isfile'', ''os_isfile''), (''islink'', ''os_islink''), (''linkdir'', ''os_linkdir''),
      (''linkfile'', ''os_linkfile''), (''locate'', ''os_locate''), (''matchdone'', ''os_matchdone''),
      (''matchisfile'', ''os_matchisfile''), (''matchname'', ''os_matchname''), (''matchnext'', ''os_matchnext''),
      (''matchstart'', ''os_matchstart''), (''mkdir'', ''os_mkdir'')]
     @ (if windows h then [(''remove'', ''os_remove''), (''rename'', ''os_rename'')] else [])
     @ [(''pathsearch'', ''os_pathsearch''), (''realpath'', ''os_realpath''), (''rmdir'', ''os_rmdir''), (''stat'', ''os_stat''),
        (''uuid'', ''os_uuid''), (''writefile_ifnotequal'', ''os_writefile_ifnotequal''), (''touchfile'', ''os_touchfile'')]
     @ (if static_lua h then [(''compile'', ''os_compile'')] else [])"

definition premake_functions :: "luaL_Reg list" where
  "premake_functions = [(''getEmbeddedResource'', ''premake_getEmbeddedResource'')]"

definition string_functions :: "luaL_Reg list" where
  "string_functions =
     [(''endswith'', ''string_endswith''), (''hash'', ''string_hash''), (''sha1'', ''string_sha1''), (''startswith'', ''string_startswith'')]"

definition buffered_functions :: "luaL_Reg list" where
  "buffered_functions =
     [(''new'', ''buffered_new''), (''write'', ''buffered_write''), (''writeln'', ''buffered_writeln''),
      (''tostring'', ''buffered_tostring''), (''close'', ''buffered_close'')]"

definition term_functions :: "luaL_Reg list" where
  "term_functions = [(''getTextColor'', ''term_getTextColor''), (''setTextColor'', ''term_setTextColor'')]"

definition http_functions :: "luaL_Reg list" where
  "http_functions = [(''get'', ''http_get''), (''post'', ''http_post''), (''download'', ''http_download'')]"

definition zip_functions :: "luaL_Reg list" where
  "zip_functions = [(''extract'', ''zip_extract''), (''list'', ''zip_list'')]"

definition libraries :: "program \<Rightarrow> (string \<times> luaL_Reg list) list" where
  "libraries p =
     [(''premake'', premake_functions), (''criteria'', criteria_functions), (''debug'', debug_functions),
      (''path'', path_functions), (''os'', os_functions (on p)), (''string'', string_functions),
      (''buffered'', buffered_functions), (''term'', term_functions)]
     @ (if curl p then [(''http'', http_functions)] else [])
     @ (if compression p then [(''zip'', zip_functions)] else [])"

section \<open>Registration\<close>

definition luaL_getsubtable :: "nat \<Rightarrow> string \<Rightarrow> engine \<Rightarrow> nat \<times> engine" where
  "luaL_getsubtable t k e =
     (case slots e t (LStr k) of
        Table u \<Rightarrow> (u, e)
      | _ \<Rightarrow> (case new_table e of (u, e1) \<Rightarrow> (u, set_field t (LStr k) (Table u) e1)))"

definition lua_getorcreate_table :: "string \<Rightarrow> engine \<Rightarrow> nat \<times> engine" where
  "lua_getorcreate_table modname e =
     (case luaL_getsubtable REGISTRY ''_LOADED'' e of
        (loaded, e1) \<Rightarrow>
          (case slots e1 loaded (LStr modname) of
             Table t \<Rightarrow> (t, e1)
           | _ \<Rightarrow>
               (case new_table e1 of
                  (t, e2) \<Rightarrow>
                    (t, set_field loaded (LStr modname) (Table t) (set_field GLOBALS (LStr modname) (Table t) e2)))))"

definition luaL_setfuncs :: "luaL_Reg list \<Rightarrow> nat \<Rightarrow> engine \<Rightarrow> engine" where
  "luaL_setfuncs l t e = fold (\<lambda>(name, f). set_field t (LStr name) (Native f [])) l e"

definition luaL_register :: "string \<Rightarrow> luaL_Reg list \<Rightarrow> engine \<Rightarrow> engine" where
  "luaL_register libname l e =
     (case lua_getorcreate_table libname e of (t, e1) \<Rightarrow> luaL_setfuncs l t e1)"

definition register_libraries :: "program \<Rightarrow> engine \<Rightarrow> engine" where
  "register_libraries p e = fold (\<lambda>(lib, l). luaL_register lib l) (libraries p) e"

section \<open>Initialisation\<close>

definition PREMAKE_COPYRIGHT :: string where
  "PREMAKE_COPYRIGHT = ''Copyright (C) 2002-2026 Jess Perkins and the Premake Project''"

definition PREMAKE_PROJECT_URL :: string where
  "PREMAKE_PROJECT_URL = ''https://github.com/premake/premake-core/wiki''"

definition replace_lua_functions :: "unit run" where
  "replace_lua_functions e =
     (let e1 = lua_setglobal ''dofile'' (Native ''premake_luaB_dofile'' [])
                 (lua_setglobal ''loadfile'' (Native ''premake_luaB_loadfile'' []) e);
          package = lua_getglobal ''package'' e1 in
      case bind_f (lua_getfield package ''searchers'' e1) (\<lambda>s. case s of Table t \<Rightarrow> Inr t
             | _ \<Rightarrow> Inl (LuaError ''attempt to index a value'')) of
        Inl x \<Rightarrow> (Inl x, e1)
      | Inr searchers \<Rightarrow> (Inr (), set_field searchers (LInt 2) (Native ''premake_searcher_Lua'' [package]) e1))"

definition publish_metadata :: "program \<Rightarrow> engine \<Rightarrow> engine" where
  "publish_metadata p e =
     (let e1 = (if static_lua (on p) then set_field REGISTRY (LInt 0x5348494D) (Base (LUser 0)) e else e);
          e2 = lua_setglobal ''_PREMAKE_URL'' (str PREMAKE_PROJECT_URL)
              (lua_setglobal ''_PREMAKE_COPYRIGHT'' (str PREMAKE_COPYRIGHT)
              (lua_setglobal ''_PREMAKE_VERSION'' (str (PREMAKE_VERSION p))
              (lua_setglobal ''_COPYRIGHT'' (str (LUA_COPYRIGHT p)) e1)));
          e3 = (if \<not> windows (on p) \<or> static_lua (on p) then lua_setglobal ''_UTF8_ENABLED'' (Base (LBool True)) e2 else e2) in
      if plat (on p) = Cosmo then lua_setglobal ''_COSMOPOLITAN'' (Base (LBool True)) e3 else e3)"

definition premake_init :: "program \<Rightarrow> unit run" where
  "premake_init p =
     bind_run replace_lua_functions (\<lambda>_ e0.
       let e1 = publish_metadata p (register_libraries p e0) in
       bind_run (set_home_dir (on p)) (\<lambda>_ e2.
         case fst (os_getcwd (on p) (disk e2)) of
           Inr (d # _) \<Rightarrow>
             (let e3 = lua_setglobal ''_WORKING_DIR'' (Base d) e2 in
              (Inr (), if builtin (on p) then registerModules p e3 else e3))
         | Inr [] \<Rightarrow> (Inl OutOfBounds, e2) \<comment> \<open>nothing is on the stack\<close>
         | Inl x \<Rightarrow> (Inl x, e2)) e1)"

section \<open>Protected calls\<close>

definition raised :: "fault \<Rightarrow> val" where
  \<comment> \<open>the error object; the text of an argument error is not modelled\<close>
  "raised x = str (case x of LuaError msg \<Rightarrow> msg | BadArgument n \<Rightarrow> ''bad argument #'' @ show_nat n | _ \<Rightarrow> '''')"

definition lua_error_handler :: "program \<Rightarrow> val \<Rightarrow> engine \<Rightarrow> val" where
  "lua_error_handler p v e = (if ndebug (on p) then v else traceback p v 3 e)"

definition premake_pcall :: "program \<Rightarrow> val \<Rightarrow> val list \<Rightarrow> (val + val list) run" where
  \<comment> \<open>the error object of a failure\<close>
  "premake_pcall p f args e =
     (case call_value p f args e of
        (Inr rs, e1) \<Rightarrow> (Inr (Inr rs), e1)
      | (Inl x, e1) \<Rightarrow> if catchable x then (Inr (Inl (lua_error_handler p (raised x) e1)), e1) else (Inl x, e1))"

section \<open>The run\<close>

definition set_executable :: "program \<Rightarrow> targ \<Rightarrow> unit run" where
  "set_executable p argv0 e =
     (case bind_f (premake_locate_executable p argv0 (disk e)) (\<lambda>path. getabsolute_in (on p) (c_view path) None (disk e)) of
        Inl x \<Rightarrow> (Inl x, e)
      | Inr s \<Rightarrow> (Inr (), lua_setglobal ''_PREMAKE_COMMAND'' (str s) e))"

definition scripts_argument :: "cstring \<Rightarrow> cstring option" where
  "scripts_argument parg =
     (if strncmp_eq parg ''/scripts='' 9 then Some (drop 9 parg)
      else if strncmp_eq parg ''--scripts='' 10 then Some (drop 10 parg)
      else None)"

fun copy_arguments :: "program \<Rightarrow> nat \<Rightarrow> nat \<Rightarrow> targ list \<Rightarrow> unit run" where
  "copy_arguments p t i [] e = (Inr (), e)"
| "copy_arguments p t i (a # as) e =
     (let parg = the_default ''<conversion error>'' (arg_text (on p) a);
          e1 = set_field t (LInt (int i)) (str parg) e in
      case scripts_argument (c_view parg) of
        None \<Rightarrow> copy_arguments p t (Suc i) as e1
      | Some dir \<Rightarrow> bind_run (set_scripts_path (on p) dir) (\<lambda>_. copy_arguments p t (Suc i) as) e1)"

definition process_arguments :: "program \<Rightarrow> targ list \<Rightarrow> unit run" where
  \<comment> \<open>of the arguments behind the name of the program\<close>
  "process_arguments p argv e =
     (case new_table e of
        (t, e1) \<Rightarrow> bind_run (copy_arguments p t 1 argv) (\<lambda>_ e2. (Inr (), lua_setglobal ''_ARGV'' (Table t) e2)) e1)"

definition find_main :: "program \<Rightarrow> cstring \<Rightarrow> engine \<Rightarrow> fault + cstring option" where
  "find_main p script e =
     (if ndebug (on p) then
        or_else (premake_locate_file p script (SEARCH_SCRIPTS OR SEARCH_EMBEDDED) e)
          (premake_locate_file p script (SEARCH_LOCAL OR SEARCH_PATH) e)
      else premake_locate_file p script (SEARCH_LOCAL OR SEARCH_SCRIPTS OR SEARCH_PATH OR SEARCH_EMBEDDED) e)"

definition run_premake_main :: "program \<Rightarrow> cstring \<Rightarrow> (val option) run" where
  \<comment> \<open>the value on top of the stack after a failure; the stack is empty when nothing was found\<close>
  "run_premake_main p script e =
     (case find_main p script e of
        Inl x \<Rightarrow> (Inl x, e)
      | Inr None \<Rightarrow> (Inr (Some nil), e)
      | Inr (Some filename) \<Rightarrow>
          bind_run (premake_luaL_loadfilex p [str filename] (Some filename) None) (\<lambda>(status, st) e1.
            if status \<noteq> LUA_OK then (Inr (Some (last st)), e1)
            else
              (case call_value p (last st) [] e1 of
                 (Inr _, e2) \<Rightarrow> (Inr None, e2)
               | (Inl x, e2) \<Rightarrow> if catchable x then (Inr (Some (raised x)), e2) else (Inl x, e2))) e)"

definition lua_tonumber_int :: "val \<Rightarrow> fault + int" where
  \<comment> \<open>\<open>(int)lua_tonumber\<close>, of integral numbers; undefined when it does not fit\<close>
  "lua_tonumber_int v =
     (let i = (case v of Base b \<Rightarrow> the_default 0 (lua_tointeger b) | _ \<Rightarrow> 0) in
      if - (2 ^ 31) \<le> i \<and> i < 2 ^ 31 then Inr i else Inl Uninitialised)"

definition report_failure :: "program \<Rightarrow> val \<Rightarrow> int run" where
  "report_failure p err = bind_run (premake_handle_lua_error p err) (\<lambda>_ e. (Inr 1, e))"

definition run_entry_point :: "program \<Rightarrow> int run" where
  "run_entry_point p e =
     bind_run (premake_pcall p (lua_getglobal ''_premake_main'' e) []) (\<lambda>r e1.
       case r of
         Inl err \<Rightarrow> report_failure p err e1
       | Inr rs \<Rightarrow> (lua_tonumber_int (if rs = [] then nil else hd rs), e1)) e"

definition premake_execute :: "program \<Rightarrow> targ list \<Rightarrow> cstring \<Rightarrow> int run" where
  "premake_execute p argv script e =
     (case argv of
        [] \<Rightarrow> (Inl OutOfBounds, e)
      | argv0 # as \<Rightarrow>
          bind_run (set_executable p argv0) (\<lambda>_.
          bind_run (process_arguments p as) (\<lambda>_.
          bind_run (build_premake_path (on p)) (\<lambda>_.
          bind_run (run_premake_main p script) (\<lambda>failure.
            case failure of
              Some err \<Rightarrow> report_failure p err
            | None \<Rightarrow> run_entry_point p)))) e)"

definition premake_main :: "program \<Rightarrow> targ list \<Rightarrow> int run" where
  \<comment> \<open>\<open>main\<close>, from the state that the standard libraries are opened in\<close>
  "premake_main p argv =
     bind_run (premake_init p) (\<lambda>_. premake_execute p argv ''src/_premake_main.lua'')"

section \<open>What is registered\<close>

lemma setfuncs_other:
  "u \<noteq> t \<or> k \<notin> LStr ` fst ` set l \<Longrightarrow> slots (luaL_setfuncs l t e) u k = slots e u k"
proof (induction l arbitrary: e)
  case (Cons x l)
  then show ?case by (cases x) (auto simp: luaL_setfuncs_def)
qed (simp add: luaL_setfuncs_def)

lemma setfuncs_in:
  "distinct (map fst l) \<Longrightarrow> (n, f) \<in> set l \<Longrightarrow> slots (luaL_setfuncs l t e) t (LStr n) = Native f []"
proof (induction l arbitrary: e)
  case (Cons x l)
  obtain m g where x: "x = (m, g)" by (cases x) auto
  have step: "luaL_setfuncs (x # l) t e = luaL_setfuncs l t (set_field t (LStr m) (Native g []) e)"
    by (simp add: luaL_setfuncs_def x)
  show ?case
  proof (cases "(n, f) \<in> set l")
    case True
    with Cons show ?thesis by (simp add: step)
  next
    case False
    then have nf: "n = m" "f = g" "n \<notin> fst ` set l" using Cons.prems x by auto
    then have "LStr n \<notin> LStr ` fst ` set l" by auto
    with nf show ?thesis by (simp add: step setfuncs_other)
  qed
qed simp

lemma setfuncs_next [simp]: "next_table (luaL_setfuncs l t e) = next_table e"
proof (induction l arbitrary: e)
  case (Cons x l)
  then show ?case by (cases x) (simp add: luaL_setfuncs_def)
qed (simp add: luaL_setfuncs_def)

text \<open>The libraries that are open: each has one table of its own, which is both a global and loaded.\<close>

definition libraries_open :: "nat \<Rightarrow> engine \<Rightarrow> bool" where
  "libraries_open L e \<longleftrightarrow>
     slots e REGISTRY (LStr ''_LOADED'') = Table L \<and> L \<noteq> REGISTRY \<and> L \<noteq> GLOBALS \<and> L < next_table e \<and> GLOBALS < next_table e
     \<and> (\<forall>n t. n \<noteq> ''_G'' \<longrightarrow> slots e L (LStr n) = Table t \<longrightarrow>
          t < next_table e \<and> t \<noteq> REGISTRY \<and> t \<noteq> GLOBALS \<and> t \<noteq> L \<and> slots e GLOBALS (LStr n) = Table t)
     \<and> (\<forall>n m t. n \<noteq> ''_G'' \<longrightarrow> m \<noteq> ''_G'' \<longrightarrow> slots e L (LStr n) = Table t \<longrightarrow> slots e L (LStr m) = Table t \<longrightarrow> n = m)"

lemma libraries_openD:
  assumes "libraries_open L e"
  shows "slots e REGISTRY (LStr ''_LOADED'') = Table L" and "L \<noteq> REGISTRY" and "L \<noteq> GLOBALS" and "L < next_table e"
    and "GLOBALS < next_table e"
    and "n \<noteq> ''_G'' \<Longrightarrow> slots e L (LStr n) = Table t \<Longrightarrow>
      t < next_table e \<and> t \<noteq> REGISTRY \<and> t \<noteq> GLOBALS \<and> t \<noteq> L \<and> slots e GLOBALS (LStr n) = Table t"
    and "n \<noteq> ''_G'' \<Longrightarrow> m \<noteq> ''_G'' \<Longrightarrow> slots e L (LStr n) = Table t \<Longrightarrow> slots e L (LStr m) = Table t \<Longrightarrow> n = m"
  using assms unfolding libraries_open_def by blast+

definition library_of :: "nat \<Rightarrow> string \<Rightarrow> engine \<Rightarrow> nat option" where
  "library_of L n e = (case slots e L (LStr n) of Table t \<Rightarrow> Some t | _ \<Rightarrow> None)"

lemma library_of_Some [simp]: "library_of L n e = Some t \<longleftrightarrow> slots e L (LStr n) = Table t"
  by (simp add: library_of_def split: val.split)

lemma getorcreate:
  assumes "libraries_open L e" and "lib \<noteq> ''_G''"
  obtains t e1 where "lua_getorcreate_table lib e = (t, e1)" "libraries_open L e1" "slots e1 L (LStr lib) = Table t"
    "\<And>n. n \<noteq> lib \<Longrightarrow> slots e1 L (LStr n) = slots e L (LStr n) \<and> slots e1 GLOBALS (LStr n) = slots e GLOBALS (LStr n)"
    "\<And>u. u < next_table e \<Longrightarrow> u \<noteq> L \<Longrightarrow> u \<noteq> GLOBALS \<Longrightarrow> slots e1 u = slots e u"
    "library_of L lib e = Some t \<or> library_of L lib e = None \<and> slots e1 t = (\<lambda>_. nil)"
proof -
  note L = libraries_openD(1-5) [OF assms(1)]
  note libs = libraries_openD(6) [OF assms(1)] and inj = libraries_openD(7) [OF assms(1)]
  show ?thesis
  proof (cases "library_of L lib e")
    case (Some t)
    then have "lua_getorcreate_table lib e = (t, e)"
      using L(1) by (simp add: lua_getorcreate_table_def luaL_getsubtable_def)
    then show ?thesis using Some assms(1) by (intro that [of t e]) auto
  next
    case None
    let ?t = "next_table e"
    let ?e = "set_field L (LStr lib) (Table ?t) (set_field GLOBALS (LStr lib) (Table ?t)
        (e\<lparr>slots := (slots e)(?t := (\<lambda>_. nil)), next_table := Suc ?t\<rparr>))"
    have run: "lua_getorcreate_table lib e = (?t, ?e)"
      using L(1) None by (auto simp: lua_getorcreate_table_def luaL_getsubtable_def new_table_def library_of_def split: val.splits)
    have nx: "REGISTRY < ?t" using L(5) by (simp add: REGISTRY_def GLOBALS_def)
    have new: "slots ?e u k = (if u = L \<and> k = LStr lib \<or> u = GLOBALS \<and> k = LStr lib then Table ?t
        else if u = ?t then nil else slots e u k)" for u k
      using L by (auto simp: fun_eq_iff)
    have "libraries_open L ?e"
      unfolding libraries_open_def
    proof (intro conjI allI impI)
      show "slots ?e REGISTRY (LStr ''_LOADED'') = Table L"
        using L(1-3) nx by (simp add: new REGISTRY_def GLOBALS_def)
      fix n t assume n: "n \<noteq> ''_G''" and t: "slots ?e L (LStr n) = Table t"
      have "n = lib \<and> t = ?t \<or> n \<noteq> lib \<and> slots e L (LStr n) = Table t" using t L(4) by (auto simp: new split: if_splits)
      then show "t < next_table ?e" "t \<noteq> REGISTRY" "t \<noteq> GLOBALS" "t \<noteq> L" "slots ?e GLOBALS (LStr n) = Table t"
        using libs [OF n] L(3-5) nx by (auto simp: new)
    next
      fix n m t assume n: "n \<noteq> ''_G''" "m \<noteq> ''_G''" and t: "slots ?e L (LStr n) = Table t" "slots ?e L (LStr m) = Table t"
      have "x = lib \<and> t = ?t \<or> x \<noteq> lib \<and> slots e L (LStr x) = Table t" if "slots ?e L (LStr x) = Table t" for x
        using that L(4) by (auto simp: new split: if_splits)
      from this [OF t(1)] this [OF t(2)] show "n = m" using inj [OF n] libs n by blast
    qed (use L in auto)
    moreover have "slots ?e u = slots e u" if "u < ?t" "u \<noteq> L" "u \<noteq> GLOBALS" for u
      using that by (auto simp: new fun_eq_iff)
    moreover have "slots ?e L (LStr n) = slots e L (LStr n) \<and> slots ?e GLOBALS (LStr n) = slots e GLOBALS (LStr n)" if "n \<noteq> lib" for n
      using that L(4,5) by (simp add: new)
    moreover have "slots ?e ?t = (\<lambda>_. nil)" using L(4,5) by (auto simp: new fun_eq_iff)
    moreover have "slots ?e L (LStr lib) = Table ?t" by simp
    ultimately show ?thesis using run None by (intro that [of ?t ?e]) auto
  qed
qed

lemma register:
  assumes "libraries_open L e" and "lib \<noteq> ''_G''" and "distinct (map fst l)"
  obtains t where "libraries_open L (luaL_register lib l e)" "slots (luaL_register lib l e) L (LStr lib) = Table t"
    "\<And>n f. (n, f) \<in> set l \<Longrightarrow> slots (luaL_register lib l e) t (LStr n) = Native f []"
    "\<And>n. n \<notin> fst ` set l \<Longrightarrow> library_of L lib e = Some t \<Longrightarrow> slots (luaL_register lib l e) t (LStr n) = slots e t (LStr n)"
    "\<And>n. n \<noteq> lib \<Longrightarrow> n \<noteq> ''_G'' \<Longrightarrow> library_of L n (luaL_register lib l e) = library_of L n e"
    "\<And>n u. n \<noteq> lib \<Longrightarrow> n \<noteq> ''_G'' \<Longrightarrow> library_of L n e = Some u \<Longrightarrow> slots (luaL_register lib l e) u = slots e u"
    "library_of L lib e = None \<or> library_of L lib e = Some t"
proof -
  obtain t e1 where g: "lua_getorcreate_table lib e = (t, e1)" "libraries_open L e1" "slots e1 L (LStr lib) = Table t"
    and other: "\<And>n. n \<noteq> lib \<Longrightarrow> slots e1 L (LStr n) = slots e L (LStr n) \<and> slots e1 GLOBALS (LStr n) = slots e GLOBALS (LStr n)"
    and keep: "\<And>u. u < next_table e \<Longrightarrow> u \<noteq> L \<Longrightarrow> u \<noteq> GLOBALS \<Longrightarrow> slots e1 u = slots e u"
    and new: "library_of L lib e = Some t \<or> library_of L lib e = None \<and> slots e1 t = (\<lambda>_. nil)"
    using getorcreate [OF assms(1,2)] by blast
  let ?e = "luaL_setfuncs l t e1"
  have run: "luaL_register lib l e = ?e" using g(1) by (simp add: luaL_register_def)
  note L = libraries_openD(1-5) [OF g(2)]
  note libs = libraries_openD(6) [OF g(2)] and inj = libraries_openD(7) [OF g(2)]
  have t: "t \<noteq> REGISTRY" "t \<noteq> GLOBALS" "t \<noteq> L" using libs [OF assms(2) g(3)] by simp_all
  have same: "slots ?e u = slots e1 u" if "u \<noteq> t" for u using that by (auto simp: fun_eq_iff setfuncs_other)
  have lo: "libraries_open L ?e"
    using g(2) t unfolding libraries_open_def by (simp add: same)
  have ot: "t \<noteq> u" if "n \<noteq> lib" "n \<noteq> ''_G''" "slots e L (LStr n) = Table u" for n u
    using inj [OF that(2) assms(2)] other [OF that(1)] that g(3) by auto
  show ?thesis
  proof (rule that [of t, unfolded run])
    show "libraries_open L ?e" by (rule lo)
    show "slots ?e L (LStr lib) = Table t" using g(3) t by (simp add: same)
    show "slots ?e t (LStr n) = Native f []" if "(n, f) \<in> set l" for n f by (rule setfuncs_in [OF assms(3) that])
    show "slots ?e t (LStr n) = slots e t (LStr n)" if "n \<notin> fst ` set l" "library_of L lib e = Some t" for n
    proof -
      have "t < next_table e" using libraries_openD(6) [OF assms(1,2)] that(2) by simp
      moreover have "LStr n \<notin> LStr ` fst ` set l" using that(1) by auto
      ultimately show ?thesis using keep t by (simp add: setfuncs_other)
    qed
    show "library_of L n ?e = library_of L n e" if "n \<noteq> lib" "n \<noteq> ''_G''" for n
      using other [OF that(1)] t by (simp add: library_of_def same)
    show "slots ?e u = slots e u" if "n \<noteq> lib" "n \<noteq> ''_G''" "library_of L n e = Some u" for n u
    proof -
      have u: "slots e L (LStr n) = Table u" using that(3) by simp
      then have "u < next_table e" "u \<noteq> GLOBALS" "u \<noteq> L" using libraries_openD(6) [OF assms(1) that(2)] by auto
      with ot [OF that(1,2) u] keep show ?thesis by (simp add: same)
    qed
    show "library_of L lib e = None \<or> library_of L lib e = Some t" using new by blast
  qed
qed

definition installed :: "nat \<Rightarrow> engine \<Rightarrow> engine \<Rightarrow> string \<Rightarrow> luaL_Reg list \<Rightarrow> bool" where
  \<comment> \<open>a library of the second state has the functions, and otherwise what it had in the first\<close>
  "installed L e e' lib l \<longleftrightarrow>
     (\<exists>t. lua_getglobal lib e' = Table t \<and> slots e' L (LStr lib) = Table t
       \<and> (\<forall>(n, f) \<in> set l. slots e' t (LStr n) = Native f [])
       \<and> (slots e L (LStr lib) = Table t \<longrightarrow> (\<forall>n. n \<notin> fst ` set l \<longrightarrow> slots e' t (LStr n) = slots e t (LStr n)))
       \<and> (\<forall>u. slots e L (LStr lib) = Table u \<longrightarrow> u = t))"

lemma register_all:
  assumes "libraries_open L e" and "distinct (map fst libs)" and "\<forall>(lib, l) \<in> set libs. lib \<noteq> ''_G'' \<and> distinct (map fst l)"
  shows "libraries_open L (fold (\<lambda>(lib, l). luaL_register lib l) libs e)
    \<and> (\<forall>(lib, l) \<in> set libs. installed L e (fold (\<lambda>(lib, l). luaL_register lib l) libs e) lib l)
    \<and> (\<forall>n u. n \<noteq> ''_G'' \<longrightarrow> n \<notin> fst ` set libs \<longrightarrow> library_of L n (fold (\<lambda>(lib, l). luaL_register lib l) libs e) = library_of L n e
         \<and> (library_of L n e = Some u \<longrightarrow> slots (fold (\<lambda>(lib, l). luaL_register lib l) libs e) u = slots e u))"
  using assms
proof (induction libs arbitrary: e)
  case (Cons x libs)
  obtain lib l where x: "x = (lib, l)" by (cases x) auto
  have lib: "lib \<noteq> ''_G''" "distinct (map fst l)" "lib \<notin> fst ` set libs" using Cons.prems x by auto
  let ?e1 = "luaL_register lib l e"
  let ?e2 = "fold (\<lambda>(lib, l). luaL_register lib l) libs ?e1"
  obtain t where r: "libraries_open L ?e1" "slots ?e1 L (LStr lib) = Table t"
    and fs: "\<And>n f. (n, f) \<in> set l \<Longrightarrow> slots ?e1 t (LStr n) = Native f []"
    and old: "\<And>n. n \<notin> fst ` set l \<Longrightarrow> library_of L lib e = Some t \<Longrightarrow> slots ?e1 t (LStr n) = slots e t (LStr n)"
    and others: "\<And>n. n \<noteq> lib \<Longrightarrow> n \<noteq> ''_G'' \<Longrightarrow> library_of L n ?e1 = library_of L n e"
      "\<And>n u. n \<noteq> lib \<Longrightarrow> n \<noteq> ''_G'' \<Longrightarrow> library_of L n e = Some u \<Longrightarrow> slots ?e1 u = slots e u"
    and was: "library_of L lib e = None \<or> library_of L lib e = Some t"
    using register [OF Cons.prems(1) lib(1,2)] by blast
  have "libraries_open L ?e2
    \<and> (\<forall>(lib, l) \<in> set libs. installed L ?e1 ?e2 lib l)
    \<and> (\<forall>n u. n \<noteq> ''_G'' \<longrightarrow> n \<notin> fst ` set libs \<longrightarrow> library_of L n ?e2 = library_of L n ?e1
         \<and> (library_of L n ?e1 = Some u \<longrightarrow> slots ?e2 u = slots ?e1 u))"
    using Cons.prems by (intro Cons.IH [OF r(1)]) auto
  then have IH: "libraries_open L ?e2" "\<And>m k. (m, k) \<in> set libs \<Longrightarrow> installed L ?e1 ?e2 m k"
    "\<And>n. n \<noteq> ''_G'' \<Longrightarrow> n \<notin> fst ` set libs \<Longrightarrow> library_of L n ?e2 = library_of L n ?e1"
    "\<And>n u. n \<noteq> ''_G'' \<Longrightarrow> n \<notin> fst ` set libs \<Longrightarrow> library_of L n ?e1 = Some u \<Longrightarrow> slots ?e2 u = slots ?e1 u"
    by blast+
  have t1: "library_of L lib ?e1 = Some t" using r(2) by simp
  have "library_of L lib ?e2 = Some t" using IH(3) [OF lib(1,3)] t1 by (rule trans)
  then have t2: "slots ?e2 L (LStr lib) = Table t" "slots ?e2 t = slots ?e1 t"
    using IH(4) [OF lib(1,3) t1] by (simp_all only: library_of_Some)
  have "installed L e ?e2 lib l"
    unfolding installed_def
  proof (intro exI [of _ t] conjI allI impI ballI)
    show "lua_getglobal lib ?e2 = Table t"
      using libraries_openD(6) [OF IH(1) lib(1) t2(1)] by (simp add: lua_getglobal_def)
    show "slots ?e2 L (LStr lib) = Table t" by (rule t2)
    show "case y of (n, f) \<Rightarrow> slots ?e2 t (LStr n) = Native f []" if "y \<in> set l" for y
      using fs that t2(2) by (cases y) simp
    show "slots ?e2 t (LStr n) = slots e t (LStr n)" if "slots e L (LStr lib) = Table t" "n \<notin> fst ` set l" for n
      using old [OF that(2)] that(1) t2(2) by simp
    show "u = t" if "slots e L (LStr lib) = Table u" for u using was library_of_Some [THEN iffD2, OF that] by simp
  qed
  moreover have "installed L e ?e2 m k" if "(m, k) \<in> set libs" for m k
  proof -
    have "m \<noteq> lib" "m \<noteq> ''_G''" using that lib(3) Cons.prems(3) by force+
    then have "library_of L m ?e1 = library_of L m e" "\<And>u. library_of L m e = Some u \<Longrightarrow> slots ?e1 u = slots e u"
      using others by blast+
    then have eqs: "slots ?e1 L (LStr m) = Table u \<longleftrightarrow> slots e L (LStr m) = Table u"
      "slots e L (LStr m) = Table u \<Longrightarrow> slots ?e1 u = slots e u" for u
      by (metis library_of_Some)+
    from IH(2) [OF that] obtain t where now: "lua_getglobal m ?e2 = Table t" "slots ?e2 L (LStr m) = Table t"
      "\<forall>(n, f) \<in> set k. slots ?e2 t (LStr n) = Native f []"
      and kept: "slots ?e1 L (LStr m) = Table t \<longrightarrow> (\<forall>n. n \<notin> fst ` set k \<longrightarrow> slots ?e2 t (LStr n) = slots ?e1 t (LStr n))"
      and uniq: "\<forall>u. slots ?e1 L (LStr m) = Table u \<longrightarrow> u = t"
      unfolding installed_def by blast
    have "slots e L (LStr m) = Table t \<longrightarrow> (\<forall>n. n \<notin> fst ` set k \<longrightarrow> slots ?e2 t (LStr n) = slots e t (LStr n))"
    proof (intro impI allI)
      fix n assume t: "slots e L (LStr m) = Table t" and n: "n \<notin> fst ` set k"
      have "slots ?e2 t (LStr n) = slots ?e1 t (LStr n)" using kept t n by (simp only: eqs(1)) blast
      then show "slots ?e2 t (LStr n) = slots e t (LStr n)" by (simp only: eqs(2) [OF t])
    qed
    moreover have "\<forall>u. slots e L (LStr m) = Table u \<longrightarrow> u = t" using uniq by (simp only: eqs(1))
    ultimately show ?thesis using now unfolding installed_def by blast
  qed
  moreover have "library_of L n ?e2 = library_of L n e \<and> (library_of L n e = Some u \<longrightarrow> slots ?e2 u = slots e u)"
    if "n \<noteq> ''_G''" "n \<notin> fst ` set (x # libs)" for n u
  proof -
    have n: "n \<noteq> lib" "n \<notin> fst ` set libs" using that x by auto
    then show ?thesis using IH(3,4) [OF that(1) n(2)] others [OF n(1) that(1)] by auto
  qed
  ultimately show ?case using IH(1) by (simp add: x) blast
qed simp

lemma libraries_distinct:
  "distinct (map fst (libraries p))" "\<forall>(lib, l) \<in> set (libraries p). lib \<noteq> ''_G'' \<and> distinct (map fst l)"
proof -
  have "\<exists>A B C D. \<forall>h. os_functions h = A @ (if windows h then B else []) @ C @ (if static_lua h then D else [])"
    by (intro exI allI, rule os_functions_def)
  then obtain A B C D where os: "\<And>h. os_functions h = A @ (if windows h then B else []) @ C @ (if static_lua h then D else [])"
    by blast
  have "distinct (map fst (os_functions (sample_host Windows)))" by code_simp
  moreover have "static_lua (sample_host Windows)" by (simp add: sample_host_def)
  ultimately have "distinct (map fst (A @ B @ C @ D))" by (simp only: os sample_host_fields if_True simp_thms)
  then have "distinct (map fst (os_functions h))" for h by (auto simp: os)
  moreover have "distinct (map fst premake_functions)" "distinct (map fst criteria_functions)" "distinct (map fst debug_functions)"
    "distinct (map fst path_functions)" "distinct (map fst string_functions)" "distinct (map fst buffered_functions)"
    "distinct (map fst term_functions)" "distinct (map fst http_functions)" "distinct (map fst zip_functions)"
    by (simp_all add: premake_functions_def criteria_functions_def debug_functions_def path_functions_def string_functions_def
        buffered_functions_def term_functions_def http_functions_def zip_functions_def)
  ultimately show "\<forall>(lib, l) \<in> set (libraries p). lib \<noteq> ''_G'' \<and> distinct (map fst l)"
    by (auto simp: libraries_def)
  show "distinct (map fst (libraries p))" by (simp add: libraries_def)
qed

text \<open>C13: Every built-in function is registered: each library of the host is one table, a global and loaded
  under the same name, with the functions of its list. Where Lua has the library already, it is that
  table, and what it has besides the listed functions is kept.\<close>

theorem libraries_registered:
  assumes "libraries_open L e" and "(lib, l) \<in> set (libraries p)"
  shows "installed L e (register_libraries p e) lib l \<and> libraries_open L (register_libraries p e)"
  using register_all [OF assms(1) libraries_distinct [of p]] assms(2) unfolding register_libraries_def by blast


text \<open>A state in which the libraries \<open>os\<close> and \<open>string\<close> are open.\<close>

definition open_engine :: engine where
  "open_engine =
     sample_engine\<lparr>next_table := 8, slots := (\<lambda>u k.
       if u = REGISTRY \<and> k = LStr ''_LOADED'' then Table 3
       else if u = 3 \<or> u = GLOBALS then (if k = LStr ''os'' then Table 4 else if k = LStr ''string'' then Table 5 else nil)
       else if u = 5 \<and> k = LStr ''gsub'' then Native ''str_gsub'' [] else nil)\<rparr>"

lemma open_engine_slots [simp]:
  "slots open_engine u k =
     (if u = REGISTRY \<and> k = LStr ''_LOADED'' then Table 3
       else if u = 3 \<or> u = GLOBALS then (if k = LStr ''os'' then Table 4 else if k = LStr ''string'' then Table 5 else nil)
       else if u = 5 \<and> k = LStr ''gsub'' then Native ''str_gsub'' [] else nil)"
  "next_table open_engine = 8"
  by (simp_all add: open_engine_def)

theorem libraries_registered_witness:
  "\<exists>t. lua_getglobal ''string'' (register_libraries (sample_program Linux) open_engine) = Table t
    \<and> slots (register_libraries (sample_program Linux) open_engine) t (LStr ''sha1'') = Native ''string_sha1'' []
    \<and> slots (register_libraries (sample_program Linux) open_engine) t (LStr ''gsub'') = Native ''str_gsub'' []"
proof -
  have lo: "libraries_open 3 open_engine"
    unfolding libraries_open_def by (auto simp: REGISTRY_def GLOBALS_def split: if_splits)
  have l: "(''string'', string_functions) \<in> set (libraries (sample_program Linux))" by (simp add: libraries_def)
  from libraries_registered [OF lo l] obtain t
    where t: "lua_getglobal ''string'' (register_libraries (sample_program Linux) open_engine) = Table t"
      and fs: "\<forall>(n, f) \<in> set string_functions. slots (register_libraries (sample_program Linux) open_engine) t (LStr n) = Native f []"
      and old: "slots open_engine 3 (LStr ''string'') = Table t \<longrightarrow> (\<forall>n. n \<notin> fst ` set string_functions \<longrightarrow>
          slots (register_libraries (sample_program Linux) open_engine) t (LStr n) = slots open_engine t (LStr n))"
      and u: "\<forall>u. slots open_engine 3 (LStr ''string'') = Table u \<longrightarrow> u = t"
    unfolding installed_def by blast
  have "slots open_engine 3 (LStr ''string'') = Table 5" by (simp add: REGISTRY_def)
  with u have t5: "t = 5" by blast
  have s: "(''sha1'', ''string_sha1'') \<in> set string_functions" "''gsub'' \<notin> fst ` set string_functions"
    by (simp_all add: string_functions_def)
  have "slots (register_libraries (sample_program Linux) open_engine) t (LStr ''sha1'') = Native ''string_sha1'' []"
    using fs s(1) by blast
  moreover have "slots (register_libraries (sample_program Linux) open_engine) t (LStr ''gsub'') = Native ''str_gsub'' []"
    using old s(2) t5 by (simp add: REGISTRY_def GLOBALS_def)
  ultimately show ?thesis using t by blast
qed

section \<open>The arguments\<close>

definition scripts_arguments :: "program \<Rightarrow> targ list \<Rightarrow> cstring list" where
  "scripts_arguments p argv =
     concat (map (\<lambda>a. case scripts_argument (c_view (the_default ''<conversion error>'' (arg_text (on p) a))) of
                        None \<Rightarrow> [] | Some d \<Rightarrow> [d]) argv)"

lemma copy_arguments_effect:
  assumes "copy_arguments p t i argv e = (Inr (), e')"
  shows "(\<forall>k. slots e' t k = (case k of LInt n \<Rightarrow>
             if int i \<le> n \<and> n < int (i + length argv)
             then str (the_default ''<conversion error>'' (arg_text (on p) (argv ! (nat n - i)))) else slots e t k
           | _ \<Rightarrow> slots e t k))
    \<and> (\<forall>u. u \<noteq> t \<longrightarrow> slots e' u = slots e u) \<and> disk e' = disk e
    \<and> (if scripts_arguments p argv = [] then scripts_path e' = scripts_path e
       else \<exists>s. getabsolute_in (on p) (last (scripts_arguments p argv)) None (disk e) = Inr s \<and> scripts_path e' = Some s)"
  using assms
proof (induction argv arbitrary: i e)
  case Nil
  then show ?case by (auto simp: scripts_arguments_def split: lval.split)
next
  case (Cons a as)
  let ?text = "the_default ''<conversion error>'' (arg_text (on p) a)"
  let ?e1 = "set_field t (LInt (int i)) (str ?text) e"
  let ?d = "scripts_argument (c_view ?text)"
  obtain e2 where e2: "copy_arguments p t (Suc i) as e2 = (Inr (), e')" and s2: "slots e2 = slots ?e1" "disk e2 = disk e"
    and p2: "case ?d of None \<Rightarrow> scripts_path e2 = scripts_path e
      | Some d \<Rightarrow> \<exists>s. getabsolute_in (on p) d None (disk e) = Inr s \<and> scripts_path e2 = Some s"
  proof (cases ?d)
    case None
    then show ?thesis using Cons.prems by (intro that [of ?e1]) (simp_all add: Let_def)
  next
    case (Some d)
    obtain s where s: "getabsolute_in (on p) d None (disk e) = Inr s" "getabsolute_fits (on p) (path_max (on p)) d (disk e)"
      and run: "copy_arguments p t (Suc i) as (?e1\<lparr>scripts_path := Some s\<rparr>) = (Inr (), e')"
      using Cons.prems Some by (auto simp: Let_def bind_run_def set_scripts_path_def split: sum.splits if_splits)
    show ?thesis by (rule that [OF run]) (simp_all add: Some s)
  qed
  note IH = Cons.IH [OF e2]
  have idx: "(a # as) ! (nat n - i) = as ! (nat n - Suc i)" if "int (Suc i) \<le> n" for n
  proof -
    have "nat n - i = Suc (nat n - Suc i)" using that by linarith
    then show ?thesis by simp
  qed
  have "slots e' t k = (case k of LInt n \<Rightarrow>
             if int i \<le> n \<and> n < int (i + length (a # as))
             then str (the_default ''<conversion error>'' (arg_text (on p) ((a # as) ! (nat n - i)))) else slots e t k
           | _ \<Rightarrow> slots e t k)" for k
  proof (cases k)
    case (LInt n)
    consider "n = int i" | "int (Suc i) \<le> n" | "n < int i" by linarith
    then show ?thesis
    proof cases
      case 2
      then show ?thesis using IH s2 LInt idx [OF 2] by auto
    qed (use IH s2 LInt in auto)
  qed (use IH s2 in auto)
  moreover have "scripts_arguments p (a # as) = (case ?d of None \<Rightarrow> [] | Some d \<Rightarrow> [d]) @ scripts_arguments p as"
    by (simp add: scripts_arguments_def)
  ultimately show ?case using IH s2 p2 by (auto split: option.splits)
qed

text \<open>After the arguments have been processed, \<open>_ARGV\<close> is a new table with exactly the arguments of the
  command line at 1, 2, ..., and the directory of scripts is the absolute path of the last
  \<open>--scripts=\<close> (or \<open>/scripts=\<close>) argument, if there is one.\<close>

theorem arguments_copied:
  assumes "plat (on p) \<noteq> Windows" and "process_arguments p (map Narrow argv) e = (Inr (), e')"
    and "\<forall>a \<in> set argv. is_cstring a"
  shows "\<exists>t. lua_getglobal ''_ARGV'' e' = Table t
    \<and> (t \<noteq> GLOBALS \<longrightarrow> (\<forall>n. slots e' t (LInt n) = (if 1 \<le> n \<and> n \<le> int (length argv) then str (argv ! (nat n - 1)) else nil)))
    \<and> (case filter (\<lambda>a. prefix ''/scripts='' a \<or> prefix ''--scripts='' a) argv of
         [] \<Rightarrow> scripts_path e' = scripts_path e
       | as \<Rightarrow> \<exists>s. getabsolute_in (on p) (drop (if prefix ''/scripts='' (last as) then 9 else 10) (last as)) None (disk e) = Inr s
               \<and> scripts_path e' = Some s)"
proof -
  let ?t = "next_table e" and ?opt = "\<lambda>a. prefix ''/scripts='' a \<or> prefix ''--scripts='' a"
    and ?val = "\<lambda>a. drop (if prefix ''/scripts='' a then 9 else 10) a"
  obtain e1 where c: "copy_arguments p ?t 1 (map Narrow argv) (snd (new_table e)) = (Inr (), e1)"
    and e': "e' = lua_setglobal ''_ARGV'' (Table ?t) e1"
    using assms(2) by (auto simp: process_arguments_def new_table_def bind_run_def split: prod.splits sum.splits)
  note eff = copy_arguments_effect [OF c]
  have txt_eq: "the_default ''<conversion error>'' (arg_text (on p) (map Narrow argv ! k)) = argv ! k" if "k < length argv" for k
    using that by (simp add: arg_text_def the_default_def)
  have l: "length ''/scripts='' = 9" "length ''--scripts='' = 10" by simp_all
  have opt: "scripts_argument a = (if ?opt a then Some (?val a) else None)" for a
    using strncmp_prefix [of a "''/scripts=''"] strncmp_prefix [of a "''--scripts=''"] unfolding l scripts_argument_def by simp
  have sc: "scripts_arguments p (map Narrow argv) = map ?val (filter ?opt argv)"
    using assms(3) by (induction argv) (simp_all add: scripts_arguments_def arg_text_def the_default_def opt)
  have "slots e' ?t (LInt n) = (if 1 \<le> n \<and> n \<le> int (length argv) then str (argv ! (nat n - 1)) else nil)"
    if "?t \<noteq> GLOBALS" for n
  proof -
    have "nat n - 1 < length argv" if "1 \<le> n" "n \<le> int (length argv)" using that by linarith
    then show ?thesis using eff that txt_eq by (simp add: e' lua_setglobal_def new_table_def)
  qed
  moreover have "scripts_path e' = scripts_path e1" "scripts_path (snd (new_table e)) = scripts_path e"
    "disk (snd (new_table e)) = disk e" by (simp_all add: e' new_table_def)
  moreover have "lua_getglobal ''_ARGV'' e' = Table ?t" by (simp add: e')
  ultimately show ?thesis using eff unfolding sc
    by (intro exI [of _ ?t] conjI) (auto simp: last_map split: list.split)
qed


theorem arguments_copied_witness:
  "\<exists>e' t. process_arguments (sample_program Linux) (map Narrow [''gmake'']) sample_engine = (Inr (), e')
    \<and> lua_getglobal ''_ARGV'' e' = Table t \<and> slots e' t (LInt 1) = str ''gmake'' \<and> slots e' t (LInt 2) = nil"
proof -
  have n: "scripts_argument ''gmake'' = None" by (simp add: scripts_argument_def strncmp_eq_def)
  have nt: "next_table sample_engine = 3" by (simp add: sample_engine_def Let_def lua_setglobal_def)
  obtain e' where run: "process_arguments (sample_program Linux) (map Narrow [''gmake'']) sample_engine = (Inr (), e')"
    and e': "lua_getglobal ''_ARGV'' e' = Table 3"
    by (simp add: process_arguments_def new_table_def bind_run_def arg_text_def the_default_def n nt)
  have w: "plat (on (sample_program Linux)) \<noteq> Windows" "\<forall>a \<in> set [''gmake'']. is_cstring a" by simp_all
  from arguments_copied [OF w(1) run w(2)] obtain t where t: "lua_getglobal ''_ARGV'' e' = Table t"
    and v: "t \<noteq> GLOBALS \<longrightarrow> (\<forall>n. slots e' t (LInt n)
        = (if 1 \<le> n \<and> n \<le> int (length [''gmake'']) then str ([''gmake''] ! (nat n - 1)) else nil))" by blast
  have "t = 3" using t e' by simp
  then have "slots e' t (LInt 1) = str ''gmake''" "slots e' t (LInt 2) = nil" using v by (simp_all add: GLOBALS_def)
  with run t show ?thesis by blast
qed

section \<open>The main script\<close>

lemma search_masks:
  "(SEARCH_SCRIPTS OR SEARCH_EMBEDDED) AND SEARCH_LOCAL = 0" "(SEARCH_SCRIPTS OR SEARCH_EMBEDDED) AND SEARCH_PATH = 0"
  "(SEARCH_SCRIPTS OR SEARCH_EMBEDDED) AND SEARCH_EMBEDDED \<noteq> 0" "(SEARCH_SCRIPTS OR SEARCH_EMBEDDED) AND SEARCH_SCRIPTS \<noteq> 0"
  by (simp_all add: search_bits)

lemma locate_in_skip [simp]: "locate_in False h f d w = Inr None" "locate_in b h f None w = Inr None"
  by (simp_all add: locate_in_def split: option.split)

lemma or_else_simps [simp]:
  "or_else (Inr None) r = r" "or_else (Inr (Some x)) r = Inr (Some x)" "or_else (Inl y) r = Inl y"
  by (simp_all add: or_else_def)

lemma run_embedded_main:
  assumes "ndebug (on p)" and "scripts_path e = None" and "premake_find_embedded_script p script = Some chunk"
    and "luaL_loadbuffer p chunk script = Loaded text"
  shows "run_premake_main p script e =
    (case chunk_wrapper p [str (''$/'' @ script), Function (next_closure e)] [] (snd (new_function text e)) of
       (Inr _, e2) \<Rightarrow> (Inr None, e2)
     | (Inl x, e2) \<Rightarrow> if catchable x then (Inr (Some (raised x)), e2) else (Inl x, e2))"
proof -
  have f: "find_main p script e = Inr (Some (''$/'' @ script))"
    using assms(1-3) search_masks
    by (simp add: find_main_def premake_locate_file_def [of p script "SEARCH_SCRIPTS OR SEARCH_EMBEDDED"])
  let ?e1 = "snd (new_function text e)" and ?k = "next_closure e"
  have l: "premake_load_embedded_script p script e = ((LUA_OK, [str (''$/'' @ script), Function ?k]), ?e1)"
    using assms(1,3,4) by (simp add: premake_load_embedded_script_def push_loaded_def new_function_def)
  have "premake_luaL_loadfilex p [str (''$/'' @ script)] (Some (''$/'' @ script)) None e =
      (Inr (LUA_OK, [str (''$/'' @ script), Native ''chunk_wrapper'' [str (''$/'' @ script), Function ?k]]), ?e1)"
    using l assms(1) by (simp add: premake_luaL_loadfilex_def Let_def wrap_chunk_def numeral_2_eq_2)
  then show ?thesis
    by (simp add: run_premake_main_def f bind_run_def call_value_def split: prod.split sum.split)
qed

text \<open>C22: A release build that is given no directory of scripts starts from the embedded main script, whatever
  files there are and whatever the environment says: no file and no variable is looked at.\<close>

theorem release_starts_embedded:
  assumes "ndebug (on p)" and "scripts_path e = None" and "premake_find_embedded_script p script = Some chunk"
    and "luaL_loadbuffer p chunk script = Loaded text"
  shows "\<exists>k e1. closures e1 k = (text, Table GLOBALS) \<and> disk e1 = disk e \<and> slots e1 = slots e
    \<and> run_premake_main p script e =
        (case chunk_wrapper p [str (''$/'' @ script), Function k] [] e1 of
           (Inr _, e2) \<Rightarrow> (Inr None, e2)
         | (Inl x, e2) \<Rightarrow> if catchable x then (Inr (Some (raised x)), e2) else (Inl x, e2))"
  using run_embedded_main [OF assms]
  by (intro exI [of _ "next_closure e"] exI [of _ "snd (new_function text e)"]) (simp add: new_function_def)

theorem release_starts_embedded_witness:
  "\<exists>k e1. run_premake_main (sample_program Linux) ''src/_premake_main.lua'' sample_engine =
        (case chunk_wrapper (sample_program Linux) [str (''$/'' @ ''src/_premake_main.lua''), Function k] [] e1 of
           (Inr _, e2) \<Rightarrow> (Inr None, e2)
         | (Inl x, e2) \<Rightarrow> if catchable x then (Inr (Some (raised x)), e2) else (Inl x, e2))"
proof -
  have a: "ndebug (on (sample_program Linux))" "scripts_path sample_engine = None"
    "premake_find_embedded_script (sample_program Linux) ''src/_premake_main.lua'' = Some ''main''"
    "luaL_loadbuffer (sample_program Linux) ''main'' ''src/_premake_main.lua'' = Loaded ''main''" by simp_all
  from release_starts_embedded [OF a] show ?thesis by blast
qed

section \<open>The exit code\<close>




end
