(* ===== verification/Byte_Sink.thy ===== *)
theory Byte_Sink
  imports Buffered_IO File_Contents
begin

text \<open>
  What the code that produces data piece by piece relies on: a place to write to that either takes a
  whole piece at its end or says that it did not. The locale \<open>byte_sink\<close> states the contract, once
  for the extraction of archives and for the two kinds of transfers, which stop at the first piece
  that was not taken. A growing list of bytes is such a place, hence so is the buffer of
  \<open>src/host/buffered_io.c\<close>; and so is a stream of \<open>stdio.h\<close> that was opened for writing.
\<close>

section \<open>The contract\<close>

primrec write_pieces :: "(string \<Rightarrow> 's \<Rightarrow> nat \<times> 's) \<Rightarrow> string list \<Rightarrow> 's \<Rightarrow> (string \<times> nat) option \<times> 's" where
  \<comment> \<open>the first piece that was not taken, with the number of bytes that were\<close>
  "write_pieces feed [] s = (None, s)"
| "write_pieces feed (p # ps) s =
     (case feed p s of (n, s1) \<Rightarrow> if n \<noteq> length p then (Some (p, n), s1) else write_pieces feed ps s1)"

locale byte_sink =
  fixes feed :: "string \<Rightarrow> 's \<Rightarrow> nat \<times> 's"
    and invar :: "'s \<Rightarrow> bool"
    and written :: "'s \<Rightarrow> string"
  assumes write_all: "invar s \<Longrightarrow> feed b s = (length b, s') \<Longrightarrow> invar s' \<and> written s' = written s @ b"
    and write_short: "invar s \<Longrightarrow> feed b s = (n, s') \<Longrightarrow> n \<noteq> length b \<Longrightarrow> written s' = written s"
begin

lemma write_pieces_all:
  "write_pieces feed ps s = (None, s') \<Longrightarrow> invar s \<Longrightarrow> invar s' \<and> written s' = written s @ concat ps"
proof (induction ps arbitrary: s)
  case (Cons p ps)
  obtain n s1 where w: "feed p s = (n, s1)" by fastforce
  with Cons.prems have n: "n = length p" "write_pieces feed ps s1 = (None, s')" by (auto split: if_splits)
  with w write_all [OF Cons.prems(2)] have "invar s1" "written s1 = written s @ p" by blast+
  with Cons.IH [OF n(2)] show ?case by simp
qed simp

text \<open>When a piece is refused, what was written are the pieces before it.\<close>

lemma write_pieces_refused:
  "write_pieces feed ps s = (Some (p, n), s') \<Longrightarrow> invar s \<Longrightarrow>
    \<exists>before. prefix (before @ [p]) ps \<and> n \<noteq> length p \<and> written s' = written s @ concat before"
proof (induction ps arbitrary: s)
  case (Cons q ps)
  obtain k s1 where w: "feed q s = (k, s1)" by fastforce
  show ?case
  proof (cases "k = length q")
    case True
    with w write_all [OF Cons.prems(2)] have s1: "invar s1" "written s1 = written s @ q" by blast+
    have "write_pieces feed ps s1 = (Some (p, n), s')" using Cons.prems(1) w True by simp
    from Cons.IH [OF this s1(1)] obtain before where "prefix (before @ [p]) ps" "n \<noteq> length p"
        "written s' = written s1 @ concat before" by blast
    then show ?thesis using s1(2) by (intro exI [of _ "q # before"]) simp
  next
    case False
    then have "p = q" "n = k" "s' = s1" using Cons.prems(1) w by auto
    then show ?thesis using False write_short [OF Cons.prems(2) w] by (intro exI [of _ "[]"]) simp
  qed
qed simp

end

text \<open>A list that grows at its end takes everything.\<close>

sublocale byte_log \<subseteq> sink: byte_sink "\<lambda>b s. (length b, append s b)" ok abs
  by unfold_locales (auto simp: append_ok append_abs)

lemma write_pieces_total: "write_pieces (\<lambda>b s. (length b, f s b)) ps s = (None, foldl f s ps)"
  by (induction ps arbitrary: s) simp_all

section \<open>A stream opened for writing\<close>

definition fwrite_bytes :: "nat \<Rightarrow> string \<Rightarrow> world \<Rightarrow> nat \<times> world" where
  \<comment> \<open>\<open>fwrite(s, 1, length, f)\<close>, which returns the number of bytes\<close>
  "fwrite_bytes f s w = (case fwrite s f w of (items, w1) \<Rightarrow> (items * length s, w1))"

text \<open>The stream is at the end of a file, which was changed last at the present time.\<close>

definition at_end :: "nat \<Rightarrow> place \<Rightarrow> world \<Rightarrow> bool" where
  "at_end f p w \<longleftrightarrow> (\<exists>m s. open_streams w f = Some \<lparr>at_place = p, offset = length s\<rparr>
     \<and> lookup w p = Some (Regular m (clock w) s))"

lemma fwrite_at_end:
  assumes "at_end f p w" and "fwrite_bytes f b w = (n, w1)"
  shows "if n = length b
         then at_end f p w1 \<and> File_System.contents w1 p = File_System.contents w p @ b
         else w1 = w"
  using assms
  by (auto simp: at_end_def fwrite_bytes_def fwrite_def open_streams_def lookup_def put_def update_conv'
      File_System.contents_def split: if_splits)

interpretation stream: byte_sink "fwrite_bytes f" "at_end f p" "\<lambda>w. File_System.contents w p" for f p
proof
  fix w w' :: world and b :: string and n :: nat
  show "at_end f p w \<Longrightarrow> fwrite_bytes f b w = (length b, w') \<Longrightarrow>
      at_end f p w' \<and> File_System.contents w' p = File_System.contents w p @ b"
    using fwrite_at_end [of f p w b "length b" w'] by simp
  show "at_end f p w \<Longrightarrow> fwrite_bytes f b w = (n, w') \<Longrightarrow> n \<noteq> length b \<Longrightarrow>
      File_System.contents w' p = File_System.contents w p"
    using fwrite_at_end [of f p w b n w'] by simp
qed

text \<open>What writing leaves alone.\<close>

definition only_file :: "nat \<Rightarrow> place \<Rightarrow> world \<Rightarrow> world \<Rightarrow> bool" where
  "only_file f p w w' \<longleftrightarrow> (\<forall>q. q \<noteq> p \<longrightarrow> lookup w' q = lookup w q) \<and> (\<forall>g. g \<noteq> f \<longrightarrow> open_streams w' g = open_streams w g)
     \<and> cwd w' = cwd w \<and> clock w' = clock w \<and> umask w' = umask w \<and> disk_full w' = disk_full w
     \<and> next_stream w' = next_stream w"

lemma only_file_refl [simp]: "only_file f p w w"
  by (simp add: only_file_def)

lemma only_file_trans: "only_file f p u v \<Longrightarrow> only_file f p v w \<Longrightarrow> only_file f p u w"
  unfolding only_file_def by (intro conjI allI impI) auto

lemma fwrite_only:
  assumes "at_end f p w" and "fwrite_bytes f b w = (n, w1)"
  shows "only_file f p w w1"
  using assms
  by (auto simp: only_file_def at_end_def fwrite_bytes_def fwrite_def open_streams_def lookup_def put_def update_conv'
      split: if_splits)

lemma write_pieces_only:
  "write_pieces (fwrite_bytes f) ps w = (r, w1) \<Longrightarrow> at_end f p w \<Longrightarrow> only_file f p w w1"
proof (induction ps arbitrary: w)
  case (Cons q ps)
  obtain n w2 where w: "fwrite_bytes f q w = (n, w2)" by fastforce
  note step = fwrite_only [OF Cons.prems(2) w]
  show ?case
  proof (cases "n = length q")
    case True
    with Cons.prems w have "write_pieces (fwrite_bytes f) ps w2 = (r, w1)" "at_end f p w2"
      using fwrite_at_end [OF Cons.prems(2) w] by auto
    from Cons.IH [OF this] step show ?thesis by (blast intro: only_file_trans)
  next
    case False
    with Cons.prems w step show ?thesis by simp
  qed
qed simp

lemma write_pieces_wf: "write_pieces (fwrite_bytes f) ps w = (r, w1) \<Longrightarrow> wf_world w \<Longrightarrow> wf_world w1"
proof (induction ps arbitrary: w)
  case (Cons q ps)
  obtain n w2 where w: "fwrite q f w = (n, w2)" by fastforce
  with wf_fwrite [OF Cons.prems(2), of q f] have "wf_world w2" by simp
  with Cons w show ?case by (auto simp: fwrite_bytes_def split: if_splits)
qed simp

text \<open>Where the disk has room, every piece is taken.\<close>

lemma fwrite_room: "at_end f p w \<Longrightarrow> \<not> disk_full w \<Longrightarrow> fst (fwrite_bytes f b w) = length b"
  by (auto simp: at_end_def fwrite_bytes_def fwrite_def open_streams_def)

lemma write_pieces_room:
  "at_end f p w \<Longrightarrow> \<not> disk_full w \<Longrightarrow> \<exists>w1. write_pieces (fwrite_bytes f) ps w = (None, w1)"
proof (induction ps arbitrary: w)
  case (Cons q ps)
  obtain n w2 where w: "fwrite_bytes f q w = (n, w2)" by fastforce
  have n: "n = length q" using fwrite_room [OF Cons.prems, of q] w by simp
  have "at_end f p w2" "\<not> disk_full w2"
    using fwrite_at_end [OF Cons.prems(1) w] fwrite_only [OF Cons.prems(1) w] Cons.prems(2) n by (auto simp: only_file_def)
  from Cons.IH [OF this] w n show ?case by simp
qed simp

text \<open>On a full disk nothing is written, and the first piece that is not empty is refused.\<close>

lemma write_pieces_full:
  "write_pieces (fwrite_bytes f) ps w = (r, w1) \<Longrightarrow> disk_full w \<Longrightarrow> at_end f p w \<Longrightarrow> w1 = w \<and> (r = None \<longleftrightarrow> concat ps = [])"
proof (induction ps)
  case (Cons a ps)
  have "fwrite_bytes f a w = (0, w)"
    using Cons.prems(2,3) by (auto simp: at_end_def fwrite_bytes_def fwrite_def open_streams_def)
  with Cons show ?case by (cases "a = []") auto
qed simp

text \<open>What is in a file after pieces were fed to it, and that it is closed again.\<close>

lemma write_pieces_file:
  assumes "write_pieces (fwrite_bytes f) ps w1 = (r, w2)" and "streams_ok w" and "f = next_stream w" and "at_end f p w1"
    and "File_System.contents w1 p = []" and "only_file f p (w\<lparr>next_stream := Suc f\<rparr>) w1"
  shows "File_System.contents (fclose f w2) p = (if disk_full w then [] else concat ps)"
    and "open_streams (fclose f w2) = open_streams w" and "q \<noteq> p \<Longrightarrow> lookup (fclose f w2) q = lookup w q"
    and "r = None \<longleftrightarrow> \<not> disk_full w \<or> concat ps = []"
proof -
  have d: "disk_full w1 = disk_full w" using assms(6) by (simp add: only_file_def)
  note same = same_filesD [OF fclose_effect(1) [where w = w2 and f = f]]
  have "File_System.contents w2 p = (if disk_full w then [] else concat ps) \<and> (r = None \<longleftrightarrow> \<not> disk_full w \<or> concat ps = [])"
  proof (cases "disk_full w")
    case True
    with write_pieces_full [OF assms(1) _ assms(4)] d assms(5) show ?thesis by simp
  next
    case False
    then have "r = None" using write_pieces_room [OF assms(4), of ps] assms(1) d by auto
    with False stream.write_pieces_all [of f ps w1 w2 p] assms(1,4,5) show ?thesis by simp
  qed
  with same(8) show "File_System.contents (fclose f w2) p = (if disk_full w then [] else concat ps)"
    "r = None \<longleftrightarrow> \<not> disk_full w \<or> concat ps = []" by simp_all
  note only = only_file_trans [OF assms(6) write_pieces_only [OF assms(1,4)]]
  have "open_streams w f = None" using assms(2,3) by (simp add: streams_ok_def)
  moreover have "open_streams w2 g = open_streams w g" if "g \<noteq> f" for g
    using only that by (simp add: only_file_def open_streams_def)
  ultimately have "(open_streams w2)(f := None) = open_streams w" by (auto simp: fun_eq_iff)
  then show "open_streams (fclose f w2) = open_streams w" by (simp add: fclose_effect)
  show "q \<noteq> p \<Longrightarrow> lookup (fclose f w2) q = lookup w q" using only same(7) by (simp add: only_file_def lookup_def)
qed

text \<open>A file that was opened for writing is empty and at its end.\<close>

lemma fopen_wb_at_end:
  assumes "fopen_wb path w = (Some f, w1)"
  obtains p m where "find_place w True path = Inr p" "f = next_stream w" "at_end f p w1" "File_System.contents w1 p = []"
    "lookup w1 = (lookup w)(p \<mapsto> Regular m (clock w) [])" "only_file f p (w\<lparr>next_stream := Suc f\<rparr>) w1"
    "lookup w p = None \<and> m = (0x1B6 AND NOT (umask w)) \<or> (\<exists>t s. lookup w p = Some (Regular m t s) \<and> may_write m)"
proof -
  obtain p m where p: "find_place w True path = Inr p" "f = next_stream w"
      "open_stream p (put p (Regular m (clock w) []) w) = (Some f, w1)"
      "lookup w p = None \<and> m = (0x1B6 AND NOT (umask w)) \<or> (\<exists>t s. lookup w p = Some (Regular m t s) \<and> may_write m)"
    using assms by (auto simp: fopen_wb_def create_Inr open_stream_def split: sum.splits option.splits node.splits if_splits prod.splits)
  note e = open_stream_effect [OF p(3)] and s = same_filesD [OF open_stream_effect(2) [OF p(3)]]
  have l: "lookup w1 = (lookup w)(p \<mapsto> Regular m (clock w) [])" using s(7) by auto
  have st: "open_streams w1 = (open_streams w)(f \<mapsto> \<lparr>at_place = p, offset = 0\<rparr>)"
    using e(4) p(2) by (simp add: open_streams_def)
  have "at_end f p w1" "File_System.contents w1 p = []"
    using l st s(3) by (auto simp: at_end_def File_System.contents_def)
  moreover have "only_file f p (w\<lparr>next_stream := Suc f\<rparr>) w1"
    using l st s e(3) p(2) by (auto simp: only_file_def lookup_def open_streams_def)
  ultimately show thesis using that p(1,2,4) l by blast
qed

end
