(* ===== verification/Zip.thy ===== *)
theory Zip
  imports Byte_Sink Search
begin

text \<open>
  \<open>src/host/zip_extract.c\<close> and \<open>src/host/zip_list.c\<close>: the extraction of an archive into a directory, and
  the names in it. The archive reader (libzip) is a parameter: what \<open>zip_open\<close> finds under a name is
  a list of entries, each with what the other calls of the reader report about it. An extraction may
  not return, because making a directory may not (on Windows); that is the value \<open>None\<close>.
\<close>

unbundle bit_operations_syntax

section \<open>The archive\<close>

record zip_entry =
  entry_name :: cstring
  openable :: bool \<comment> \<open>\<open>zip_fopen_index\<close> succeeds\<close>
  opsys :: "8 word"
  attrib :: "32 word"
  pieces :: "string list" \<comment> \<open>what \<open>zip_fread\<close> delivers, at most 4096 bytes at a time\<close>
  read_fails :: bool \<comment> \<open>and whether it then reports -1 instead of 0\<close>

type_synonym archives = "cstring \<Rightarrow> world \<Rightarrow> zip_entry list option"

definition ZIP_OPSYS_DOS :: "8 word" where "ZIP_OPSYS_DOS = 0"
definition ZIP_OPSYS_UNIX :: "8 word" where "ZIP_OPSYS_UNIX = 3"
definition FA_IFDIR :: "32 word" where "FA_IFDIR = 0x4000"
definition FA_IFLNK :: "32 word" where "FA_IFLNK = 0xA000"

definition is_symlink :: "8 word \<Rightarrow> 32 word \<Rightarrow> bool" where
  "is_symlink os a =
     (if os = ZIP_OPSYS_DOS then a AND 0x400 = 0x400
      else if os = ZIP_OPSYS_UNIX then drop_bit 16 a AND FA_IFLNK = FA_IFLNK
      else False)"

definition is_directory :: "8 word \<Rightarrow> 32 word \<Rightarrow> bool" where
  "is_directory os a =
     (if os = ZIP_OPSYS_DOS then a AND 0x10 = 0x10
      else if os = ZIP_OPSYS_UNIX then drop_bit 16 a AND FA_IFDIR = FA_IFDIR
      else False)"

section \<open>Names\<close>

lemma strstr_char: "strstr s [c] = strchr s c"
  by (induction s) auto

text \<open>The loop of \<open>parse_path\<close>: \<open>full_name\<close> moves behind the next slash as long as there is one.\<close>

function after_slashes :: "cstring \<Rightarrow> cstring" where
  "after_slashes full_name =
     (case strstr full_name ''/'' of
        None \<Rightarrow> full_name
      | Some ssc \<Rightarrow> let l = length ssc + 1 in after_slashes (drop (length full_name + 2 - l) full_name))"
  by pat_completeness auto
termination
  by (relation "measure length") (auto simp: strstr_char neq_Nil_conv dest!: strchr_SomeD)

declare after_slashes.simps [simp del]

definition parse_path :: "cstring \<Rightarrow> fault + cstring \<times> cstring" where
  \<comment> \<open>file name and directory; without a slash \<open>strlen\<close> gets a null pointer\<close>
  "parse_path full_name =
     (if strstr full_name ''/'' = None then Inl OutOfBounds
      else
        let filename = after_slashes full_name in
        Inr (filename, take (length full_name - length filename) full_name))"

lemma after_slashes_split: "SLASH \<notin> set f \<Longrightarrow> after_slashes (d @ SLASH # f) = f"
proof (induction "length d" arbitrary: d rule: less_induct)
  case less
  show ?case
  proof (cases "SLASH \<in> set d")
    case False
    then have "strstr (d @ SLASH # f) ''/'' = Some (SLASH # f)"
      by (simp add: strstr_char strchr_append)
    moreover have "after_slashes f = f"
      using less.prems by (subst after_slashes.simps) (simp add: strstr_char)
    ultimately show ?thesis by (subst after_slashes.simps) (simp add: Let_def)
  next
    case True
    then obtain p q where d: "d = p @ SLASH # q" "SLASH \<notin> set p" by (meson split_list_first)
    then have "strstr (d @ SLASH # f) ''/'' = Some (SLASH # q @ SLASH # f)"
      by (simp add: strstr_char strchr_append)
    then have "after_slashes (d @ SLASH # f) = after_slashes (q @ SLASH # f)"
      by (subst after_slashes.simps) (simp add: Let_def d)
    with less d show ?thesis by simp
  qed
qed

lemma parse_path_split: "SLASH \<notin> set f \<Longrightarrow> parse_path (d @ SLASH # f) = Inr (f, d @ [SLASH])"
proof -
  assume "SLASH \<notin> set f"
  note after_slashes_split [OF this, of d]
  moreover have "strstr (d @ SLASH # f) ''/'' \<noteq> None" by (simp add: strstr_char strchr_None)
  ultimately show ?thesis by (auto simp: parse_path_def)
qed

section \<open>Extraction\<close>

type_synonym 'a outcome = "((fault + 'a) \<times> engine) option"

definition say :: "string \<Rightarrow> engine \<Rightarrow> engine" where
  "say s e = e\<lparr>printed := printed e @ s\<rparr>"

definition host_chmod :: "host \<Rightarrow> cstring \<Rightarrow> int \<Rightarrow> world \<Rightarrow> world" where
  \<comment> \<open>whose result the callers ignore\<close>
  "host_chmod h path mode w =
     snd (if windows h then chmod_win (win h) path mode w else sys_chmod path (word_of_int mode) w)"

definition creating_failed :: "cstring \<Rightarrow> string" where
  "creating_failed filename = ''Error creating file:'' @ [CHR 0x0A] @ ''  '' @ filename @ [CHR 0x0A]"

definition write_link :: "host \<Rightarrow> cstring \<Rightarrow> string \<Rightarrow> engine \<Rightarrow> bool \<times> engine" where
  \<comment> \<open>whether the result is 0\<close>
  "write_link h filename bytes e =
     (if is_posix (plat h) then
        (case sys_symlink (c_view bytes) filename (disk e) of (r, w) \<Rightarrow> (r = Inr (), e\<lparr>disk := w\<rparr>))
      else if windows h \<and> luaL_convertlstring h filename = None then
        (False, say (''Unable to encode filename: '' @ filename @ [CHR 0x0A]) e)
      else
        (case (if windows h then wfopen_wb (win h) (the (luaL_convertlstring h filename)) (disk e)
               else fopen_wb filename (disk e)) of
           (None, w) \<Rightarrow> (False, say (creating_failed filename) (e\<lparr>disk := w\<rparr>))
         | (Some fp, w) \<Rightarrow> (True, e\<lparr>disk := fclose fp (snd (fwrite_bytes fp bytes w))\<rparr>)))"

text \<open>\<open>zip_fread(zf, buffer, 4096)\<close> of the first bytes, and the terminator behind them: the buffer has no
  place behind 4096 bytes, and none before the first one for a failed read.\<close>

definition ZIP_CHUNK :: nat where "ZIP_CHUNK = 4096"

definition read_link :: "zip_entry \<Rightarrow> fault + string" where
  "read_link z =
     (case pieces z of
        [] \<Rightarrow> if read_fails z then Inl OutOfBounds else Inr []
      | p # _ \<Rightarrow> if ZIP_CHUNK \<le> length p then Inl OutOfBounds else Inr p)"

definition extract_link :: "host \<Rightarrow> zip_entry \<Rightarrow> cstring \<Rightarrow> engine \<Rightarrow> (fault + bool) \<times> engine" where
  \<comment> \<open>whether the loop goes on\<close>
  "extract_link h z name e =
     (case read_link z of
        Inl x \<Rightarrow> (Inl x, e)
      | Inr buffer \<Rightarrow>
          (case write_link h name buffer e of
             (True, e1) \<Rightarrow> (Inr True, e1)
           | (False, e1) \<Rightarrow>
               (Inr False, say (''  Failed to create symbolic link ['' @ name @ ''->'' @ c_view buffer @ '']'' @ [CHR 0x0A]) e1)))"

text \<open>The copying loop. A failed read delivers -1 bytes, of which \<open>fwrite\<close> reads as many as \<open>size_t\<close> can hold.\<close>

primrec copy_pieces :: "nat \<Rightarrow> string list \<Rightarrow> bool \<Rightarrow> world \<Rightarrow> (fault + (nat \<times> nat) option) \<times> world" where
  \<comment> \<open>the numbers of bytes written and attempted, if they differ\<close>
  "copy_pieces fp [] bad w = (if bad then Inl OutOfBounds else Inr None, w)"
| "copy_pieces fp (p # ps) bad w =
     (if p = [] then (Inr None, w)
      else (case fwrite_bytes fp p w of
              (result, w1) \<Rightarrow>
                if result \<noteq> length p then (Inr (Some (result, length p)), w1) else copy_pieces fp ps bad w1))"

definition final_mode :: "zip_entry \<Rightarrow> int" where
  "final_mode z = (if opsys z = ZIP_OPSYS_UNIX then uint (drop_bit 16 (attrib z) AND NOT 0x92) else 0x124)"

definition writing_failed :: "cstring \<Rightarrow> nat \<Rightarrow> nat \<Rightarrow> string" where
  "writing_failed name written attempted =
     ''  Writing data to '' @ name @ '' failed'' @ [CHR 0x0A] @ ''   '' @ show_nat written @ '' bytes were written''
     @ [CHR 0x0A] @ ''    '' @ show_nat attempted @ '' bytes were attempted to be written'' @ [CHR 0x0A]
     @ ''    File may be corrupt'' @ [CHR 0x0A]"

definition extract_file :: "host \<Rightarrow> zip_entry \<Rightarrow> cstring \<Rightarrow> engine \<Rightarrow> (fault + bool) \<times> engine" where
  "extract_file h z name e =
     (let w = host_chmod h name 0x1B6 (disk e) in
      if windows h \<and> luaL_convertlstring h name = None then
        (Inr False, say (''  Unable to encode appended full name: '' @ name @ [CHR 0x0A]) (e\<lparr>disk := w\<rparr>))
      else
        (case (if windows h then wfopen_wb (win h) (the (luaL_convertlstring h name)) w else fopen_wb name w) of
           (None, w1) \<Rightarrow> (Inr False, say (creating_failed name) (e\<lparr>disk := w1\<rparr>))
         | (Some fp, w1) \<Rightarrow>
             (case copy_pieces fp (pieces z) (read_fails z) w1 of
                (Inl x, w2) \<Rightarrow> (Inl x, e\<lparr>disk := w2\<rparr>)
              | (Inr (Some (n, k)), w2) \<Rightarrow> (Inr False, say (writing_failed name n k) (e\<lparr>disk := w2\<rparr>))
              | (Inr None, w2) \<Rightarrow> (Inr True, e\<lparr>disk := host_chmod h name (final_mode z) (fclose fp w2)\<rparr>))))"

definition NAME_SIZE :: nat where "NAME_SIZE = 512"

definition extract_entry :: "host \<Rightarrow> cstring \<Rightarrow> zip_entry \<Rightarrow> engine \<Rightarrow> bool outcome" where
  "extract_entry h destination z e =
     (if \<not> openable z then Some (Inr True, e)
      else
        (case store NAME_SIZE (destination @ ''/'' @ entry_name z) of
           Inl x \<Rightarrow> Some (Inl x, e)
         | Inr full \<Rightarrow>
             let name = do_translate full SLASH in
             (case parse_path name of
                Inl x \<Rightarrow> Some (Inl x, e)
              | Inr (filename, directory) \<Rightarrow>
                  Option.bind (do_mkdir h directory (disk e)) (\<lambda>(_, w).
                    let e1 = e\<lparr>disk := w\<rparr> in
                    Some
                      (if is_symlink (opsys z) (attrib z) then extract_link h z name e1
                       else if \<not> is_directory (opsys z) (attrib z) \<and> filename \<noteq> [] then extract_file h z name e1
                       else (Inr True, e1))))))"

primrec extract_entries :: "host \<Rightarrow> cstring \<Rightarrow> zip_entry list \<Rightarrow> engine \<Rightarrow> int outcome" where
  "extract_entries h destination [] e = Some (Inr 0, e)"
| "extract_entries h destination (z # zs) e =
     (case extract_entry h destination z e of
        None \<Rightarrow> None
      | Some (Inl x, e1) \<Rightarrow> Some (Inl x, e1)
      | Some (Inr True, e1) \<Rightarrow> extract_entries h destination zs e1
      | Some (Inr False, e1) \<Rightarrow> Some (Inr (-1), e1))"

definition extract_archive :: "host \<Rightarrow> archives \<Rightarrow> cstring \<Rightarrow> cstring \<Rightarrow> engine \<Rightarrow> int outcome" where
  "extract_archive h zip_open src destination e =
     (case zip_open src (disk e) of
        None \<Rightarrow> Some (Inr (-1), say (src @ '' does not exist'' @ [CHR 0x0A]) e)
      | Some zs \<Rightarrow> extract_entries h destination zs e)"

definition zip_extract :: "host \<Rightarrow> archives \<Rightarrow> lval list \<Rightarrow> engine \<Rightarrow> lval list outcome" where
  "zip_extract h zip_open args e =
     (case bind_f (luaL_checkstring args 1) (\<lambda>src. bind_f (luaL_checkstring args 2) (\<lambda>dst. Inr (src, dst))) of
        Inl x \<Rightarrow> Some (Inl x, e)
      | Inr (src, dst) \<Rightarrow> map_option (\<lambda>(r, e1). (map_sum id (\<lambda>res. [LNum res]) r, e1)) (extract_archive h zip_open src dst e))"

definition zip_list :: "archives \<Rightarrow> lval list \<Rightarrow> world \<Rightarrow> lua_ret" where
  "zip_list zip_open args w =
     bind_f (luaL_checkstring args 1) (\<lambda>src.
       Inr (case zip_open src w of
              None \<Rightarrow> [LTable [], LStr ''Cannot open file'']
            | Some zs \<Rightarrow> [lua_array (map (\<lambda>z. LStr (entry_name z)) zs), LNil]))"

section \<open>Which streams stay open\<close>

definition same_streams :: "world \<Rightarrow> world \<Rightarrow> bool" where
  "same_streams w w' \<longleftrightarrow> open_streams w' = open_streams w \<and> next_stream w' = next_stream w \<and> cwd w' = cwd w
     \<and> clock w' = clock w \<and> umask w' = umask w \<and> disk_full w' = disk_full w"

lemma same_streams_refl [simp]: "same_streams w w"
  by (simp add: same_streams_def)

lemma same_streams_trans: "same_streams u v \<Longrightarrow> same_streams v w \<Longrightarrow> same_streams u w"
  by (simp add: same_streams_def)

lemma same_streams_put [simp]: "same_streams w (put p nd w)"
  by (simp add: same_streams_def open_streams_def)

lemma same_streams_create: "create p nd w = (r, w') \<Longrightarrow> same_streams w w'"
  by (auto simp: create_def split: if_splits option.splits)

lemma same_streams_on_place:
  "on_place r f w = (x, w') \<Longrightarrow> (\<And>p y v. f p w = (y, v) \<Longrightarrow> same_streams w v) \<Longrightarrow> same_streams w w'"
  by (cases r) auto

lemma same_streams_mkdir: "sys_mkdir path m w = (r, w') \<Longrightarrow> same_streams w w'"
  unfolding sys_mkdir_def by (auto split: if_splits elim!: same_streams_on_place dest: same_streams_create)


lemma same_streams_chmod: "\<not> windows h \<Longrightarrow> same_streams w (host_chmod h path m w)"
proof -
  assume "\<not> windows h"
  moreover obtain r w' where c: "sys_chmod path (word_of_int m) w = (r, w')" by fastforce
  moreover have "same_streams w w'"
    using c unfolding sys_chmod_def
    by (auto elim!: same_streams_on_place split: option.splits node.splits)
  ultimately show ?thesis by (simp add: host_chmod_def)
qed

text \<open>On POSIX systems \<open>do_mkdir\<close> always returns, and opens nothing.\<close>

lemma do_mkdir_streams:
  assumes "\<not> windows h"
  obtains z w' where "do_mkdir h path w = Some (z, w')" "same_streams w w'"
proof (induction "length path" arbitrary: path thesis rule: less_induct)
  case less
  note rec = do_mkdir_posix [OF assms, of path w]
  show ?case
  proof (cases "stat w path")
    case (Inr p)
    with rec less.prems show ?thesis by simp
  next
    case (Inl e)
    let ?sub = "case last_separator path of None \<Rightarrow> Some (True, w)
      | Some i \<Rightarrow> if i > 0 then do_mkdir h (take i path) w else Some (True, w)"
    obtain z1 w1 where sub: "?sub = Some (z1, w1)" "same_streams w w1"
    proof (cases "last_separator path")
      case (Some i)
      then have "length (take i path) < length path" using last_separator_less [OF Some] by simp
      from less.hyps [OF this] obtain z1 w1 where "do_mkdir h (take i path) w = Some (z1, w1)" "same_streams w w1"
        by blast
      with Some that show ?thesis by (cases "i > 0") simp_all
    qed (use that in simp)
    obtain r w2 where mk: "sys_mkdir path 0x1FD w1 = (r, w2)" by fastforce
    have s2: "same_streams w w2" using same_streams_trans [OF sub(2) same_streams_mkdir [OF mk]] .
    show ?thesis
    proof (cases z1)
      case True
      then have "do_mkdir h path w = Some (r = Inr (), w2)" using rec Inl sub(1) mk by (simp add: is_ok_def)
      from less.prems [OF this s2] show ?thesis .
    next
      case False
      then have "do_mkdir h path w = Some (False, w1)" using rec Inl sub(1) by simp
      from less.prems [OF this sub(2)] show ?thesis .
    qed
  qed
qed

text \<open>The copying loop writes the pieces before the first empty one.\<close>

definition data_pieces :: "string list \<Rightarrow> string list" where
  "data_pieces ps = takeWhile (\<lambda>p. p \<noteq> []) ps"

lemma copy_pieces_eq:
  "copy_pieces fp ps bad w =
     (case write_pieces (fwrite_bytes fp) (data_pieces ps) w of
        (Some (p, n), w1) \<Rightarrow> (Inr (Some (n, length p)), w1)
      | (None, w1) \<Rightarrow> (if bad \<and> data_pieces ps = ps then Inl OutOfBounds else Inr None, w1))"
  by (induction ps arbitrary: w) (auto simp: data_pieces_def split: prod.splits option.splits)

text \<open>One new stream may be left open, or none.\<close>

definition back_to :: "world \<Rightarrow> world \<Rightarrow> bool" where
  "back_to w w' \<longleftrightarrow> open_streams w' = open_streams w \<and> next_stream w \<le> next_stream w' \<and> cwd w' = cwd w"

definition one_more :: "world \<Rightarrow> world \<Rightarrow> bool" where
  "one_more w w' \<longleftrightarrow> (\<exists>f. \<forall>g. g \<noteq> f \<longrightarrow> open_streams w' g = open_streams w g) \<and> cwd w' = cwd w"

lemma back_to_same: "same_streams w w' \<Longrightarrow> back_to w w'"
  by (simp add: same_streams_def back_to_def)

lemma back_to_trans: "back_to u v \<Longrightarrow> back_to v w \<Longrightarrow> back_to u w"
  by (simp add: back_to_def)


lemma back_to_ok: "back_to w w' \<Longrightarrow> streams_ok w \<Longrightarrow> streams_ok w'"
  by (auto simp: back_to_def streams_ok_def)


lemma fclose_back:
  assumes "streams_ok w" and "f = next_stream w" and "only_file f p (w\<lparr>next_stream := Suc f\<rparr>) w1"
  shows "back_to w (fclose f w1)" and "one_more w w1"
proof -
  have o: "open_streams w1 g = open_streams w g" if "g \<noteq> f" for g
    using assms(3) that by (simp add: only_file_def open_streams_def)
  have "open_streams w f = None" using assms(1,2) by (simp add: streams_ok_def)
  with o have "(open_streams w1)(f := None) = open_streams w" by (auto simp: fun_eq_iff)
  then show "back_to w (fclose f w1)"
    using fclose_effect [where f = f and w = w1] same_filesD(2) [OF fclose_effect(1) [where f = f and w = w1]] assms(2,3)
    by (simp add: back_to_def only_file_def)
  have "cwd w1 = cwd w" using assms(3) by (simp add: only_file_def)
  with o show "one_more w w1" unfolding one_more_def by blast
qed






lemma say_fields [simp]: "disk (say s e) = disk e" "printed (say s e) = printed e @ s"
  by (simp_all add: say_def)



section \<open>What an extraction leaves behind\<close>

text \<open>The abstract effect of one file of an archive: its contents at its place below the destination, and
  a directory at every place on the way that was free.\<close>

definition entry_place :: "place \<Rightarrow> zip_entry \<Rightarrow> place" where
  "entry_place ds z = ds @ comps (entry_name z)"

definition install :: "mode \<Rightarrow> int \<Rightarrow> place \<Rightarrow> zip_entry \<Rightarrow> (place \<Rightarrow> node option) \<Rightarrow> place \<Rightarrow> node option" where
  "install dirs now ds z l q =
     (if q = entry_place ds z then Some (Regular (word_of_int (final_mode z)) now (concat (pieces z)))
      else if l q = None \<and> prefix q (butlast (entry_place ds z)) then Some (Directory dirs)
      else l q)"

text \<open>A file of an archive that is plain data under a plain name, for a given destination.\<close>

definition plain_file :: "place \<Rightarrow> zip_entry \<Rightarrow> bool" where
  "plain_file ds z \<longleftrightarrow> openable z \<and> \<not> is_symlink (opsys z) (attrib z) \<and> \<not> is_directory (opsys z) (attrib z)
     \<and> \<not> read_fails z \<and> [] \<notin> set (pieces z) \<and> plain_way (comps (entry_name z))
     \<and> length (path_of ds @ ''/'' @ entry_name z) < NAME_SIZE"

text \<open>It can be put there: the directories on the way that exist are open, and the place itself is free or a file.\<close>

definition has_place :: "place \<Rightarrow> zip_entry \<Rightarrow> (place \<Rightarrow> node option) \<Rightarrow> bool" where
  "has_place ds z l \<longleftrightarrow>
     (\<forall>q. prefix q (butlast (entry_place ds z)) \<and> l q \<noteq> None \<longrightarrow> (\<exists>m. l q = Some (Directory m) \<and> may_search m \<and> may_write m))
     \<and> (\<forall>nd. l (entry_place ds z) = Some nd \<longrightarrow> (\<exists>m t s. nd = Regular m t s))"

definition ready :: "world \<Rightarrow> bool" where
  "ready w \<longleftrightarrow> wf_world w \<and> cwd_ok w \<and> streams_ok w \<and> \<not> disk_full w \<and> \<not> may_search (umask w) \<and> \<not> may_write (umask w)"

lemma path_of_comps: "ds \<noteq> [] \<Longrightarrow> path_of (ds @ comps n) = path_of ds @ SLASH # n"
proof (induction n arbitrary: ds)
  case Nil
  then show ?case by (simp add: path_of_def)
next
  case (Cons c n)
  show ?case
  proof (cases "c = SLASH")
    case True
    have "path_of ((ds @ [[]]) @ comps n) = path_of (ds @ [[]]) @ SLASH # n" by (rule Cons.IH) simp
    with True Cons.prems show ?thesis by (simp add: path_of_def)
  next
    case False
    obtain v vs where v: "comps n = v # vs" by (cases "comps n") auto
    from Cons.IH [OF Cons.prems] Cons.prems False v show ?thesis by (simp add: path_of_def)
  qed
qed

lemma do_translate_plain: "plain_way cs \<Longrightarrow> do_translate (path_of cs) SLASH = path_of cs"
proof -
  assume "plain_way cs"
  then have "\<forall>x \<in> set (path_of cs). x \<noteq> BACKSLASH" by (auto simp: path_of_def plain_way_def)
  then show ?thesis unfolding do_translate_def by (intro map_idI) auto
qed

lemma file_mode_bits: "may_write 0x1B6"
  by (simp add: may_write_def bit_numeral_word_iff)

text \<open>Opening, writing and closing a file at a place that is free or holds a file.\<close>

lemma extract_file_at:
  assumes "\<not> windows h" and "ready (disk e)" and "\<And>fl. find_place (disk e) fl name = Inr p" and "p \<noteq> []"
    and up: "lookup (disk e) (butlast p) = Some (Directory m)" "may_write m"
    and "\<forall>nd. lookup (disk e) p = Some nd \<longrightarrow> (\<exists>m t s. nd = Regular m t s)"
    and "\<not> read_fails z" and "[] \<notin> set (pieces z)"
  shows "\<exists>w'. extract_file h z name e = (Inr True, e\<lparr>disk := w'\<rparr>)
    \<and> lookup w' = (lookup (disk e))(p \<mapsto> Regular (word_of_int (final_mode z)) (clock (disk e)) (concat (pieces z)))
    \<and> clock w' = clock (disk e) \<and> umask w' = umask (disk e) \<and> ready w'"
proof -
  let ?w = "disk e"
  have wf: "wf_world ?w" "cwd_ok ?w" "streams_ok ?w" "\<not> disk_full ?w" using assms(2) by (simp_all add: ready_def)
  define w1 where "w1 = host_chmod h name 0x1B6 ?w"
  have w1: "same_streams ?w w1" unfolding w1_def by (rule same_streams_chmod [OF assms(1)])
  have l1: "lookup w1 = lookup ?w \<and> lookup ?w p = None
      \<or> (\<exists>t s. lookup w1 = (lookup ?w)(p \<mapsto> Regular 0x1B6 t s) \<and> lookup ?w p \<noteq> None)" and wf1: "wf_world w1"
  proof -
    show "wf_world w1" using wf_sys_chmod [OF wf(1)] assms(1) by (simp add: w1_def host_chmod_def)
    show "lookup w1 = lookup ?w \<and> lookup ?w p = None
      \<or> (\<exists>t s. lookup w1 = (lookup ?w)(p \<mapsto> Regular 0x1B6 t s) \<and> lookup ?w p \<noteq> None)"
    proof (cases "lookup ?w p")
      case None
      then have "stat ?w name = Inl ENOENT" using assms(3) by (simp add: stat_def existing_def)
      with None assms(1) show ?thesis by (simp add: w1_def host_chmod_def sys_chmod_def)
    next
      case (Some nd)
      with assms(7) obtain m t s where r: "lookup ?w p = Some (Regular m t s)" by auto
      then have "stat ?w name = Inr p" using assms(3) by (simp add: stat_def)
      with r assms(1) have "w1 = put p (Regular 0x1B6 t s) ?w" by (simp add: w1_def host_chmod_def sys_chmod_def)
      with r show ?thesis by (auto simp: fun_eq_iff)
    qed
  qed
  have keeps: "find_place v True name = Inr p" if "keeps_paths True ?w v" "cwd v = cwd ?w" for v
    using that assms(3) [of True] walks_keeps [OF that(1)] by (auto simp: find_place_iff split: if_splits)
  have "keeps_paths True ?w w1" using l1 assms(7) by (auto simp: keeps_paths_def plain_node_def split: if_splits)
  then have walk1: "find_place w1 True name = Inr p" using w1 by (intro keeps) (simp_all add: same_streams_def)
  have dirp: "lookup w1 (butlast p) = Some (Directory m)"
    using l1 up assms(4,7) by (metis fun_upd_apply node.distinct(1) option.sel)
  obtain f w2 where o: "fopen_wb name w1 = (Some f, w2)"
    using l1 walk1 dirp up(2) assms(4) file_mode_bits
    by (auto simp: fopen_wb_def create_def parent_mode_def open_stream_def)
  obtain m2 where o2: "f = next_stream w1" "at_end f p w2" "File_System.contents w2 p = []"
      "lookup w2 = (lookup w1)(p \<mapsto> Regular m2 (clock w1) [])" "only_file f p (w1\<lparr>next_stream := Suc f\<rparr>) w2"
    using fopen_wb_at_end [OF o] walk1 by (metis sum.inject(2))
  have room: "\<not> disk_full w2" using o2(5) w1 wf(4) by (simp add: only_file_def same_streams_def)
  obtain w3 where w3: "write_pieces (fwrite_bytes f) (pieces z) w2 = (None, w3)"
    using write_pieces_room [OF o2(2) room] by blast
  have w3p: "at_end f p w3" "File_System.contents w3 p = concat (pieces z)"
    using stream.write_pieces_all [OF w3 o2(2)] o2(3) by simp_all
  note w3o = only_file_trans [OF o2(5) write_pieces_only [OF w3 o2(2)]]
  have l3: "\<exists>m3. lookup w3 = (lookup ?w)(p \<mapsto> Regular m3 (clock ?w) (concat (pieces z)))"
    using w3p w3o l1 w1
    by (auto simp: at_end_def File_System.contents_def only_file_def same_streams_def fun_eq_iff lookup_def)
  define w4 where "w4 = fclose f w3"
  note s4 = same_filesD [OF fclose_effect(1) [where f = f and w = w3], folded w4_def]
  have dp: "data_pieces (pieces z) = pieces z"
    using assms(9) by (auto simp: data_pieces_def takeWhile_eq_all_conv)
  define w5 where "w5 = host_chmod h name (final_mode z) w4"
  have run: "extract_file h z name e = (Inr True, e\<lparr>disk := w5\<rparr>)"
    using assms(1,8) o w3 dp by (simp add: extract_file_def copy_pieces_eq w1_def w4_def w5_def Let_def)
  obtain m3 where l4: "lookup w4 = (lookup ?w)(p \<mapsto> Regular m3 (clock ?w) (concat (pieces z)))"
    using l3 s4(7) by auto
  have b4: "back_to w1 w4"
    unfolding w4_def using back_to_ok [OF back_to_same [OF w1] wf(3)] o2(1) w3o by (rule fclose_back(1))
  have "keeps_paths True ?w w4" using l4 assms(7) by (auto simp: keeps_paths_def plain_node_def)
  then have walk4: "find_place w4 True name = Inr p"
    using w1 b4 by (intro keeps) (simp_all add: same_streams_def back_to_def)
  have wf4: "wf_world w4"
  proof -
    have "cwd_ok w1" using wf(2) w1 l1 by (auto simp: cwd_ok_def same_streams_def is_link_iff split: if_splits)
    from wf_fopen_wb [OF wf1 this, of name] o have "wf_world w2" by simp
    from write_pieces_wf [OF w3 this] show ?thesis unfolding w4_def by (rule wf_fclose)
  qed
  have w5: "w5 = put p (Regular (word_of_int (final_mode z)) (clock ?w) (concat (pieces z))) w4"
  proof -
    have "stat w4 name = Inr p" using walk4 l4 by (simp add: stat_def)
    with assms(1) l4 show ?thesis by (simp add: w5_def host_chmod_def sys_chmod_def)
  qed
  have l5: "lookup w5 = (lookup ?w)(p \<mapsto> Regular (word_of_int (final_mode z)) (clock ?w) (concat (pieces z)))"
    using w5 l4 by auto
  have same5: "clock w5 = clock ?w" "umask w5 = umask ?w" "disk_full w5 = disk_full ?w"
    using w5 w1 w3o s4 by (simp_all add: same_streams_def only_file_def)
  have b5: "back_to ?w w5"
    using back_to_trans [OF back_to_same [OF w1] b4] w5 by (simp add: back_to_def open_streams_def)
  have "wf_world w5" unfolding w5 by (rule wf_replace [OF wf4]) (use l4 in auto)
  moreover have "cwd_ok w5" using wf(2) b5 l5 by (auto simp: cwd_ok_def back_to_def is_link_iff split: if_splits)
  ultimately have "ready w5" using assms(2) back_to_ok [OF b5 wf(3)] same5 by (simp add: ready_def)
  with run l5 same5 show ?thesis by blast
qed

lemma entry_place_plain:
  assumes "plain_file ds z"
  shows "entry_place ds z \<noteq> []" and "last (entry_place ds z) \<noteq> []" and "SLASH \<notin> set (last (entry_place ds z))"
    and "butlast (entry_place ds z) = ds @ butlast (comps (entry_name z))"
proof -
  have c: "comps (entry_name z) \<noteq> []" by simp
  then have "last (entry_place ds z) \<in> set (comps (entry_name z))" by (simp add: entry_place_def)
  with assms show "last (entry_place ds z) \<noteq> []" "SLASH \<notin> set (last (entry_place ds z))"
    by (auto simp: plain_file_def plain_way_def file_name_def)
  show "entry_place ds z \<noteq> []" "butlast (entry_place ds z) = ds @ butlast (comps (entry_name z))"
    using c by (simp_all add: entry_place_def butlast_append)
qed

lemma extract_entry_plain:
  assumes "\<not> windows h" and "ready (disk e)" and "plain_way ds" and "ds \<noteq> []" and "plain_file ds z"
    and "has_place ds z (lookup (disk e))"
  shows "\<exists>w'. extract_entry h (path_of ds) z e = Some (Inr True, e\<lparr>disk := w'\<rparr>) \<and> ready w'
    \<and> lookup w' = install (0x1FD AND NOT (umask (disk e))) (clock (disk e)) ds z (lookup (disk e))
    \<and> clock w' = clock (disk e) \<and> umask w' = umask (disk e)"
proof -
  let ?w = "disk e" and ?p = "entry_place ds z"
  let ?up = "butlast ?p"
  note p = entry_place_plain [OF assms(5)]
  have plain: "plain_way ?p" using assms(3,5) by (auto simp: plain_way_def entry_place_def plain_file_def)
  then have plain_up: "plain_way ?up" by (auto simp: plain_way_def dest: in_set_butlastD)
  have upne: "?up \<noteq> []" using p(4) assms(4) by simp
  have rdy: "wf_world ?w" "cwd_ok ?w" "streams_ok ?w" "\<not> may_search (umask ?w)" "\<not> may_write (umask ?w)" "\<not> disk_full ?w"
    using assms(2) by (simp_all add: ready_def)
  have openw: "open_way ?w ?up" using assms(6) by (auto simp: open_way_def has_place_def)
  have name: "path_of ?p = path_of ds @ SLASH # entry_name z"
    using path_of_comps [OF assms(4)] by (simp add: entry_place_def)
  have split: "path_of ?p = path_of ?up @ SLASH # last ?p"
    using path_of_snoc [of ?up "last ?p"] p(1) upne by simp
  obtain w1 where mk: "do_mkdir h (path_of ?up @ ''/'') ?w = Some (lookup ?w ?up \<noteq> None, w1)" "grows ?w w1"
      "\<forall>q. lookup w1 q = with_way ?w ?up q"
    using do_mkdir_trailing [OF assms(1) rdy(1,2,4,5) openw plain_up upne] by blast
  have s1: "same_streams ?w w1" by (rule do_mkdir_streams [OF assms(1), of "path_of ?up @ ''/''" ?w]) (simp add: mk)
  let ?e1 = "e\<lparr>disk := w1\<rparr>"
  have r1: "ready (disk ?e1)"
    using mk(2) s1 rdy by (auto simp: ready_def grows_def same_streams_def streams_ok_def)
  have open1: "open_way w1 ?up" using open_way_with [OF openw rdy(4,5) mk(3)] by simp
  have up1: "lookup w1 ?up \<noteq> None" using mk(3) by (simp add: with_way_def)
  have notp: "\<not> prefix ?p ?up" using p(1) by (metis append_butlast_last_id not_Cons_self2 prefix_order.antisym prefixeq_butlast self_append_conv)
  then have atp: "lookup w1 ?p = lookup ?w ?p" using mk(3) by (simp add: with_way_def)
  obtain w' where x: "extract_file h z (path_of ?p) ?e1 = (Inr True, ?e1\<lparr>disk := w'\<rparr>)"
      "lookup w' = (lookup w1)(?p \<mapsto> Regular (word_of_int (final_mode z)) (clock w1) (concat (pieces z)))"
      "clock w' = clock w1" "umask w' = umask w1" "ready w'"
  proof -
    have "find_place w1 fl (path_of ?p) = Inr ?p" for fl
      using r1 open1 plain p(1) up1 atp assms(6)
      by (intro way_find_target) (auto simp: ready_def is_link_iff has_place_def)
    moreover obtain m where "lookup w1 ?up = Some (Directory m)" "may_write m"
      using open_way_dir [OF open1 _ up1] by auto
    ultimately show thesis
      using extract_file_at [OF assms(1) r1, of "path_of ?p" ?p m z] p(1) atp assms(5,6) that
      by (auto simp: plain_file_def has_place_def)
  qed
  have st: "store NAME_SIZE (path_of ?p) = Inr (path_of ?p)"
    using assms(5) by (simp add: name plain_file_def)
  have "parse_path (path_of ?p) = Inr (last ?p, path_of ?up @ ''/'')"
    using parse_path_split [OF p(3), of "path_of ?up"] split by simp
  then have run: "extract_entry h (path_of ds) z e = Some (Inr True, e\<lparr>disk := w'\<rparr>)"
    using st mk(1) x(1) assms(5) p(2) do_translate_plain [OF plain]
    by (simp add: extract_entry_def plain_file_def name [symmetric] Let_def del: store_Inr store_ok)
  have "lookup w' = install (0x1FD AND NOT (umask ?w)) (clock ?w) ds z (lookup ?w)"
    using x(2) mk(3) s1 by (auto simp: install_def with_way_def dir_node_def same_streams_def fun_eq_iff)
  then show ?thesis using run x(3-5) s1 by (auto simp: same_streams_def)
qed

text \<open>No file of the archive is a directory for another one.\<close>

definition no_clash :: "place \<Rightarrow> zip_entry list \<Rightarrow> bool" where
  "no_clash ds zs \<longleftrightarrow> (\<forall>x \<in> set zs. \<forall>y \<in> set zs. \<not> strict_prefix (entry_place ds x) (entry_place ds y))"

lemma prefix_butlast: "x \<noteq> [] \<Longrightarrow> prefix q (butlast x) \<longleftrightarrow> strict_prefix q x"
  by (cases x rule: rev_cases) (auto simp: strict_prefix_def)

lemma has_place_install:
  assumes "has_place ds y l" and "\<not> strict_prefix (entry_place ds x) (entry_place ds y)"
    and "\<not> strict_prefix (entry_place ds y) (entry_place ds x)" and "may_search m" and "may_write m"
    and "ds \<noteq> []"
  shows "has_place ds y (install m t ds x l)"
proof -
  have ne: "entry_place ds z \<noteq> []" for z using assms(6) by (simp add: entry_place_def)
  show ?thesis
    using assms(1-5) unfolding has_place_def install_def prefix_butlast [OF ne] by (auto split: if_splits)
qed

lemma extract_entries_plain:
  assumes "\<not> windows h" and "plain_way ds" and "ds \<noteq> []"
  shows "ready (disk e) \<Longrightarrow> \<forall>z \<in> set zs. plain_file ds z \<and> has_place ds z (lookup (disk e)) \<Longrightarrow> no_clash ds zs \<Longrightarrow>
    \<exists>e'. extract_entries h (path_of ds) zs e = Some (Inr 0, e') \<and> printed e' = printed e \<and>
      lookup (disk e') = foldl (\<lambda>l z. install (0x1FD AND NOT (umask (disk e))) (clock (disk e)) ds z l) (lookup (disk e)) zs"
proof (induction zs arbitrary: e)
  case (Cons z zs)
  let ?m = "0x1FD AND NOT (umask (disk e))"
  obtain w' where z: "extract_entry h (path_of ds) z e = Some (Inr True, e\<lparr>disk := w'\<rparr>)" "ready w'"
    "lookup w' = install ?m (clock (disk e)) ds z (lookup (disk e))" "clock w' = clock (disk e)" "umask w' = umask (disk e)"
    using extract_entry_plain [OF assms(1) Cons.prems(1) assms(2,3), of z] Cons.prems(2) by auto
  have bits: "may_search ?m" "may_write ?m" using Cons.prems(1) by (simp_all add: ready_def search_mkdir_mode)
  have "\<forall>y \<in> set zs. plain_file ds y \<and> has_place ds y (lookup w')"
    using Cons.prems(2,3) bits assms(3) z(3) by (auto simp: no_clash_def intro!: has_place_install)
  moreover have "no_clash ds zs" using Cons.prems(3) by (simp add: no_clash_def)
  ultimately show ?case using Cons.IH [of "e\<lparr>disk := w'\<rparr>"] z by simp
qed simp

text \<open>C6: The extraction of an archive of plain files into a plain directory on a POSIX system is the abstract
  installation of its files, one after the other: each ends up below the destination with its contents, its
  mode without the permission to write and the present time, the directories on the way are made, the
  last of several files of one name wins, and nothing else changes. Nothing is printed and the result is 0.\<close>

theorem zip_extract_installs:
  assumes "is_posix (plat h)" and "ready (disk e)" and "plain_way ds" and "ds \<noteq> []"
    and "is_cstring src" and "zip_open src (disk e) = Some zs"
    and "\<forall>z \<in> set zs. plain_file ds z \<and> has_place ds z (lookup (disk e))" and "no_clash ds zs"
  shows "\<exists>e'. zip_extract h zip_open [LStr src, LStr (path_of ds)] e = Some (Inr [LNum 0], e') \<and> printed e' = printed e \<and>
    lookup (disk e') = foldl (\<lambda>l z. install (0x1FD AND NOT (umask (disk e))) (clock (disk e)) ds z l) (lookup (disk e)) zs"
proof -
  have "\<not> windows h" using assms(1) by (auto simp: is_posix_def)
  from extract_entries_plain [OF this assms(3,4,2,7,8)] obtain e' where
    "extract_entries h (path_of ds) zs e = Some (Inr 0, e')" "printed e' = printed e"
    "lookup (disk e') = foldl (\<lambda>l z. install (0x1FD AND NOT (umask (disk e))) (clock (disk e)) ds z l) (lookup (disk e)) zs"
    by blast
  moreover have "is_cstring (path_of ds)" using assms(3) by (auto simp: plain_way_def path_of_def is_cstring_def)
  ultimately show ?thesis using assms(5,6) by (simp add: zip_extract_def extract_archive_def)
qed

section \<open>Names that climb\<close>

lemma walks_on:
  assumes "\<forall>c \<in> set cs. file_name c"
    and "\<forall>k \<le> length cs. \<exists>m. lookup w (cur @ take k cs) = Some (Directory m) \<and> may_search m"
    and "walks w fl n (cur @ cs) rest q"
  shows "walks w fl n cur (cs @ rest) q"
  using assms
proof (induction cs arbitrary: cur)
  case (Cons c cs)
  obtain m where m: "lookup w cur = Some (Directory m)" "may_search m" using Cons.prems(2) by auto
  obtain m1 where m1: "lookup w (cur @ [c]) = Some (Directory m1)"
    using Cons.prems(2) [rule_format, of 1] by auto
  have "walks w fl n (cur @ [c]) (cs @ rest) q"
  proof (rule Cons.IH)
    show "\<forall>k \<le> length cs. \<exists>m. lookup w ((cur @ [c]) @ take k cs) = Some (Directory m) \<and> may_search m"
      using Cons.prems(2) [rule_format, of "Suc k" for k] by auto
  qed (use Cons.prems in simp_all)
  with m m1 Cons.prems(1) show ?case
    by (auto intro!: walks.down [OF m _ m1] simp: file_name_def)
qed simp

text \<open>Through a directory and back up again leads to where it is.\<close>

lemma climb_walks:
  assumes "wf_world w" and "plain_way (ds @ [d])" and "open_way w (ds @ [d])" and "lookup w (ds @ [d]) \<noteq> None"
  obtains mu where "lookup w ds = Some (Directory mu)" "may_search mu" "may_write mu"
    "\<And>fl n rest q. walks w fl n ds rest q \<Longrightarrow> walks w fl n [] ([] # ds @ [d] @ ''..'' # rest) q"
proof -
  have dirs: "\<exists>m. lookup w q = Some (Directory m) \<and> may_search m \<and> may_write m" if "prefix q (ds @ [d])" for q
    using way_parents [OF assms(1,4) that] open_way_dir [OF assms(3) that] by blast
  have on: "walks w fl n [] (ds @ [d] @ rest) q" if "walks w fl n (ds @ [d]) rest q" for fl n rest q
  proof -
    have "walks w fl n [] ((ds @ [d]) @ rest) q"
    proof (rule walks_on)
      show "\<forall>k \<le> length (ds @ [d]). \<exists>m. lookup w ([] @ take k (ds @ [d])) = Some (Directory m) \<and> may_search m"
        using dirs [OF take_is_prefix] by (simp only: append_Nil) blast
    qed (use that assms(2) in \<open>simp_all add: plain_way_def\<close>)
    then show ?thesis by simp
  qed
  obtain md where md: "lookup w (ds @ [d]) = Some (Directory md)" "may_search md" using dirs [of "ds @ [d]"] by auto
  obtain mu where mu: "lookup w ds = Some (Directory mu)" "may_search mu" "may_write mu" using dirs [of ds] by auto
  obtain mr where mr: "lookup w [] = Some (Directory mr)" "may_search mr" using dirs [of "[]"] by auto
  have up: "walks w fl n ds rest q \<Longrightarrow> walks w fl n [] ([] # ds @ [d] @ ''..'' # rest) q" for fl n rest q
    using on [OF walks.up [OF md]] mr by (auto intro: walks.stay)
  with that mu show thesis by blast
qed

lemma climb_places:
  assumes "wf_world w" and "plain_way (ds @ [d, c])" and "open_way w (ds @ [d])" and "lookup w (ds @ [d]) \<noteq> None"
    and "\<forall>nd. lookup w (ds @ [c]) = Some nd \<longrightarrow> (\<exists>m t s. nd = Regular m t s)"
  obtains mu where "lookup w ds = Some (Directory mu)" "may_write mu"
    "\<And>fl. find_place w fl (path_of (ds @ [d]) @ ''/../'' @ c) = Inr (ds @ [c])" "stat w (path_of (ds @ [d]) @ ''/../'') = Inr ds"
proof -
  let ?D = "path_of (ds @ [d])" and ?p = "ds @ [c]"
  have plain: "plain_way (ds @ [d])" and c: "file_name c" "SLASH \<notin> set c"
    using assms(2) by (auto simp: plain_way_def file_name_def)
  obtain mu where mu: "lookup w ds = Some (Directory mu)" "may_search mu" "may_write mu"
    and up: "\<And>fl n rest q. walks w fl n ds rest q \<Longrightarrow> walks w fl n [] ([] # ds @ [d] @ ''..'' # rest) q"
    by (rule climb_walks [OF assms(1) plain assms(3,4)]) blast
  have cm: "comps (?D @ ''/../'' @ r) = [] # ds @ [d] @ ''..'' # comps r" for r
  proof -
    have s: "\<forall>x \<in> set (ds @ [d]). SLASH \<notin> set x" using plain by (auto simp: plain_way_def file_name_def)
    have "comps (?D @ ''/../'' @ r) = comps ?D @ comps (''../'' @ r)"
      using comps_append_slash [of ?D "''../'' @ r"] by simp
    also have "comps (''../'' @ r) = ''..'' # comps r" by simp
    finally show ?thesis using comps_path_of [OF s] by simp
  qed
  have rooted: "is_rooted (?D @ t)" for t
    using path_of_rooted [of "ds @ [d]"] by (cases ?D) (simp_all add: is_rooted_def)
  have "find_place w fl (?D @ ''/../'' @ c) = Inr ?p" for fl
  proof -
    have "walks w fl SYMLOOP_MAX ds [c] ?p"
    proof (cases "lookup w ?p")
      case None
      then show ?thesis using mu c(1) by (auto intro: walks.free simp: file_name_def)
    next
      case (Some nd)
      then show ?thesis
        using assms(5) mu c(1) by (intro walks.down [OF mu(1,2) _ Some] walks.here) (auto simp: file_name_def)
    qed
    from up [OF this] show ?thesis using rooted by (simp only: find_place_iff cm [of c] comps_name [OF c(2)]) simp
  qed
  moreover have "walks w True SYMLOOP_MAX ds [[]] ds" using mu by (auto intro: walks.intros)
  from up [OF this] have "stat w (?D @ ''/../'') = Inr ds"
    using rooted mu(1) cm [of "[]", simplified] by (simp add: stat_def find_place_iff)
  ultimately show thesis using that mu by blast
qed

text \<open>C24: The names of an archive are not confined to the destination. A file whose name begins with \<open>..\<close> is
  written beside the destination, over a file that was there if there was one, on every POSIX system and
  for every such name, and the extraction reports success.\<close>

theorem zip_extract_climbs:
  assumes "is_posix (plat h)" and "ready (disk e)" and "plain_way (ds @ [d, c])" and "open_way (disk e) (ds @ [d])"
    and "lookup (disk e) (ds @ [d]) \<noteq> None" and "\<forall>nd. lookup (disk e) (ds @ [c]) = Some nd \<longrightarrow> (\<exists>m t s. nd = Regular m t s)"
    and "is_cstring src" and "zip_open src (disk e) = Some [z]" and "entry_name z = ''../'' @ c"
    and "openable z \<and> \<not> is_symlink (opsys z) (attrib z) \<and> \<not> is_directory (opsys z) (attrib z) \<and> \<not> read_fails z
       \<and> [] \<notin> set (pieces z)" and "length (path_of (ds @ [d]) @ ''/../'' @ c) < 512"
  shows "\<exists>e'. zip_extract h zip_open [LStr src, LStr (path_of (ds @ [d]))] e = Some (Inr [LNum 0], e')
    \<and> \<not> prefix (ds @ [d]) (ds @ [c])
    \<and> lookup (disk e') = (lookup (disk e))(ds @ [c] \<mapsto> Regular (word_of_int (final_mode z)) (clock (disk e)) (concat (pieces z)))"
proof -
  let ?w = "disk e" and ?D = "path_of (ds @ [d])" and ?p = "ds @ [c]"
  have nw: "\<not> windows h" using assms(1) by (auto simp: is_posix_def)
  have wf: "wf_world ?w" using assms(2) by (simp add: ready_def)
  have plain: "plain_way (ds @ [d])" and c: "BACKSLASH \<notin> set c" "SLASH \<notin> set c" "c \<noteq> []"
    using assms(3) by (auto simp: plain_way_def file_name_def)
  obtain mu where mu: "lookup ?w ds = Some (Directory mu)" "may_write mu"
    and at: "\<And>fl. find_place ?w fl (?D @ ''/../'' @ c) = Inr ?p" and up: "stat ?w (?D @ ''/../'') = Inr ds"
    by (rule climb_places [OF wf assms(3-6)]) blast
  have mk: "do_mkdir h (?D @ ''/../'') ?w = Some (True, ?w)"
    using do_mkdir_posix [OF nw, of "?D @ ''/../''" ?w] mu(1) up by (simp add: is_dir_iff)
  obtain w' where x: "extract_file h z (?D @ ''/../'' @ c) e = (Inr True, e\<lparr>disk := w'\<rparr>)"
      "lookup w' = (lookup ?w)(?p \<mapsto> Regular (word_of_int (final_mode z)) (clock ?w) (concat (pieces z)))"
    using extract_file_at [OF nw assms(2) at _ _ mu(2) assms(6), of z] mu(1) assms(10) by auto
  have st: "store NAME_SIZE (?D @ ''/'' @ entry_name z) = Inr (?D @ ''/../'' @ c)"
    using assms(9,11) by (simp add: NAME_SIZE_def)
  have "do_translate c SLASH = c" unfolding do_translate_def by (intro map_idI) (use c(1) in auto)
  then have tr: "do_translate (?D @ ''/../'' @ c) SLASH = ?D @ ''/../'' @ c"
    using do_translate_plain [OF plain] by (simp add: do_translate_def)
  have pp: "parse_path (?D @ ''/../'' @ c) = Inr (c, ?D @ ''/../'')"
    using parse_path_split [OF c(2), of "?D @ ''/..''"] by simp
  have "extract_entry h ?D z e = Some (Inr True, e\<lparr>disk := w'\<rparr>)"
    unfolding extract_entry_def st using assms(10) tr pp mk x(1) c(3) by (simp add: Let_def)
  moreover have "is_cstring ?D" using plain by (auto simp: plain_way_def path_of_def is_cstring_def)
  moreover have "\<exists>m. lookup ?w (ds @ [d]) = Some (Directory m)" using open_way_dir [OF assms(4)] assms(5) by blast
  then have "c \<noteq> d" using assms(6) by auto
  ultimately show ?thesis using assms(7,8) x(2) by (simp add: zip_extract_def extract_archive_def)
qed

text \<open>Concrete archives.\<close>

definition sample_entry :: "cstring \<Rightarrow> zip_entry" where
  "sample_entry n = \<lparr>entry_name = n, openable = True, opsys = 3, attrib = push_bit 16 0x81A4, pieces = [''ab'', ''c''], read_fails = False\<rparr>"

lemma sample_entry_simps [simp]:
  "entry_name (sample_entry n) = n" "openable (sample_entry n)" "pieces (sample_entry n) = [''ab'', ''c'']"
  "\<not> read_fails (sample_entry n)" "\<not> is_symlink (opsys (sample_entry n)) (attrib (sample_entry n))"
  "\<not> is_directory (opsys (sample_entry n)) (attrib (sample_entry n))"
  by (simp_all add: sample_entry_def is_symlink_def is_directory_def ZIP_OPSYS_DOS_def ZIP_OPSYS_UNIX_def
      FA_IFLNK_def FA_IFDIR_def)

lemma sample_ready: "ready (disk sample_engine)"
  by (simp add: ready_def streams_ok_def open_streams_def) (simp add: sample_world_def)

lemma sample_mode [simp]: "(word_of_int (final_mode (sample_entry n)) :: mode) = 0x124"
  by (simp add: final_mode_def sample_entry_def ZIP_OPSYS_UNIX_def)

theorem zip_extract_installs_witness:
  "\<exists>e'. zip_extract (sample_host Linux) (\<lambda>_ _. Some [sample_entry ''x/y'']) [LStr ''a.zip'', LStr ''/home''] sample_engine
      = Some (Inr [LNum 0], e')
    \<and> lookup (disk e') [''home'', ''x'', ''y''] = Some (Regular 0x124 100 ''abc'')
    \<and> lookup (disk e') [''home'', ''x''] = Some (Directory 0x1ED)
    \<and> lookup (disk e') [''home'', ''a.txt''] = Some (Regular 0x1A4 7 ''abc'')"
proof -
  let ?z = "sample_entry ''x/y''"
  have h: "is_posix (plat (sample_host Linux))" by (simp add: is_posix_def)
  have p: "path_of [''home''] = ''/home''" by (simp add: path_of_def)
  have pw: "plain_way [''home'']" by (simp add: plain_way_def file_name_def)
  have pl: "entry_place [''home''] ?z = [''home'', ''x'', ''y'']" by (simp add: entry_place_def)
  have f: "\<forall>z \<in> set [?z]. plain_file [''home''] z \<and> has_place [''home''] z (lookup (disk sample_engine))"
    by (simp add: plain_file_def plain_way_def file_name_def path_of_def NAME_SIZE_def has_place_def pl lookup_sample prefix_Cons)
  have nc: "no_clash [''home''] [?z]" by (simp add: no_clash_def)
  have u: "umask sample_world = 0x12" "clock sample_world = 100" by (simp_all add: sample_world_def)
  from zip_extract_installs [OF h sample_ready pw _ _ _ f nc, of "''a.zip''" "\<lambda>_ _. Some [?z]"]
  show ?thesis by (auto simp: p install_def pl u lookup_sample)
qed

theorem zip_extract_climbs_witness:
  "\<exists>e'. zip_extract (sample_host Linux) (\<lambda>_ _. Some [sample_entry ''../x'']) [LStr ''a.zip'', LStr ''/home''] sample_engine
      = Some (Inr [LNum 0], e') \<and> lookup (disk e') [''x''] = Some (Regular 0x124 100 ''abc'')"
proof -
  have h: "is_posix (plat (sample_host Linux))" by (simp add: is_posix_def)
  have p: "path_of [''home''] = ''/home''" by (simp add: path_of_def)
  have pw: "plain_way ([] @ [''home'', ''x''])" by (simp add: plain_way_def file_name_def)
  have o: "open_way (disk sample_engine) ([] @ [''home''])"
    unfolding open_way_def by (auto simp: lookup_sample prefix_Cons)
  have u: "clock sample_world = 100" by (simp add: sample_world_def)
  from zip_extract_climbs [OF h sample_ready pw o, of "''a.zip''" "\<lambda>_ _. Some [sample_entry ''../x'']" "sample_entry ''../x''"]
  show ?thesis by (auto simp: p u lookup_sample)
qed
section \<open>Kinds of entries\<close>

text \<open>The tests compare bits that several file types share. Of the types of UNIX entries, exactly the links
  are taken for links, but besides the directories also block devices and sockets for directories.\<close>

lemma unix_type_bits:
  fixes t p m :: "32 word"
  assumes "p AND 0xF000 = 0" and "0xF000 AND m = m"
  shows "drop_bit 16 (push_bit 16 (t OR p)) AND m = t AND m"
proof -
  have "drop_bit 16 (push_bit 16 (t OR p)) = (t OR p) AND mask 16"
    by (rule bit_word_eqI) (auto simp: bit_simps)
  then have "drop_bit 16 (push_bit 16 (t OR p)) = (t OR p) AND 0xFFFF" by (simp add: mask_eq_exp_minus_1)
  moreover have "0xFFFF AND m = m"
  proof -
    have "0xFFFF AND m = 0xFFFF AND (0xF000 AND m)" using assms(2) by simp
    also have "\<dots> = (0xFFFF AND 0xF000) AND m" by (simp only: and.assoc)
    finally show ?thesis using assms(2) by simp
  qed
  moreover have "p AND m = (p AND 0xF000) AND m" using assms(2) by (simp add: and.assoc)
  ultimately show ?thesis using assms(1) by (simp add: and.assoc bit.conj_disj_distrib2)
qed

lemma zip_unix_kinds:
  assumes "t \<in> {0x1000, 0x2000, FA_IFDIR, 0x6000, 0x8000, FA_IFLNK, 0xC000}" and "p AND 0xF000 = 0"
  shows "is_symlink ZIP_OPSYS_UNIX (push_bit 16 (t OR p)) \<longleftrightarrow> t = FA_IFLNK"
    and "is_directory ZIP_OPSYS_UNIX (push_bit 16 (t OR p)) \<longleftrightarrow> t \<in> {FA_IFDIR, 0x6000, 0xC000}"
proof -
  note bits = unix_type_bits [OF assms(2), of FA_IFLNK t] unix_type_bits [OF assms(2), of FA_IFDIR t]
  show "is_symlink ZIP_OPSYS_UNIX (push_bit 16 (t OR p)) \<longleftrightarrow> t = FA_IFLNK"
    using assms(1) bits by (auto simp: is_symlink_def ZIP_OPSYS_UNIX_def ZIP_OPSYS_DOS_def FA_IFLNK_def FA_IFDIR_def)
  show "is_directory ZIP_OPSYS_UNIX (push_bit 16 (t OR p)) \<longleftrightarrow> t \<in> {FA_IFDIR, 0x6000, 0xC000}"
    using assms(1) bits by (auto simp: is_directory_def ZIP_OPSYS_UNIX_def ZIP_OPSYS_DOS_def FA_IFLNK_def FA_IFDIR_def)
qed

end
