(* ===== verification/Registry.thy ===== *)
theory Registry
  imports Host_API
begin

text \<open>
  \<open>src/host/os_getWindowsRegistry.c\<close> and \<open>src/host/os_listWindowsRegistry.c\<close>: reading a value of the
  Windows registry, and listing a key. The registry is a parameter, a record of the functions of the
  Windows API that the code calls, and it does not change during a call of the host. Values are the
  bytes that the API delivers; \<open>wchar_t\<close> is a word of 16 bits, low byte first. Elsewhere both functions
  return nil.
\<close>

section \<open>The registry\<close>

datatype hkey =
    HKEY_CURRENT_USER | HKEY_LOCAL_MACHINE | HKEY_CLASSES_ROOT | HKEY_USERS | HKEY_CURRENT_CONFIG

record key_info =
  numSubkeys :: nat
  maxSubkeyLength :: nat
  numValues :: nat
  maxValueNameLength :: nat
  maxValueLength :: nat

record winreg =
  RegOpenKeyExW :: "hkey \<Rightarrow> wstring \<Rightarrow> nat option"
  RegQueryValueExW :: "nat \<Rightarrow> wstring \<Rightarrow> (nat \<times> string) option" \<comment> \<open>type and bytes\<close>
  RegQueryInfoKeyW :: "nat \<Rightarrow> key_info option"
  RegEnumKeyExW :: "nat \<Rightarrow> nat \<Rightarrow> nat \<Rightarrow> wstring option" \<comment> \<open>key, index, room for the name\<close>
  RegEnumValueW :: "nat \<Rightarrow> nat \<Rightarrow> nat \<Rightarrow> nat \<Rightarrow> (wstring \<times> nat \<times> string) option" \<comment> \<open>and room for the value\<close>

definition REG_NONE :: nat where "REG_NONE = 0"
definition REG_SZ :: nat where "REG_SZ = 1"
definition REG_EXPAND_SZ :: nat where "REG_EXPAND_SZ = 2"
definition REG_BINARY :: nat where "REG_BINARY = 3"
definition REG_DWORD :: nat where "REG_DWORD = 4"
definition REG_DWORD_BIG_ENDIAN :: nat where "REG_DWORD_BIG_ENDIAN = 5"
definition REG_LINK :: nat where "REG_LINK = 6"
definition REG_MULTI_SZ :: nat where "REG_MULTI_SZ = 7"
definition REG_RESOURCE_LIST :: nat where "REG_RESOURCE_LIST = 8"
definition REG_FULL_RESOURCE_DESCRIPTOR :: nat where "REG_FULL_RESOURCE_DESCRIPTOR = 9"
definition REG_RESOURCE_REQUIREMENTS_LIST :: nat where "REG_RESOURCE_REQUIREMENTS_LIST = 10"
definition REG_QWORD :: nat where "REG_QWORD = 11"

lemmas reg_types =
  REG_NONE_def REG_SZ_def REG_EXPAND_SZ_def REG_BINARY_def REG_DWORD_def REG_DWORD_BIG_ENDIAN_def REG_LINK_def
  REG_MULTI_SZ_def REG_RESOURCE_LIST_def REG_FULL_RESOURCE_DESCRIPTOR_def REG_RESOURCE_REQUIREMENTS_LIST_def REG_QWORD_def

definition getTypeString :: "nat \<Rightarrow> string" where
  "getTypeString t =
     (if t = REG_NONE then ''REG_NONE''
      else if t = REG_SZ then ''REG_SZ''
      else if t = REG_EXPAND_SZ then ''REG_EXPAND_SZ''
      else if t = REG_BINARY then ''REG_BINARY''
      else if t = REG_DWORD then ''REG_DWORD''
      else if t = REG_DWORD_BIG_ENDIAN then ''REG_DWORD_BIG_ENDIAN''
      else if t = REG_LINK then ''REG_LINK''
      else if t = REG_MULTI_SZ then ''REG_MULTI_SZ''
      else if t = REG_RESOURCE_LIST then ''REG_RESOURCE_LIST''
      else if t = REG_FULL_RESOURCE_DESCRIPTOR then ''REG_FULL_RESOURCE_DESCRIPTOR''
      else if t = REG_RESOURCE_REQUIREMENTS_LIST then ''REG_RESOURCE_REQUIREMENTS_LIST''
      else if t = REG_QWORD then ''REG_QWORD''
      else ''Unknown'')"

section \<open>Wide strings\<close>

definition WBACKSLASH :: "16 word" where "WBACKSLASH = 0x5C"

definition wide :: "string \<Rightarrow> wstring" where
  "wide s = map (\<lambda>c. word_of_nat (code c)) s"

definition wtolower :: "16 word \<Rightarrow> 16 word" where
  "wtolower c = (if 65 \<le> c \<and> c \<le> 90 then c + 32 else c)"

definition wcsnicmp_eq :: "wstring \<Rightarrow> wstring \<Rightarrow> nat \<Rightarrow> bool" where
  \<comment> \<open>\<open>_wcsnicmp(a, b, n) == 0\<close>\<close>
  "wcsnicmp_eq a b n \<longleftrightarrow> map wtolower (take n a) = map wtolower (take n b)"

primrec wcsrchr :: "wstring \<Rightarrow> 16 word \<Rightarrow> wstring option" where
  "wcsrchr [] c = None"
| "wcsrchr (x # xs) c =
     (case wcsrchr xs c of Some r \<Rightarrow> Some r | None \<Rightarrow> if x = c then Some (x # xs) else None)"

definition wcstr :: "wstring \<Rightarrow> wstring" where
  \<comment> \<open>the string that begins here, up to its terminator\<close>
  "wcstr ws = takeWhile (\<lambda>c. c \<noteq> 0) ws"

text \<open>Bytes read as \<open>wchar_t\<close>, and the memory of a value: its bytes and two wide terminators.\<close>

fun wide_of_bytes :: "string \<Rightarrow> wstring" where
  "wide_of_bytes (lo # hi # s) = word_of_nat (code lo + 256 * code hi) # wide_of_bytes s"
| "wide_of_bytes s = []"

definition terminated :: "string \<Rightarrow> string" where
  "terminated bytes = bytes @ replicate 4 NUL"

section \<open>Conversion into a buffer that is used again\<close>

record conv_buffer =
  pbuf :: string \<comment> \<open>the string in the buffer, without its terminator\<close>
  psize :: nat

definition empty_buffer :: conv_buffer where
  "empty_buffer = \<lparr>pbuf = [], psize = 0\<rparr>"

text \<open>The conversion of a terminated string, \<open>None\<close> where it fails; it converts the terminator too, so the
  empty string does not fail.\<close>

definition utf8z :: "host \<Rightarrow> wstring \<Rightarrow> string option" where
  "utf8z h ws =
     (let v = wcstr ws; s = WideCharToMultiByte (win h) v in
      if v = [] then Some [] else if s = [] then None else Some s)"

text \<open>The call with length -1: without room it returns the size that is needed, with too little room 0 and
  \<open>ERROR_INSUFFICIENT_BUFFER\<close>.\<close>

datatype conversion = Converted nat string | SizeNeeded nat | Insufficient | ConversionError

definition convert_z :: "host \<Rightarrow> wstring \<Rightarrow> nat \<Rightarrow> conversion" where
  "convert_z h ws room =
     (case utf8z h ws of
        None \<Rightarrow> ConversionError
      | Some s \<Rightarrow>
          if room = 0 then SizeNeeded (length s + 1)
          else if length s + 1 \<le> room then Converted (length s + 1) s
          else Insufficient)"

definition result_size :: "conversion \<Rightarrow> nat" where
  "result_size c = (case c of Converted n _ \<Rightarrow> n | SizeNeeded n \<Rightarrow> n | _ \<Rightarrow> 0)"

definition text_after :: "conversion \<Rightarrow> string \<Rightarrow> string" where
  "text_after c old = (case c of Converted _ s \<Rightarrow> s | _ \<Rightarrow> old)"

definition convertString :: "host \<Rightarrow> wstring \<Rightarrow> conv_buffer \<Rightarrow> fault + bool \<times> conv_buffer" where
  "convertString h value b =
     (let first = convert_z h value (psize b); size = result_size first; b1 = b\<lparr>pbuf := text_after first (pbuf b)\<rparr>;
          finish = (\<lambda>size. if size > psize b1 then
              Inr (True, \<lparr>pbuf = text_after (convert_z h value size) (pbuf b1), psize = size\<rparr>)
            else Inr (True, b1)) in
      if size = 0 then
        (if psize b1 = 0 \<or> first \<noteq> Insufficient then Inr (False, b1)
         else
           let size = result_size (convert_z h value 0) in
           if size = 0 then Inr (False, b1)
           else if \<not> size > psize b1 then Inl Aborted \<comment> \<open>the assertion\<close>
           else finish size)
      else finish size)"

section \<open>One value\<close>

definition getRegistryKey :: "wstring \<Rightarrow> hkey option \<times> wstring" where
  "getRegistryKey path =
     (if wcsnicmp_eq path (wide ''HKCU:'') 5 then (Some HKEY_CURRENT_USER, drop 5 path)
      else if wcsnicmp_eq path (wide ''HKLM:'') 5 then (Some HKEY_LOCAL_MACHINE, drop 5 path)
      else if wcsnicmp_eq path (wide ''HKCR:'') 5 then (Some HKEY_CLASSES_ROOT, drop 5 path)
      else if wcsnicmp_eq path (wide ''HKU:'') 4 then (Some HKEY_USERS, drop 4 path)
      else if wcsnicmp_eq path (wide ''HKCC:'') 5 then (Some HKEY_CURRENT_CONFIG, drop 5 path)
      else (None, path))"

definition skip_separator :: "wstring \<Rightarrow> wstring" where
  "skip_separator path = (case path of c # rest \<Rightarrow> if c = WBACKSLASH then rest else path | [] \<Rightarrow> path)"

definition getSubkey :: "winreg \<Rightarrow> hkey option \<Rightarrow> wstring \<Rightarrow> nat option \<times> wstring" where
  \<comment> \<open>the open key, and the rest of the path\<close>
  "getSubkey r key path0 =
     (case key of
        None \<Rightarrow> (None, path0)
      | Some k \<Rightarrow>
          let path = skip_separator path0;
              valueName = wcsrchr path WBACKSLASH;
              hasValue = (case valueName of None \<Rightarrow> False | Some v \<Rightarrow> tl v \<noteq> []);
              len = (if hasValue then length path - length (the valueName) else length path) in
          (RegOpenKeyExW r k (take len path), drop len path))"

definition getValue :: "winreg \<Rightarrow> nat option \<Rightarrow> wstring \<Rightarrow> (nat \<times> string) option" where
  "getValue r key name =
     (case key of None \<Rightarrow> None | Some k \<Rightarrow> RegQueryValueExW r k (skip_separator name))"

definition fetchKeyInfo :: "winreg \<Rightarrow> wstring \<Rightarrow> (nat \<times> string) option" where
  "fetchKeyInfo r path =
     (let (key, path1) = getRegistryKey path; (subkey, path2) = getSubkey r key path1 in getValue r subkey path2)"

definition os_getWindowsRegistry :: "host \<Rightarrow> winreg \<Rightarrow> lval list \<Rightarrow> lua_ret" where
  "os_getWindowsRegistry h r args =
     (if \<not> windows h then Inr [LNil]
      else
        bind_f (luaL_checkconvertlstring h args 1) (\<lambda>wpath.
          (case fetchKeyInfo r (wcstr wpath) of
             None \<Rightarrow> Inr [LNil]
           | Some (keyType, bytes) \<Rightarrow>
               if keyType = REG_NONE then Inr [LNil]
               else if keyType = REG_SZ \<or> keyType = REG_EXPAND_SZ \<or> keyType = REG_LINK then
                 bind_f (convertString h (wide_of_bytes (terminated bytes)) empty_buffer) (\<lambda>(ok, value).
                   Inr [LStr (if ok then pbuf value else ''Error converting value'')])
               else Inr [LStr bytes])))"

section \<open>Listing a key\<close>

definition openKey :: "winreg \<Rightarrow> wstring \<Rightarrow> nat option" where
  "openKey r path =
     (case getRegistryKey path of
        (None, _) \<Rightarrow> None
      | (Some key, path1) \<Rightarrow> RegOpenKeyExW r key (skip_separator path1))"

record RegNodeInfo =
  node_name :: string
  node_value :: "string option" \<comment> \<open>the bytes of a value; \<open>None\<close> for a subkey\<close>
  node_type :: nat

text \<open>Fixed-width numbers; what lies behind the terminators of a short value was never written.\<close>

definition le_value :: "string \<Rightarrow> nat" where
  "le_value s = foldr (\<lambda>c v. code c + 256 * v) s 0"

definition read_le :: "nat \<Rightarrow> string \<Rightarrow> fault + nat" where
  "read_le n bytes =
     (let m = terminated bytes in if length m < n then Inl Uninitialised else Inr (le_value (take n m)))"

definition big_endian_value :: "string \<Rightarrow> int" where
  \<comment> \<open>the shifts and the disjunction are those of \<open>int\<close>\<close>
  "big_endian_value bytes =
     (let v = (\<lambda>i. word_of_nat (code (terminated bytes ! i)) :: 32 word) in
      sint (v 3 OR push_bit 8 (v 2) OR push_bit 16 (v 1) OR push_bit 24 (v 0)))"

text \<open>The loop over a list of strings: \<open>left\<close> are the bytes before the end of the value, \<open>p\<close> the memory from
  the present place on.\<close>

function multi_strings :: "host \<Rightarrow> nat \<Rightarrow> wstring \<Rightarrow> conv_buffer \<Rightarrow> fault + string list \<times> conv_buffer" where
  "multi_strings h left p valbuf =
     (if 0 < left then
        bind_f (convertString h p valbuf) (\<lambda>(ok, valbuf1).
        let len = length (wcstr p) + 1 in
        bind_f (multi_strings h (left - 2 * len) (drop len p) valbuf1) (\<lambda>(strs, valbuf2).
          Inr ((if ok then pbuf valbuf1 else ''Error converting value'') # strs, valbuf2)))
      else Inr ([], valbuf))"
  by pat_completeness auto
termination
  by (relation "measure (\<lambda>(h, left, p, valbuf). left)") auto

declare multi_strings.simps [simp del]

definition node_data :: "host \<Rightarrow> nat \<Rightarrow> string \<Rightarrow> conv_buffer \<Rightarrow> fault + lval \<times> conv_buffer" where
  \<comment> \<open>what becomes the field \<open>value\<close>\<close>
  "node_data h t bytes valbuf =
     (if t \<in> {REG_NONE, REG_BINARY, REG_RESOURCE_LIST, REG_FULL_RESOURCE_DESCRIPTOR, REG_RESOURCE_REQUIREMENTS_LIST} then
        Inr (LStr bytes, valbuf)
      else if t \<in> {REG_SZ, REG_EXPAND_SZ, REG_LINK} then
        bind_f (convertString h (wide_of_bytes (terminated bytes)) valbuf) (\<lambda>(ok, valbuf1).
          Inr (LStr (if ok then pbuf valbuf1 else ''Error converting value''), valbuf1))
      else if t = REG_DWORD then bind_f (read_le 4 bytes) (\<lambda>v. Inr (LInt (int v), valbuf))
      else if t = REG_DWORD_BIG_ENDIAN then Inr (LInt (big_endian_value bytes), valbuf)
      else if t = REG_QWORD then bind_f (read_le 8 bytes) (\<lambda>v. Inr (LInt (to_lua_Integer (int v)), valbuf))
      else if t = REG_MULTI_SZ then
        bind_f (multi_strings h (length bytes) (wide_of_bytes (terminated bytes)) valbuf) (\<lambda>(strs, valbuf1).
          Inr (lua_array (map LStr strs), valbuf1))
      else Inr (LNil, valbuf))"

definition setfield :: "(lval \<times> lval) list \<Rightarrow> string \<Rightarrow> lval \<Rightarrow> (lval \<times> lval) list" where
  \<comment> \<open>\<open>lua_setfield\<close> of a table; nil removes the field\<close>
  "setfield t k v = (if v = LNil then AList.delete (LStr k) t else AList.update (LStr k) v t)"

definition listCallback ::
    "host \<Rightarrow> RegNodeInfo \<Rightarrow> (lval \<times> lval) list \<times> conv_buffer \<Rightarrow> fault + (lval \<times> lval) list \<times> conv_buffer" where
  "listCallback h info st =
     (let (result, valbuf) = st in
      case node_value info of
        None \<Rightarrow> Inr (setfield result (node_name info) (LTable []), valbuf)
      | Some bytes \<Rightarrow>
          bind_f (node_data h (node_type info) bytes valbuf) (\<lambda>(data, valbuf1).
            let fields0 = setfield [] ''type'' (LStr (getTypeString (node_type info)));
                fields1 = setfield fields0 ''value'' data in
            Inr (setfield result (node_name info) (LTable fields1), valbuf1)))"

text \<open>The two loops of \<open>listNodes\<close>, with the callback's state, the buffer for names, and whether all went well.\<close>

type_synonym 's visit = "RegNodeInfo \<Rightarrow> 's \<Rightarrow> fault + 's"

definition visit_named :: "host \<Rightarrow> 's visit \<Rightarrow> wstring \<Rightarrow> RegNodeInfo \<Rightarrow> conv_buffer \<Rightarrow> 's \<Rightarrow> fault + bool \<times> conv_buffer \<times> 's" where
  "visit_named h callback name node namebuf s =
     bind_f (convertString h name namebuf) (\<lambda>(ok, namebuf1).
       if \<not> ok then Inr (False, namebuf1, s)
       else bind_f (callback (node\<lparr>node_name := pbuf namebuf1\<rparr>) s) (\<lambda>s1. Inr (True, namebuf1, s1)))"

primrec visit_subkeys ::
    "host \<Rightarrow> winreg \<Rightarrow> nat \<Rightarrow> nat \<Rightarrow> 's visit \<Rightarrow> nat list \<Rightarrow> conv_buffer \<Rightarrow> 's \<Rightarrow> fault + bool \<times> conv_buffer \<times> 's" where
  "visit_subkeys h r key room callback [] namebuf s = Inr (True, namebuf, s)"
| "visit_subkeys h r key room callback (i # is) namebuf s =
     (case RegEnumKeyExW r key i room of
        None \<Rightarrow> Inr (False, namebuf, s)
      | Some name \<Rightarrow>
          bind_f (visit_named h callback name \<lparr>node_name = [], node_value = None, node_type = REG_NONE\<rparr> namebuf s)
            (\<lambda>(ok, namebuf1, s1).
              if ok then visit_subkeys h r key room callback is namebuf1 s1 else Inr (False, namebuf1, s1)))"

primrec visit_values ::
    "host \<Rightarrow> winreg \<Rightarrow> nat \<Rightarrow> nat \<Rightarrow> nat \<Rightarrow> 's visit \<Rightarrow> nat list \<Rightarrow> conv_buffer \<Rightarrow> 's \<Rightarrow> fault + bool \<times> conv_buffer \<times> 's" where
  "visit_values h r key room vroom callback [] namebuf s = Inr (True, namebuf, s)"
| "visit_values h r key room vroom callback (i # is) namebuf s =
     (case RegEnumValueW r key i room vroom of
        None \<Rightarrow> Inr (False, namebuf, s)
      | Some (name, t, bytes) \<Rightarrow>
          bind_f (visit_named h callback name \<lparr>node_name = [], node_value = Some bytes, node_type = t\<rparr> namebuf s)
            (\<lambda>(ok, namebuf1, s1).
              if ok then visit_values h r key room vroom callback is namebuf1 s1 else Inr (False, namebuf1, s1)))"

definition listNodes :: "host \<Rightarrow> winreg \<Rightarrow> nat \<Rightarrow> 's visit \<Rightarrow> 's \<Rightarrow> fault + bool \<times> 's" where
  "listNodes h r key callback s =
     (case RegQueryInfoKeyW r key of
        None \<Rightarrow> Inr (False, s)
      | Some info \<Rightarrow>
          let room = max (maxSubkeyLength info) (maxValueNameLength info) + 1; vroom = maxValueLength info + 4 in
          bind_f (visit_subkeys h r key room callback [0..<numSubkeys info] empty_buffer s) (\<lambda>(ok, namebuf, s1).
            if ok then
              bind_f (visit_values h r key room vroom callback [0..<numValues info] namebuf s1) (\<lambda>(ok1, _, s2).
                Inr (ok1, s2))
            else Inr (False, s1)))"

definition os_listWindowsRegistry :: "host \<Rightarrow> winreg \<Rightarrow> lval list \<Rightarrow> lua_ret" where
  "os_listWindowsRegistry h r args =
     (if \<not> windows h then Inr [LNil]
      else
        bind_f (luaL_checkconvertlstring h args 1) (\<lambda>wpath.
          (case openKey r (wcstr wpath) of
             None \<Rightarrow> Inr [LNil]
           | Some key \<Rightarrow>
               bind_f (listNodes h r key (listCallback h) ([], empty_buffer)) (\<lambda>(ok, result, _).
                 Inr [if ok then LTable result else LNil]))))"

section \<open>The buffer makes no difference\<close>

text \<open>The conversion into a buffer that was used before, for every state of the buffer.\<close>

lemma convertString_eq [simp]:
  "convertString h ws b =
     (case utf8z h ws of
        None \<Rightarrow> Inr (False, b)
      | Some s \<Rightarrow> Inr (True, \<lparr>pbuf = s, psize = max (psize b) (length s + 1)\<rparr>))"
  by (cases "utf8z h ws"; cases b)
    (auto simp: convertString_def convert_z_def result_size_def text_after_def Let_def max_def)

text \<open>C34: The conversion of wide strings grows its buffer when it has to and uses it again otherwise. Whatever
  the buffer held before and however large it was, the result is that of a fresh buffer, the buffer never
  shrinks and has room for the terminator, and the assertion of the growing branch holds.\<close>

theorem convertString_reuse:
  "\<exists>ok b1 b2. convertString h ws b = Inr (ok, b1) \<and> convertString h ws empty_buffer = Inr (ok, b2)
     \<and> (ok \<longleftrightarrow> utf8z h ws \<noteq> None) \<and> (ok \<longrightarrow> pbuf b1 = pbuf b2 \<and> length (pbuf b1) < psize b1)
     \<and> psize b \<le> psize b1 \<and> convertString h ws b \<noteq> Inl Aborted"
proof (cases "utf8z h ws")
  case None
  then show ?thesis by (intro exI [of _ False]) (simp add: empty_buffer_def)
next
  case (Some s)
  then show ?thesis by (intro exI [of _ True]) (simp add: empty_buffer_def)
qed

theorem convertString_reuse_witness:
  "\<exists>b1. convertString (sample_host Windows) (wide ''ab'') \<lparr>pbuf = ''x'', psize = 2\<rparr> = Inr (True, b1) \<and> psize b1 = 3"
proof -
  have "utf8z (sample_host Windows) (wide ''ab'') = Some ''ab''"
    by (simp add: utf8z_def wcstr_def wide_def bare_win32_def code_def char_of_def bit_iff_odd)
  with convertString_reuse [of "sample_host Windows" "wide ''ab''" "\<lparr>pbuf = ''x'', psize = 2\<rparr>"] show ?thesis by simp
qed

definition converted :: "host \<Rightarrow> wstring \<Rightarrow> string" where
  "converted h ws = (case utf8z h ws of None \<Rightarrow> ''Error converting value'' | Some s \<Rightarrow> s)"

fun string_list :: "host \<Rightarrow> nat \<Rightarrow> wstring \<Rightarrow> string list" where
  "string_list h left p =
     (if 0 < left then let len = length (wcstr p) + 1 in converted h p # string_list h (left - 2 * len) (drop len p) else [])"

declare string_list.simps [simp del]

lemma multi_strings_eq: "\<exists>b1. multi_strings h left p b = Inr (string_list h left p, b1)"
proof (induction h left p b rule: multi_strings.induct)
  case (1 h left p b)
  show ?case
  proof (cases "0 < left")
    case True
    let ?b = "case utf8z h p of None \<Rightarrow> b | Some s \<Rightarrow> \<lparr>pbuf = s, psize = max (psize b) (length s + 1)\<rparr>"
    have conv: "convertString h p b = Inr (utf8z h p \<noteq> None, ?b)" by (simp split: option.split)
    obtain b1 where "multi_strings h (left - 2 * (length (wcstr p) + 1)) (drop (length (wcstr p) + 1) p) ?b
        = Inr (string_list h (left - 2 * (length (wcstr p) + 1)) (drop (length (wcstr p) + 1) p), b1)"
      using "1.IH" [OF True conv refl refl] by blast
    with conv show ?thesis using True
      by (subst multi_strings.simps, subst string_list.simps) (auto simp: converted_def Let_def split: option.split)
  qed (simp add: multi_strings.simps string_list.simps)
qed

text \<open>What a value becomes, whatever the buffer holds.\<close>

definition reg_data :: "host \<Rightarrow> nat \<Rightarrow> string \<Rightarrow> fault + lval" where
  "reg_data h t bytes = map_sum id fst (node_data h t bytes empty_buffer)"

lemma multi_strings_cases:
  obtains b1 where "multi_strings h left p b = Inr (string_list h left p, b1)"
  using multi_strings_eq by blast

lemma node_data_any: "map_sum id fst (node_data h t bytes b) = reg_data h t bytes"
proof -
  let ?m = "multi_strings h (length bytes) (wide_of_bytes (terminated bytes))"
  obtain b1 where m1: "?m b = Inr (string_list h (length bytes) (wide_of_bytes (terminated bytes)), b1)"
    by (rule multi_strings_cases)
  obtain b2 where m2: "?m empty_buffer = Inr (string_list h (length bytes) (wide_of_bytes (terminated bytes)), b2)"
    by (rule multi_strings_cases)
  show ?thesis
    unfolding reg_data_def node_data_def m1 m2
    by (cases "utf8z h (wide_of_bytes (terminated bytes))"; cases "read_le 4 bytes"; cases "read_le 8 bytes") simp_all
qed

section \<open>Lists of strings\<close>

definition wbytes :: "wstring \<Rightarrow> string" where
  "wbytes ws = concat (map (\<lambda>c. [char_of (unat c mod 256), char_of (unat c div 256)]) ws)"

lemma wbytes_simps [simp]:
  "wbytes [] = []" "wbytes (c # ws) = char_of (unat c mod 256) # char_of (unat c div 256) # wbytes ws"
  "length (wbytes ws) = 2 * length ws"
  by (simp_all add: wbytes_def length_concat comp_def sum_list_triv)

lemma wide_of_wbytes: "wide_of_bytes (wbytes ws @ s) = ws @ wide_of_bytes s"
proof (induction ws)
  case (Cons c ws)
  have "unat c < 2 ^ LENGTH(16)" by (rule unsigned_less)
  then have u: "unat c < 256 * 256" by simp
  then have "unat c div 256 < 256" by (simp add: less_mult_imp_div_less)
  then have "code (char_of (unat c mod 256)) + 256 * code (char_of (unat c div 256)) = unat c"
    by (simp add: code_def)
  then have "(word_of_nat (code (char_of (unat c mod 256)) + 256 * code (char_of (unat c div 256))) :: 16 word) = c"
    by (simp only:) simp
  with Cons show ?case by simp
qed simp

lemma wide_of_terminators: "wide_of_bytes (replicate 4 NUL) = [0, 0]"
  by (simp add: numeral_eq_Suc code_def)

definition multi_sz :: "wstring list \<Rightarrow> wstring" where
  \<comment> \<open>the strings with their terminators, and the terminator of the list\<close>
  "multi_sz vs = concat (map (\<lambda>v. v @ [0]) vs) @ [0]"

lemma wcstr_first: "0 \<notin> set v \<Longrightarrow> wcstr (v @ 0 # r) = v"
  unfolding wcstr_def by (subst takeWhile_append2) auto

lemma converted_first: "0 \<notin> set v \<Longrightarrow> converted h (v @ 0 # r) = converted h v"
proof -
  assume v: "0 \<notin> set v"
  then have "wcstr v = v" unfolding wcstr_def by (auto simp: takeWhile_eq_all_conv)
  with wcstr_first [OF v] show ?thesis by (simp add: converted_def utf8z_def)
qed

lemma string_list_multi_sz:
  "\<forall>v \<in> set vs. 0 \<notin> set v \<Longrightarrow>
   string_list h (2 * length (multi_sz vs)) (multi_sz vs @ r) = map (converted h) vs @ [[]]"
proof (induction vs)
  case Nil
  have "converted h (0 # r) = []" by (simp add: converted_def utf8z_def wcstr_def)
  then show ?case by (simp add: multi_sz_def string_list.simps [of h 2] string_list.simps [of h 0] wcstr_def)
next
  case (Cons v vs)
  have m: "multi_sz (v # vs) = v @ 0 # multi_sz vs" by (simp add: multi_sz_def)
  have v: "0 \<notin> set v" using Cons.prems by simp
  have "string_list h (2 * length (multi_sz (v # vs))) (multi_sz (v # vs) @ r) =
      converted h v # string_list h (2 * length (multi_sz vs)) (multi_sz vs @ r)"
    using wcstr_first [OF v, of "multi_sz vs @ r"] converted_first [OF v, of h "multi_sz vs @ r"]
    by (subst string_list.simps) (simp add: m Let_def)
  with Cons show ?case by simp
qed

text \<open>A list of strings (REG_MULTI_SZ) is listed with one string too many: after its strings comes an empty
  one, because the loop runs up to the end of the value, which is behind the terminator of the list.\<close>

theorem registry_strings_extra:
  assumes "\<forall>v \<in> set vs. v \<noteq> [] \<and> 0 \<notin> set v"
  shows "\<exists>b1. node_data h REG_MULTI_SZ (wbytes (multi_sz vs)) b =
      Inr (lua_array (map (\<lambda>v. LStr (converted h v)) vs @ [LStr []]), b1)
    \<and> rawlen (lua_array (map (\<lambda>v. LStr (converted h v)) vs @ [LStr []])) = length vs + 1"
proof -
  have w: "wide_of_bytes (terminated (wbytes (multi_sz vs))) = multi_sz vs @ [0, 0]"
    by (simp add: terminated_def wide_of_wbytes wide_of_terminators)
  obtain b1 where "multi_strings h (2 * length (multi_sz vs)) (multi_sz vs @ [0, 0]) b =
      Inr (map (converted h) vs @ [[]], b1)"
    using multi_strings_eq [of h "2 * length (multi_sz vs)" "multi_sz vs @ [0, 0]" b] string_list_multi_sz [of vs h "[0, 0]"] assms
    by auto
  then have "node_data h REG_MULTI_SZ (wbytes (multi_sz vs)) b =
      Inr (lua_array (map (\<lambda>v. LStr (converted h v)) vs @ [LStr []]), b1)"
    by (simp add: node_data_def w reg_types comp_def)
  moreover have "rawlen (lua_array (map (\<lambda>v. LStr (converted h v)) vs @ [LStr []])) = length vs + 1"
    by (subst rawlen_lua_array) auto
  ultimately show ?thesis by blast
qed

theorem registry_strings_extra_witness:
  "\<exists>b1. node_data (sample_host Windows) REG_MULTI_SZ (wbytes (multi_sz [wide ''a''])) empty_buffer =
     Inr (lua_array [LStr (converted (sample_host Windows) (wide ''a'')), LStr []], b1)"
  using registry_strings_extra [of "[wide ''a'']" "sample_host Windows" empty_buffer] by (auto simp: wide_def code_def)

section \<open>Numbers\<close>

text \<open>The number that four bytes denote, high byte first.\<close>

definition be_number :: "string \<Rightarrow> nat" where
  "be_number bs = foldl (\<lambda>v c. 256 * v + code c) 0 bs"

lemma code_less [simp]: "code c < 256"
  using of_char_mod_256 [of c, where 'a = nat] by (metis code_def mod_less_divisor zero_less_numeral)

lemma bit_code: "bit (word_of_nat (code c) :: 32 word) n \<Longrightarrow> n < 8"
proof (rule ccontr)
  assume b: "bit (word_of_nat (code c) :: 32 word) n" and "\<not> n < 8"
  then have "(2 :: nat) ^ 8 \<le> 2 ^ n" by (intro power_increasing) auto
  then have "(256 :: nat) \<le> 2 ^ n" by simp
  then have "code c div 2 ^ n = 0" using code_less [of c] by (intro div_less) linarith
  moreover have "bit (code c) n" using b by (simp add: bit_simps)
  ultimately show False by (simp add: bit_iff_odd)
qed

lemma or_bytes:
  fixes v :: "nat \<Rightarrow> char"
  defines "w \<equiv> \<lambda>i. word_of_nat (code (v i)) :: 32 word"
  shows "w 3 OR push_bit 8 (w 2) OR push_bit 16 (w 1) OR push_bit 24 (w 0)
    = word_of_nat (256 * (256 * (256 * code (v 0) + code (v 1)) + code (v 2)) + code (v 3))"
proof -
  have b: "bit (w i) n \<Longrightarrow> n < 8" for i n unfolding w_def by (rule bit_code)
  have "w 3 AND (push_bit 8 (w 2) OR push_bit 16 (w 1) OR push_bit 24 (w 0)) = 0"
    by (rule bit_word_eqI) (use b in \<open>fastforce simp: bit_simps\<close>)
  moreover have "push_bit 8 (w 2) AND (push_bit 16 (w 1) OR push_bit 24 (w 0)) = 0"
    by (rule bit_word_eqI) (use b in \<open>fastforce simp: bit_simps\<close>)
  moreover have "push_bit 16 (w 1) AND push_bit 24 (w 0) = 0"
    by (rule bit_word_eqI) (use b in \<open>fastforce simp: bit_simps\<close>)
  ultimately have "w 3 OR push_bit 8 (w 2) OR push_bit 16 (w 1) OR push_bit 24 (w 0)
      = w 3 + (push_bit 8 (w 2) + (push_bit 16 (w 1) + push_bit 24 (w 0)))"
    by (simp add: disjunctive_add_eq_or or.assoc)
  also have "\<dots> = word_of_nat (256 * (256 * (256 * code (v 0) + code (v 1)) + code (v 2)) + code (v 3))"
    by (simp add: w_def push_bit_eq_mult algebra_simps)
  finally show ?thesis .
qed

lemma sint_of_nat:
  assumes "n < 2 ^ 32"
  shows "sint (word_of_nat n :: 32 word) = (if n < 2 ^ 31 then int n else int n - 2 ^ 32)"
proof -
  have "sint (word_of_nat n :: 32 word) = signed_take_bit 31 (int n)" by (simp add: signed_of_nat)
  also have "\<dots> = (if n < 2 ^ 31 then int n else int n - 2 ^ 32)"
  proof (cases "n < 2 ^ 31")
    case False
    have "(int n + 2147483648) mod 4294967296 = ((int n - 2147483648) + 4294967296) mod 4294967296" by (simp add: algebra_simps)
    also have "\<dots> = (int n - 2147483648) mod 4294967296" by (rule mod_add_self2)
    also have "\<dots> = int n - 2147483648" using assms False by (intro mod_pos_pos_trivial) simp_all
    finally have "(int n + 2147483648) mod 4294967296 = int n - 2147483648" .
    with False show ?thesis by (simp add: signed_take_bit_eq_take_bit_shift take_bit_eq_mod)
  qed (simp add: signed_take_bit_eq_take_bit_shift take_bit_eq_mod)
  finally show ?thesis .
qed

text \<open>A number of 32 bits is listed as that number when it is stored low byte first, but when it is stored high
  byte first (REG_DWORD_BIG_ENDIAN) the numbers from 2 to the 31 on are listed as negative ones.\<close>

theorem registry_numbers:
  assumes "length bs = 4"
  shows "node_data h REG_DWORD (rev bs) b = Inr (LInt (int (be_number bs)), b)
    \<and> node_data h REG_DWORD_BIG_ENDIAN bs b =
        Inr (LInt (if be_number bs < 2 ^ 31 then int (be_number bs) else int (be_number bs) - 2 ^ 32), b)"
proof -
  obtain b0 b1 b2 b3 where bs: "bs = [b0, b1, b2, b3]"
    using assms by (auto simp: numeral_eq_Suc length_Suc_conv)
  have n: "be_number bs = 256 * (256 * (256 * code b0 + code b1) + code b2) + code b3"
    by (simp add: be_number_def bs)
  have lt: "be_number bs < 2 ^ 32" using code_less [of b0] code_less [of b1] code_less [of b2] code_less [of b3]
    unfolding n by (simp; linarith)
  have "le_value (rev bs) = be_number bs" by (simp add: le_value_def n) (simp add: bs)
  then have "node_data h REG_DWORD (rev bs) b = Inr (LInt (int (be_number bs)), b)"
    using assms by (simp add: node_data_def reg_types read_le_def terminated_def Let_def)
  moreover have "big_endian_value bs = sint (word_of_nat (be_number bs) :: 32 word)"
    using or_bytes [of "\<lambda>i. terminated bs ! i"]
    by (simp add: big_endian_value_def Let_def n terminated_def) (simp add: bs)
  ultimately show ?thesis
    using sint_of_nat [OF lt] by (simp add: node_data_def reg_types)
qed

theorem registry_numbers_witness:
  "node_data (sample_host Windows) REG_DWORD_BIG_ENDIAN [CHR 0x80, NUL, NUL, CHR 0x01] empty_buffer =
     Inr (LInt (- 2147483647), empty_buffer)"
  using registry_numbers [of "[CHR 0x80, NUL, NUL, CHR 0x01]" "sample_host Windows" empty_buffer]
  by (simp add: be_number_def code_def)

section \<open>The result of a listing\<close>

definition value_entry :: "nat \<Rightarrow> lval \<Rightarrow> lval" where
  "value_entry t v = LTable (setfield (setfield [] ''type'' (LStr (getTypeString t))) ''value'' v)"

lemma rawget_Nil [simp]: "rawget [] k = LNil"
  by (simp add: rawget_def)

lemma rawget_setfield: "v \<noteq> LNil \<Longrightarrow> rawget (setfield t k v) (LStr n) = (if n = k then v else rawget t (LStr n))"
  by (simp add: rawget_def setfield_def norm_key_def update_conv')

lemma listCallback_subkey:
  "listCallback h \<lparr>node_name = n, node_value = None, node_type = t\<rparr> (result, b) = Inr (setfield result n (LTable []), b)"
  by (simp add: listCallback_def)

lemma listCallback_value:
  assumes "reg_data h t bytes = Inr v"
  shows "\<exists>b1. listCallback h \<lparr>node_name = n, node_value = Some bytes, node_type = t\<rparr> (result, b) =
    Inr (setfield result n (value_entry t v), b1)"
proof -
  have "map_sum id fst (node_data h t bytes b) = Inr v" using assms node_data_any [of h t bytes b] by simp
  then obtain b1 where "node_data h t bytes b = Inr (v, b1)" by (cases "node_data h t bytes b") auto
  then show ?thesis by (simp add: listCallback_def value_entry_def Let_def)
qed

lemma visit_subkeys_all:
  "\<forall>i \<in> set is. \<exists>w. RegEnumKeyExW r key i room = Some w \<and> utf8z h w = Some (kn i) \<Longrightarrow>
   \<exists>nb t1. visit_subkeys h r key room (listCallback h) is namebuf (t, b) = Inr (True, nb, t1, b)
     \<and> (\<forall>n. rawget t1 (LStr n) = (if n \<in> kn ` set is then LTable [] else rawget t (LStr n)))"
proof (induction "is" arbitrary: namebuf t)
  case (Cons i ns)
  obtain w where w: "RegEnumKeyExW r key i room = Some w" "utf8z h w = Some (kn i)" using Cons.prems by auto
  let ?nb = "\<lparr>pbuf = kn i, psize = max (psize namebuf) (length (kn i) + 1)\<rparr>" and ?t = "setfield t (kn i) (LTable [])"
  obtain nb t1 where rec: "visit_subkeys h r key room (listCallback h) ns ?nb (?t, b) = Inr (True, nb, t1, b)"
    "\<forall>n. rawget t1 (LStr n) = (if n \<in> kn ` set ns then LTable [] else rawget ?t (LStr n))"
    using Cons.IH [of ?nb ?t] Cons.prems by auto
  have "visit_subkeys h r key room (listCallback h) (i # ns) namebuf (t, b) = Inr (True, nb, t1, b)"
    using w rec(1) by (simp add: visit_named_def listCallback_subkey)
  with rec(2) show ?case by (auto simp: rawget_setfield)
qed simp

lemma visit_values_all:
  "\<forall>i \<in> set is. \<exists>w bytes. RegEnumValueW r key i room vroom = Some (w, vt i, bytes) \<and> utf8z h w = Some (vn i)
     \<and> reg_data h (vt i) bytes = Inr (vd i) \<Longrightarrow>
   \<exists>nb t1 b1. visit_values h r key room vroom (listCallback h) is namebuf (t, b) = Inr (True, nb, t1, b1)
     \<and> (\<forall>n. rawget t1 (LStr n) =
          (case map_of (rev (map (\<lambda>i. (vn i, value_entry (vt i) (vd i))) is)) n of Some e \<Rightarrow> e | None \<Rightarrow> rawget t (LStr n)))"
proof (induction "is" arbitrary: namebuf t b)
  case (Cons i ns)
  obtain w bytes where w: "RegEnumValueW r key i room vroom = Some (w, vt i, bytes)" "utf8z h w = Some (vn i)"
      "reg_data h (vt i) bytes = Inr (vd i)"
    using Cons.prems by auto
  let ?nb = "\<lparr>pbuf = vn i, psize = max (psize namebuf) (length (vn i) + 1)\<rparr>"
    and ?t = "setfield t (vn i) (value_entry (vt i) (vd i))"
  obtain b2 where c: "listCallback h \<lparr>node_name = vn i, node_value = Some bytes, node_type = vt i\<rparr> (t, b) = Inr (?t, b2)"
    using listCallback_value [OF w(3)] by blast
  obtain nb t1 b1 where rec: "visit_values h r key room vroom (listCallback h) ns ?nb (?t, b2) = Inr (True, nb, t1, b1)"
    "\<forall>n. rawget t1 (LStr n) =
       (case map_of (rev (map (\<lambda>i. (vn i, value_entry (vt i) (vd i))) ns)) n of Some e \<Rightarrow> e | None \<Rightarrow> rawget ?t (LStr n))"
    using Cons.IH [of ?nb ?t b2] Cons.prems by auto
  have "visit_values h r key room vroom (listCallback h) (i # ns) namebuf (t, b) = Inr (True, nb, t1, b1)"
    using w c rec(1) by (simp add: visit_named_def)
  moreover have "value_entry (vt i) (vd i) \<noteq> LNil" by (simp add: value_entry_def)
  ultimately show ?case using rec(2) by (auto simp: rawget_setfield map_add_def split: option.split)
qed simp

text \<open>C16: When every enumeration succeeds, \<open>os.listWindowsRegistry\<close> returns a table with one field for each name that a
  subkey or a value of the key has: the table of the last value of the name, with its type and data, or
  an empty table for a subkey. A value hides a subkey of the same name. Nothing else is in it.\<close>

theorem registry_listing:
  assumes "plat h = Windows" and "luaL_convertlstring h path = Some wp" and "openKey r (wcstr wp) = Some key"
    and "RegQueryInfoKeyW r key = Some info"
    and "\<forall>i < numSubkeys info. \<exists>w. RegEnumKeyExW r key i (max (maxSubkeyLength info) (maxValueNameLength info) + 1) = Some w
           \<and> utf8z h w = Some (kn i)"
    and "\<forall>i < numValues info. \<exists>w bytes. RegEnumValueW r key i (max (maxSubkeyLength info) (maxValueNameLength info) + 1)
           (maxValueLength info + 4) = Some (w, vt i, bytes) \<and> utf8z h w = Some (vn i) \<and> reg_data h (vt i) bytes = Inr (vd i)"
  shows "\<exists>t. os_listWindowsRegistry h r [LStr path] = Inr [LTable t] \<and> (\<forall>n. rawget t (LStr n) =
    (case map_of (rev (map (\<lambda>i. (vn i, value_entry (vt i) (vd i))) [0..<numValues info])) n of
       Some e \<Rightarrow> e
     | None \<Rightarrow> if n \<in> kn ` {0..<numSubkeys info} then LTable [] else LNil))"
proof -
  let ?room = "max (maxSubkeyLength info) (maxValueNameLength info) + 1" and ?vroom = "maxValueLength info + 4"
  obtain nb t1 where k: "visit_subkeys h r key ?room (listCallback h) [0..<numSubkeys info] empty_buffer ([], empty_buffer)
      = Inr (True, nb, t1, empty_buffer)"
    "\<forall>n. rawget t1 (LStr n) = (if n \<in> kn ` set [0..<numSubkeys info] then LTable [] else rawget [] (LStr n))"
    using visit_subkeys_all [of "[0..<numSubkeys info]" r key ?room h kn empty_buffer "[]" empty_buffer] assms(5) by auto
  obtain nb2 t2 b2 where v: "visit_values h r key ?room ?vroom (listCallback h) [0..<numValues info] nb (t1, empty_buffer)
      = Inr (True, nb2, t2, b2)"
    "\<forall>n. rawget t2 (LStr n) =
       (case map_of (rev (map (\<lambda>i. (vn i, value_entry (vt i) (vd i))) [0..<numValues info])) n of
          Some e \<Rightarrow> e | None \<Rightarrow> rawget t1 (LStr n))"
    using visit_values_all [of "[0..<numValues info]" r key ?room ?vroom vt h vn vd nb t1 empty_buffer] assms(6) by auto
  have "os_listWindowsRegistry h r [LStr path] = Inr [LTable t2]"
    using assms(1-4) k(1) v(1)
    by (simp add: os_listWindowsRegistry_def luaL_checkconvertlstring_def luaL_checklstring_def arg_def listNodes_def)
  moreover have "rawget t2 (LStr n) =
    (case map_of (rev (map (\<lambda>i. (vn i, value_entry (vt i) (vd i))) [0..<numValues info])) n of
       Some e \<Rightarrow> e
     | None \<Rightarrow> if n \<in> kn ` {0..<numSubkeys info} then LTable [] else LNil)" for n
    unfolding v(2) [rule_format] k(2) [rule_format] by (simp split: option.split)
  ultimately show ?thesis by blast
qed

section \<open>The path of a value\<close>

definition hives :: "(string \<times> hkey) list" where
  "hives = [(''HKCU:'', HKEY_CURRENT_USER), (''HKLM:'', HKEY_LOCAL_MACHINE), (''HKCR:'', HKEY_CLASSES_ROOT),
            (''HKU:'', HKEY_USERS), (''HKCC:'', HKEY_CURRENT_CONFIG)]"

definition hive_prefix :: "wstring \<Rightarrow> hkey \<Rightarrow> bool" where
  \<comment> \<open>the name of a hive with its colon, in any mixture of upper and lower case\<close>
  "hive_prefix w k \<longleftrightarrow> (\<exists>p. (p, k) \<in> set hives \<and> map wtolower w = map wtolower (wide p))"

lemma getRegistryKey_hive: "hive_prefix w k \<Longrightarrow> getRegistryKey (w @ rest) = (Some k, rest)"
proof -
  assume "hive_prefix w k"
  then obtain p where p: "(p, k) \<in> set hives" "map wtolower w = map wtolower (wide p)" by (auto simp: hive_prefix_def)
  have lw: "length w = length (wide p)" using arg_cong [OF p(2), of length] by simp
  then have l: "length w = length p" by (simp add: wide_def)
  have t: "map wtolower (take n (w @ rest)) = take n (map wtolower (wide p) @ map wtolower rest)" for n
    using p(2) lw by (simp add: take_map [symmetric])
  have low: "map wtolower (wide s) = wide (map tolower_c s)"
    if "s \<in> {''HKCU:'', ''HKLM:'', ''HKCR:'', ''HKU:'', ''HKCC:''}" for s
    using that by (elim insertE emptyE) (simp_all add: wide_def wtolower_def code_def tolower_c_def isupper_c_def)
  from p(1) consider "p = ''HKCU:''" "k = HKEY_CURRENT_USER" | "p = ''HKLM:''" "k = HKEY_LOCAL_MACHINE"
    | "p = ''HKCR:''" "k = HKEY_CLASSES_ROOT" | "p = ''HKU:''" "k = HKEY_USERS" | "p = ''HKCC:''" "k = HKEY_CURRENT_CONFIG"
    by (auto simp: hives_def)
  then show ?thesis
    unfolding getRegistryKey_def wcsnicmp_eq_def t
    using l by cases (simp_all add: low take_map [symmetric], simp_all add: wide_def wtolower_def code_def tolower_c_def isupper_c_def)
qed

lemma wcsrchr_None: "c \<notin> set s \<Longrightarrow> wcsrchr s c = None"
  by (induction s) auto

lemma wcsrchr_last: "c \<notin> set s \<Longrightarrow> wcsrchr (p @ c # s) c = Some (c # s)"
  by (induction p) (auto simp: wcsrchr_None)

text \<open>How \<open>os.getWindowsRegistry\<close> reads its path: after the hive (whose name may be in either case) and a
  backslash, what is before the last backslash is the key and what is behind it the value. When nothing is
  behind it, or there is no backslash, all of it is the key and the value is the default one.\<close>

theorem registry_path:
  assumes "hive_prefix w k" and "WBACKSLASH \<notin> set name"
  shows "(name \<noteq> [] \<longrightarrow> fetchKeyInfo r (w @ WBACKSLASH # key @ WBACKSLASH # name) =
      Option.bind (RegOpenKeyExW r k key) (\<lambda>x. RegQueryValueExW r x name)) \<and>
    fetchKeyInfo r (w @ WBACKSLASH # key @ [WBACKSLASH]) =
      Option.bind (RegOpenKeyExW r k (key @ [WBACKSLASH])) (\<lambda>x. RegQueryValueExW r x []) \<and>
    fetchKeyInfo r (w @ WBACKSLASH # name) = Option.bind (RegOpenKeyExW r k name) (\<lambda>x. RegQueryValueExW r x [])"
  using getRegistryKey_hive [OF assms(1)] assms(2)
  by (auto simp: fetchKeyInfo_def getSubkey_def getValue_def skip_separator_def wcsrchr_last wcsrchr_last [of _ "[]"]
      wcsrchr_None Let_def split: option.split)

section \<open>A small registry\<close>

text \<open>One key of the present user, with two subkeys \<open>k\<close> and \<open>v\<close> and a value \<open>v\<close>.\<close>

definition sample_registry :: winreg where
  "sample_registry =
     \<lparr>RegOpenKeyExW = (\<lambda>k p. if k = HKEY_CURRENT_USER \<and> p = wide ''x'' then Some 1 else None),
      RegQueryValueExW = (\<lambda>k n. if k = 1 \<and> n = wide ''v'' then Some (REG_DWORD, [CHR 0x07, NUL, NUL, NUL]) else None),
      RegQueryInfoKeyW = (\<lambda>k. Some \<lparr>numSubkeys = 2, maxSubkeyLength = 1, numValues = 1, maxValueNameLength = 1, maxValueLength = 4\<rparr>),
      RegEnumKeyExW = (\<lambda>k i room. Some (wide (if i = 0 then ''k'' else ''v''))),
      RegEnumValueW = (\<lambda>k i room vroom. Some (wide ''v'', REG_DWORD, [CHR 0x07, NUL, NUL, NUL]))\<rparr>"

lemma sample_utf8 [simp]: "utf8z (sample_host Windows) (wide ''k'') = Some ''k''" "utf8z (sample_host Windows) (wide ''v'') = Some ''v''"
  by (simp_all add: utf8z_def wcstr_def wide_def bare_win32_def code_def char_of_def bit_iff_odd)

theorem registry_path_witness:
  "fetchKeyInfo sample_registry (wide ''hkcu:'' @ WBACKSLASH # wide ''x'' @ WBACKSLASH # wide ''v'')
     = Some (REG_DWORD, [CHR 0x07, NUL, NUL, NUL])"
proof -
  have "hive_prefix (wide ''hkcu:'') HKEY_CURRENT_USER"
    by (auto simp: hive_prefix_def hives_def wide_def wtolower_def code_def)
  moreover have "WBACKSLASH \<notin> set (wide ''v'')" "wide ''v'' \<noteq> []" by (simp_all add: wide_def WBACKSLASH_def code_def)
  ultimately show ?thesis
    using registry_path(1) [of "wide ''hkcu:''" HKEY_CURRENT_USER "wide ''v''" sample_registry "wide ''x''"]
    by (simp add: sample_registry_def)
qed

theorem registry_listing_witness:
  "\<exists>t. os_listWindowsRegistry (sample_host Windows) sample_registry [LStr ''HKCU:x''] = Inr [LTable t]
    \<and> rawget t (LStr ''k'') = LTable [] \<and> rawget t (LStr ''v'') = value_entry REG_DWORD (LInt 7)
    \<and> rawget t (LStr ''w'') = LNil"
proof -
  let ?h = "sample_host Windows"
  have c: "luaL_convertlstring ?h ''HKCU:x'' = Some (wide ''HKCU:x'')"
    by (simp add: luaL_convertlstring_def bare_win32_def wide_def)
  have o: "openKey sample_registry (wcstr (wide ''HKCU:x'')) = Some 1"
  proof -
    have "hive_prefix (wide ''HKCU:'') HKEY_CURRENT_USER" by (auto simp: hive_prefix_def hives_def)
    from getRegistryKey_hive [OF this, of "wide ''x''"] have "getRegistryKey (wide ''HKCU:x'') = (Some HKEY_CURRENT_USER, wide ''x'')"
      by (simp add: wide_def)
    moreover have "wcstr (wide ''HKCU:x'') = wide ''HKCU:x''" by (simp add: wcstr_def wide_def code_def)
    moreover have "skip_separator (wide ''x'') = wide ''x''" by (simp add: skip_separator_def wide_def WBACKSLASH_def code_def)
    ultimately show ?thesis by (simp add: openKey_def sample_registry_def)
  qed
  have d: "reg_data ?h REG_DWORD [CHR 0x07, NUL, NUL, NUL] = Inr (LInt 7)"
    by (simp add: reg_data_def node_data_def reg_types read_le_def terminated_def le_value_def code_def)
  let ?i = "\<lparr>numSubkeys = 2, maxSubkeyLength = 1, numValues = 1, maxValueNameLength = 1, maxValueLength = 4\<rparr>"
  have i: "RegQueryInfoKeyW sample_registry 1 = Some ?i" by (simp add: sample_registry_def)
  have "\<forall>i < numSubkeys ?i. \<exists>w. RegEnumKeyExW sample_registry 1 i (max (maxSubkeyLength ?i) (maxValueNameLength ?i) + 1) = Some w
      \<and> utf8z ?h w = Some (if i = 0 then ''k'' else ''v'')"
    by (simp add: sample_registry_def)
  moreover have "\<forall>i < numValues ?i. \<exists>w bytes. RegEnumValueW sample_registry 1 i (max (maxSubkeyLength ?i) (maxValueNameLength ?i) + 1)
      (maxValueLength ?i + 4) = Some (w, REG_DWORD, bytes) \<and> utf8z ?h w = Some ''v'' \<and> reg_data ?h REG_DWORD bytes = Inr (LInt 7)"
    using d by (simp add: sample_registry_def)
  ultimately show ?thesis
    using registry_listing [OF _ c o i, of "\<lambda>i. if i = 0 then ''k'' else ''v''" "\<lambda>_. REG_DWORD" "\<lambda>_. ''v''" "\<lambda>_. LInt 7"]
    by auto
qed

end
