(* ===== verification/Platform.thy ===== *)
theory Platform
  imports File_Ops
begin

text \<open>
  What the host says about the machine it runs on: \<open>src/host/os_getversion.c\<close>, \<open>os_hostarch.c\<close>,
  \<open>os_host.c\<close>, \<open>os_getnumcpus.c\<close>, \<open>os_is64bit.c\<close> and \<open>os_getpass.c\<close>, on every platform. What the system
  calls deliver is a record of parameters.
\<close>

section \<open>The system\<close>

record utsname =
  sysname :: cstring
  release :: cstring
  utsmachine :: cstring

record system_info =
  uname :: "utsname option"
  PLATFORM_ARCHITECTURE :: cstring
  fixed_file_info :: "(32 word \<times> 32 word) option" \<comment> \<open>product version of \<open>kernel32.dll\<close>, high and low half\<close>
  productName :: "wstring option" \<comment> \<open>as many characters as the registry reports\<close>
  ProductVersion :: "cstring option" \<comment> \<open>of \<open>SystemVersion.plist\<close>, when all calls that read it succeed\<close>
  kern_osrelease :: cstring
  IsWow64Process2 :: "(16 word \<times> 16 word) option" \<comment> \<open>when it exists and succeeds\<close>
  wProcessorArchitecture :: "16 word"
  hw_optional_arm64 :: "int option"
  hw_machine :: "cstring option"
  sched_getaffinity :: "bool list option" \<comment> \<open>the \<open>CPU_SETSIZE\<close> bits of the set\<close>
  processors :: int \<comment> \<open>of \<open>GetSystemInfo\<close> or \<open>sysconf\<close>\<close>
  IsWow64Process :: "bool option"
  cosmo_runs_on :: "platform option"
  getpass :: "cstring option"
  ReadConsoleA :: string \<comment> \<open>what was typed, at most 1024 bytes\<close>

definition PLATFORM_OS :: "platform \<Rightarrow> string" where
  "PLATFORM_OS p =
     (case p of Linux \<Rightarrow> ''linux'' | Bsd \<Rightarrow> ''bsd'' | Macosx \<Rightarrow> ''macosx'' | Solaris \<Rightarrow> ''solaris'' | Haiku \<Rightarrow> ''haiku''
      | Aix \<Rightarrow> ''aix'' | Hurd \<Rightarrow> ''hurd'' | Cosmo \<Rightarrow> ''cosmopolitan'' | Windows \<Rightarrow> ''windows'')"

section \<open>Numbers in texts\<close>

text \<open>\<open>atoi\<close>, which converts the value of \<open>strtol\<close> (a \<open>long\<close> of 64 bits) to \<open>int\<close>.\<close>

definition decimal :: "cstring \<Rightarrow> int" where
  "decimal ds = int (foldl (\<lambda>a d. a * 10 + (code d - 48)) 0 ds)"

definition atoi :: "cstring \<Rightarrow> int" where
  "atoi s0 =
     (let s = dropWhile isspace_c s0;
          v = decimal (takeWhile isdigit_c (if peek s = CHR ''-'' \<or> peek s = CHR ''+'' then tl s else s)) in
      to_int32 (max (- (2 ^ 63)) (min (2 ^ 63 - 1) (if peek s = CHR ''-'' then - v else v))))"

text \<open>\<open>sscanf\<close> with the format \<open>%d.%d. ...\<close>: the numbers that it could read.\<close>

definition scan_int :: "cstring \<Rightarrow> (int \<times> cstring) option" where
  "scan_int s0 =
     (let s = dropWhile isspace_c s0; t = (if peek s = CHR ''-'' \<or> peek s = CHR ''+'' then tl s else s);
          ds = takeWhile isdigit_c t in
      if ds = [] then None
      else Some (to_int32 (if peek s = CHR ''-'' then - decimal ds else decimal ds), dropWhile isdigit_c t))"

fun scan_ints :: "nat \<Rightarrow> cstring \<Rightarrow> int list" where
  "scan_ints 0 s = []"
| "scan_ints (Suc n) s =
     (case scan_int s of
        None \<Rightarrow> []
      | Some (i, rest) \<Rightarrow> i # (case rest of c # t \<Rightarrow> if c = CHR ''.'' then scan_ints n t else [] | [] \<Rightarrow> []))"

definition or_old :: "int list \<Rightarrow> nat \<Rightarrow> int \<Rightarrow> int" where
  \<comment> \<open>a variable that was only assigned when there were that many numbers\<close>
  "or_old xs i old = (if i < length xs then xs ! i else old)"

section \<open>The version of the system\<close>

record OsVersionInfo =
  majorversion :: int
  minorversion :: int
  revision :: int
  description :: "cstring option"
  isalloc :: bool

definition no_info :: OsVersionInfo where
  "no_info = \<lparr>majorversion = 0, minorversion = 0, revision = 0, description = None, isalloc = False\<rparr>"

definition getKernelVersion :: "system_info \<Rightarrow> OsVersionInfo \<Rightarrow> bool \<times> OsVersionInfo" where
  "getKernelVersion s info =
     (case fixed_file_info s of
        None \<Rightarrow> (False, info)
      | Some (ms, ls) \<Rightarrow>
          (True, info\<lparr>majorversion := uint (drop_bit 16 ms), minorversion := uint (ms AND 0xFFFF),
                      revision := uint (drop_bit 16 ls)\<rparr>))"

definition getProductName :: "host \<Rightarrow> system_info \<Rightarrow> OsVersionInfo \<Rightarrow> OsVersionInfo" where
  "getProductName h s info =
     (let info1 = info\<lparr>description := Some ''Windows'', isalloc := False\<rparr> in
      case productName s of
        None \<Rightarrow> info1
      | Some wvalue \<Rightarrow>
          let value = WideCharToMultiByte (win h) wvalue in
          if 0 < length value then info1\<lparr>description := Some (c_view value), isalloc := True\<rparr> else info1)"

definition getversion_win :: "host \<Rightarrow> system_info \<Rightarrow> OsVersionInfo \<Rightarrow> bool \<times> OsVersionInfo" where
  "getversion_win h s info = getKernelVersion s (getProductName h s info)"

text \<open>Without a \<open>break\<close>, the cases 9 and 10 run on into the next one.\<close>

definition mac_name :: "int \<Rightarrow> string option \<Rightarrow> string option" where
  "mac_name minor old =
     (if minor = 4 then Some ''Mac OS X Tiger''
      else if minor = 5 then Some ''Mac OS X Leopard''
      else if minor = 6 then Some ''Mac OS X Snow Leopard''
      else if minor = 7 then Some ''OS X Lion''
      else if minor = 8 then Some ''OS X Mountain Lion''
      else if minor \<in> {9, 10, 11} then
        (let d9 = (if minor = 9 then Some ''OS X Mavericks'' else old);
             d10 = (if minor \<in> {9, 10} then Some ''OS X Yosemite'' else d9);
             d11 = Some ''OS X El Capitan'' in d11)
      else if minor = 12 then Some ''macOS Sierra''
      else if minor = 13 then Some ''macOS High Sierra''
      else if minor = 14 then Some ''macOS Mojave''
      else if minor = 15 then Some ''macOS Catalina''
      else old)"

definition getversion_mac :: "system_info \<Rightarrow> OsVersionInfo \<Rightarrow> fault + bool \<times> OsVersionInfo" where
  "getversion_mac s info0 =
     (let info = info0\<lparr>description := Some ''Mac OS'', majorversion := 10\<rparr>;
          read = (case ProductVersion s of
              Some versionString \<Rightarrow>
                let v = scan_ints 3 versionString in
                Inr (info\<lparr>majorversion := or_old v 0 (majorversion info), minorversion := or_old v 1 (minorversion info),
                         revision := or_old v 2 (revision info)\<rparr>)
            | None \<Rightarrow>
                let v = scan_ints 2 (kern_osrelease s) in
                if length v < 2 then Inl Uninitialised
                else Inr (info\<lparr>minorversion := v ! 0 - 4, revision := v ! 1\<rparr>)) in
      bind_f read (\<lambda>info1.
        Inr (True, if majorversion info1 = 10
                   then info1\<lparr>description := mac_name (minorversion info1) (description info1)\<rparr> else info1)))"

definition is_version_delim :: "char \<Rightarrow> bool" where
  "is_version_delim c \<longleftrightarrow> c = CHR ''.'' \<or> c = CHR ''-''"

definition getversion_posix :: "host \<Rightarrow> system_info \<Rightarrow> OsVersionInfo \<Rightarrow> bool \<times> OsVersionInfo" where
  "getversion_posix h s info0 =
     (let info = info0\<lparr>majorversion := 0, minorversion := 0, revision := 0\<rparr> in
      case uname s of
        None \<Rightarrow> (False, info\<lparr>description := Some (PLATFORM_OS (plat h))\<rparr>)
      | Some u \<Rightarrow>
          let info1 = info\<lparr>description := Some (sysname u), isalloc := True\<rparr>;
              v = map atoi (strtok_all is_version_delim (release u)) in
          (True, info1\<lparr>majorversion := or_old v 0 0, minorversion := or_old v 1 0, revision := or_old v 2 0\<rparr>))"

definition getversion :: "host \<Rightarrow> system_info \<Rightarrow> OsVersionInfo \<Rightarrow> fault + bool \<times> OsVersionInfo" where
  "getversion h s info =
     (if windows h then Inr (getversion_win h s info)
      else if plat h = Macosx then getversion_mac s info
      else if plat h \<in> {Bsd, Linux, Solaris, Hurd, Haiku, Cosmo} then Inr (getversion_posix h s info)
      else Inr (False, info))"

definition os_getversion :: "host \<Rightarrow> system_info \<Rightarrow> lua_ret" where
  "os_getversion h s =
     bind_f (getversion h s no_info) (\<lambda>(ok, info).
       if \<not> ok then Inr []
       else Inr [LTable
         ([(LStr ''majorversion'', LNum (majorversion info)), (LStr ''minorversion'', LNum (minorversion info)),
           (LStr ''revision'', LNum (revision info))]
          @ (case description info of None \<Rightarrow> [] | Some d \<Rightarrow> [(LStr ''description'', LStr d)]))])"

section \<open>The architecture\<close>

definition machine_name_win :: "16 word \<Rightarrow> string option" where
  "machine_name_win m =
     (if m = 0x8664 then Some ''x86_64'' else if m = 0x014C then Some ''x86''
      else if m = 0xAA64 then Some ''ARM64'' else if m = 0x01C4 then Some ''ARM'' else None)"

definition processor_name_win :: "16 word \<Rightarrow> string option" where
  "processor_name_win a =
     (if a = 9 then Some ''x86_64'' else if a = 0 then Some ''x86''
      else if a = 12 then Some ''ARM64'' else if a = 5 then Some ''ARM'' else None)"

definition or_next :: "'a option \<Rightarrow> 'a option \<Rightarrow> 'a option" where
  "or_next x y = (case x of None \<Rightarrow> y | Some _ \<Rightarrow> x)"

definition default_to :: "'a \<Rightarrow> 'a option \<Rightarrow> 'a" where
  "default_to d x = (case x of None \<Rightarrow> d | Some y \<Rightarrow> y)"

definition hostarch_win :: "system_info \<Rightarrow> cstring" where
  "hostarch_win s =
     default_to (PLATFORM_ARCHITECTURE s)
       (or_next (Option.bind (IsWow64Process2 s) (\<lambda>(processMachine, nativeMachine). machine_name_win nativeMachine))
                (processor_name_win (wProcessorArchitecture s)))"

definition hw_machine_name :: "cstring \<Rightarrow> string option" where
  "hw_machine_name m =
     (if strncmp_eq m ''arm64'' 5 then Some ''ARM64''
      else if strncmp_eq m ''x86_64'' 6 then Some ''x86_64''
      else if strncmp_eq m ''i386'' 4 then Some ''x86''
      else if strncmp_eq m ''ppc64'' 5 then Some ''ppc64''
      else if strncmp_eq m ''ppc'' 3 then Some ''ppc''
      else None)"

definition uts_name_mac :: "cstring \<Rightarrow> string option" where
  "uts_name_mac m =
     (if m = ''arm64'' then Some ''ARM64'' else if m = ''x86_64'' then Some ''x86_64''
      else if m = ''i386'' then Some ''x86'' else None)"

definition hostarch_mac :: "system_info \<Rightarrow> cstring" where
  "hostarch_mac s =
     (if (case hw_optional_arm64 s of Some v \<Rightarrow> v \<noteq> 0 | None \<Rightarrow> False) then ''ARM64''
      else
        default_to (PLATFORM_ARCHITECTURE s)
          (or_next (Option.bind (hw_machine s) (\<lambda>m. hw_machine_name (take 63 m)))
                   (Option.bind (uname s) (\<lambda>u. uts_name_mac (utsmachine u)))))"

definition uts_name :: "cstring \<Rightarrow> string option" where
  "uts_name m =
     (if m = ''x86_64'' \<or> m = ''amd64'' then Some ''x86_64''
      else if m = ''i386'' \<or> m = ''i686'' then Some ''x86''
      else if m = ''aarch64'' \<or> m = ''arm64'' then Some ''ARM64''
      else if m = ''arm'' \<or> strncmp_eq m ''armv'' 4 then Some ''ARM''
      else if m = ''riscv64'' then Some ''RISCV64''
      else if m = ''loongarch64'' then Some ''loongarch64''
      else if m = ''e2k'' then Some ''e2k''
      else if m = ''ppc64le'' \<or> m = ''ppc64'' then Some ''ppc64''
      else if m = ''ppc'' then Some ''ppc''
      else if m = ''mips64el'' then Some ''mips64el''
      else None)"

definition hostarch_posix :: "system_info \<Rightarrow> cstring" where
  "hostarch_posix s = default_to (PLATFORM_ARCHITECTURE s) (Option.bind (uname s) (\<lambda>u. uts_name (utsmachine u)))"

definition os_hostarch :: "host \<Rightarrow> system_info \<Rightarrow> lua_ret" where
  "os_hostarch h s =
     Inr [LStr (if windows h then hostarch_win s else if plat h = Macosx then hostarch_mac s else hostarch_posix s)]"

section \<open>The rest\<close>

definition host_os :: "host \<Rightarrow> system_info \<Rightarrow> fault + cstring option" where
  "host_os h s =
     (if plat h = Cosmo then
        (case cosmo_runs_on s of
           Some Linux \<Rightarrow> Inr (Some ''linux'')
         | Some Windows \<Rightarrow> Inr (Some ''windows'')
         | Some Macosx \<Rightarrow> Inr (Some ''macosx'')
         | Some Bsd \<Rightarrow> Inr (Some ''bsd'')
         | _ \<Rightarrow> if ndebug h then Inr None else Inl Aborted)
      else Inr (Some (PLATFORM_OS (plat h))))"

definition lua_pushstring :: "cstring option \<Rightarrow> lval" where
  "lua_pushstring s = (case s of None \<Rightarrow> LNil | Some t \<Rightarrow> LStr t)"

definition os_host :: "host \<Rightarrow> system_info \<Rightarrow> lua_ret" where
  "os_host h s = bind_f (host_os h s) (\<lambda>name. Inr [lua_pushstring name])"

definition do_getnumcpus :: "host \<Rightarrow> system_info \<Rightarrow> int" where
  "do_getnumcpus h s =
     (if windows h then processors s
      else if plat h \<in> {Linux, Cosmo} then
        (case sched_getaffinity s of Some cpus \<Rightarrow> foldl (\<lambda>count b. if b then count + 1 else count) 0 cpus | None \<Rightarrow> 0)
      else if plat h \<in> {Solaris, Aix, Macosx, Bsd, Hurd} then processors s
      else 0)"

definition os_getnumcpus :: "host \<Rightarrow> system_info \<Rightarrow> lua_ret" where
  "os_getnumcpus h s = (let result = do_getnumcpus h s in Inr (if 0 < result then [LInt result] else []))"

definition os_is64bit :: "host \<Rightarrow> system_info \<Rightarrow> lua_ret" where
  "os_is64bit h s =
     Inr [LBool (windows h \<and> (case IsWow64Process s of Some isWow \<Rightarrow> isWow | None \<Rightarrow> False))]"

text \<open>The console does not terminate what it reads: where no line end was read, the search for it goes on
  into the rest of the buffer, or behind it.\<close>

definition PASS_SIZE :: nat where "PASS_SIZE = 1024"

definition is_newline :: "char \<Rightarrow> bool" where
  "is_newline c \<longleftrightarrow> c = CHR 0x0D \<or> c = CHR 0x0A"

definition getpass_win :: "string \<Rightarrow> fault + cstring" where
  "getpass_win typed =
     (if \<exists>c \<in> set typed. is_newline c \<or> c = NUL then Inr (takeWhile (\<lambda>c. \<not> is_newline c \<and> c \<noteq> NUL) typed)
      else if length typed < PASS_SIZE then Inl Uninitialised
      else Inl OutOfBounds)"

definition os_getpass :: "host \<Rightarrow> system_info \<Rightarrow> lval list \<Rightarrow> lua_ret" where
  "os_getpass h s args =
     bind_f (luaL_checkstring args 1) (\<lambda>prompt.
       if windows h then bind_f (getpass_win (ReadConsoleA s)) (\<lambda>buffer. Inr [LStr buffer])
       else if plat h = Cosmo then Inl (LuaError ''Not supported by this platform'')
       else Inr [lua_pushstring (getpass s)])"

section \<open>Reading numbers back\<close>

lemma foldl_digits: "foldl (\<lambda>a d. a * 10 + (code d - 48)) x (ds @ es) = foldl (\<lambda>a d. a * 10 + (code d - 48)) (foldl (\<lambda>a d. a * 10 + (code d - 48)) x ds) es"
  by simp

lemma decimal_show_nat: "decimal (show_nat n) = int n"
proof -
  have "foldl (\<lambda>a d. a * 10 + (code d - 48)) 0 (show_nat n) = n"
  proof (induction n rule: show_nat.induct)
    case (1 n)
    have d: "code (char_of (48 + k)) = 48 + k" if "k < 10" for k :: nat using that by (simp add: code_def)
    show ?case
    proof (cases "n < 10")
      case True
      then show ?thesis using d [of n] by (subst show_nat.simps) simp
    next
      case False
      with 1 d [of "n mod 10"] show ?thesis by (subst show_nat.simps) (simp add: div_mult_mod_eq)
    qed
  qed
  then show ?thesis by (simp add: decimal_def)
qed

lemma show_nat_head: "\<exists>c t. show_nat n = c # t \<and> isdigit_c c"
  using show_nat_digits [of _ n] by (cases "show_nat n") auto

lemma digit_kinds: "isdigit_c c \<Longrightarrow> \<not> isspace_c c \<and> c \<noteq> CHR ''-'' \<and> c \<noteq> CHR ''+'' \<and> c \<noteq> CHR ''.'' \<and> \<not> is_version_delim c"
  by (auto simp: isdigit_c_def isspace_c_def is_version_delim_def code_def)

definition ends_number :: "cstring \<Rightarrow> bool" where
  "ends_number s \<longleftrightarrow> (case s of [] \<Rightarrow> True | c # _ \<Rightarrow> \<not> isdigit_c c)"

lemma span_number:
  assumes "ends_number rest"
  shows "takeWhile isdigit_c (show_nat n @ rest) = show_nat n" and "dropWhile isdigit_c (show_nat n @ rest) = rest"
proof -
  have all: "\<forall>c \<in> set (show_nat n). isdigit_c c" using show_nat_digits by blast
  show "takeWhile isdigit_c (show_nat n @ rest) = show_nat n" "dropWhile isdigit_c (show_nat n @ rest) = rest"
    using all assms by (cases rest; simp add: ends_number_def)+
qed

lemma number_start:
  "dropWhile isspace_c (show_nat n @ rest) = show_nat n @ rest"
  "peek (show_nat n @ rest) \<noteq> CHR ''-''" "peek (show_nat n @ rest) \<noteq> CHR ''+''"
  using show_nat_head [of n] digit_kinds by (auto simp: peek_def)

lemma to_int32_small: "n < 2 ^ 31 \<Longrightarrow> to_int32 (int n) = int n"
  by (simp add: to_int32_def)

lemma atoi_number: "n < 2 ^ 31 \<Longrightarrow> ends_number rest \<Longrightarrow> atoi (show_nat n @ rest) = int n"
  by (simp add: atoi_def number_start span_number decimal_show_nat to_int32_small Let_def)

lemma scan_number: "n < 2 ^ 31 \<Longrightarrow> ends_number rest \<Longrightarrow> scan_int (show_nat n @ rest) = Some (int n, rest)"
  by (simp add: scan_int_def number_start span_number decimal_show_nat to_int32_small Let_def)

lemma number_not_delim: "\<forall>c \<in> set (show_nat n). \<not> is_version_delim c"
  using show_nat_digits digit_kinds by blast

text \<open>C39: The version of a system whose release reads as three numbers with dots between them, whatever follows
  behind a dot or a dash, is reported as these numbers, on every POSIX system but macOS.\<close>

theorem version_roundtrip:
  assumes "plat h \<in> {Linux, Bsd, Solaris, Hurd, Haiku, Cosmo}" and "uname s = Some u" and "a < 2 ^ 31" and "b < 2 ^ 31" and "c < 2 ^ 31"
    and "release u = show_nat a @ ''.'' @ show_nat b @ ''.'' @ show_nat c @ rest" and "rest = [] \<or> is_version_delim (hd rest)"
  shows "os_getversion h s = Inr [LTable
    [(LStr ''majorversion'', LNum (int a)), (LStr ''minorversion'', LNum (int b)), (LStr ''revision'', LNum (int c)),
     (LStr ''description'', LStr (sysname u))]]"
proof -
  have dot: "is_version_delim CHR ''.''" by (simp add: is_version_delim_def)
  have c: "\<exists>more. strtok_all is_version_delim (show_nat c @ rest) = show_nat c # more"
  proof (cases rest)
    case Nil
    then show ?thesis using strtok_all_single [OF show_nat_not_Nil number_not_delim [of c]] by simp
  next
    case (Cons d r)
    with assms(7) show ?thesis using strtok_all_token [OF show_nat_not_Nil number_not_delim [of c], of d r] by simp
  qed
  then obtain more where c: "strtok_all is_version_delim (show_nat c @ rest) = show_nat c # more" by blast
  have "strtok_all is_version_delim (release u) = show_nat a # show_nat b # show_nat c # more"
    using strtok_all_token [OF show_nat_not_Nil number_not_delim dot, of a "show_nat b @ ''.'' @ show_nat c @ rest"]
      strtok_all_token [OF show_nat_not_Nil number_not_delim dot, of b "show_nat c @ rest"] c
    by (simp add: assms(6))
  moreover have "atoi (show_nat n) = int n" if "n < 2 ^ 31" for n
    using atoi_number [OF that, of "[]"] by (simp add: ends_number_def)
  ultimately have "map atoi (strtok_all is_version_delim (release u)) = int a # int b # int c # map atoi more"
    using assms(3-5) by simp
  then show ?thesis using assms(1,2)
    by (auto simp: os_getversion_def getversion_def getversion_posix_def or_old_def Let_def)
qed

text \<open>On macOS 10.9 and 10.10 the description is that of 10.11, for every revision: two cases of the switch have
  no break.\<close>

theorem macosx_names_run_on:
  assumes "plat h = Macosx" and "minor \<in> {9, 10, 11}" and "r < 2 ^ 31"
    and "ProductVersion s = Some (''10.'' @ show_nat minor @ ''.'' @ show_nat r)"
  shows "os_getversion h s = Inr [LTable
    [(LStr ''majorversion'', LNum 10), (LStr ''minorversion'', LNum (int minor)), (LStr ''revision'', LNum (int r)),
     (LStr ''description'', LStr ''OS X El Capitan'')]]"
proof -
  have ten: "show_nat 10 = ''10''" by (simp add: show_nat.simps char_of_def bit_iff_odd)
  have small: "minor < 2 ^ 31" using assms(2) by auto
  have m: "scan_int (show_nat minor @ CHR ''.'' # show_nat r) = Some (int minor, CHR ''.'' # show_nat r)"
    using scan_number [OF small, of "CHR ''.'' # show_nat r"] by (simp add: ends_number_def isdigit_c_def code_def)
  have e: "scan_int (show_nat r) = Some (int r, [])"
    using scan_number [OF assms(3), of "[]"] by (simp add: ends_number_def)
  have t: "scan_int (''10.'' @ show_nat minor @ ''.'' @ show_nat r) = Some (10, CHR ''.'' # show_nat minor @ CHR ''.'' # show_nat r)"
    using scan_number [of 10 "CHR ''.'' # show_nat minor @ CHR ''.'' # show_nat r"]
    by (simp add: ten ends_number_def isdigit_c_def code_def)
  have v: "scan_ints 3 (''10.'' @ show_nat minor @ ''.'' @ show_nat r) = [10, int minor, int r]"
    using t m e by (simp add: numeral_3_eq_3)
  have "mac_name (int minor) old = Some ''OS X El Capitan''" for old
    using assms(2) by (auto simp: mac_name_def Let_def)
  then show ?thesis using assms(1,4) v
    by (simp add: os_getversion_def getversion_def getversion_mac_def or_old_def no_info_def Let_def)
qed

definition sample_system :: system_info where
  "sample_system =
     \<lparr>uname = Some \<lparr>sysname = ''Linux'', release = ''6.1.12-x'', utsmachine = ''x86_64''\<rparr>, PLATFORM_ARCHITECTURE = ''x86_64'',
      fixed_file_info = None, productName = None, ProductVersion = Some ''10.9.5'', kern_osrelease = ''13.0.0'',
      IsWow64Process2 = None, wProcessorArchitecture = 9, hw_optional_arm64 = None, hw_machine = None,
      sched_getaffinity = Some [True, True], processors = 2, IsWow64Process = None, cosmo_runs_on = None,
      getpass = None, ReadConsoleA = ''x''\<rparr>"

lemma show_small: "show_nat 6 = ''6''" "show_nat 1 = ''1''" "show_nat 12 = ''12''" "show_nat 9 = ''9''" "show_nat 5 = ''5''"
  by (simp_all add: show_nat.simps char_of_def bit_iff_odd)

theorem version_roundtrip_witness:
  "os_getversion (sample_host Linux) sample_system = Inr [LTable
    [(LStr ''majorversion'', LNum 6), (LStr ''minorversion'', LNum 1), (LStr ''revision'', LNum 12),
     (LStr ''description'', LStr ''Linux'')]]"
  using version_roundtrip [of "sample_host Linux" sample_system "\<lparr>sysname = ''Linux'', release = ''6.1.12-x'', utsmachine = ''x86_64''\<rparr>"
      6 1 12 "''-x''"]
  by (simp add: sample_system_def show_small [unfolded One_nat_def] is_version_delim_def)

theorem macosx_names_run_on_witness:
  "os_getversion (sample_host Macosx) sample_system = Inr [LTable
    [(LStr ''majorversion'', LNum 10), (LStr ''minorversion'', LNum 9), (LStr ''revision'', LNum 5),
     (LStr ''description'', LStr ''OS X El Capitan'')]]"
  using macosx_names_run_on [of "sample_host Macosx" 9 5 sample_system]
  by (simp add: sample_system_def show_small)

end
