(* ===== verification/Compile.thy ===== *)
theory Compile
  imports Byte_Sink Startup
begin

text \<open>
  \<open>src/host/os_compile.c\<close>, which writes the compiled form of a script to a file, and
  \<open>src/host/debug_prompt.c\<close>, the interactive prompt. What the Lua core contributes is a parameter: the
  pieces in which \<open>lua_dump\<close> delivers a function, and the sequence of what \<open>loadline\<close> makes of the input.
\<close>

section \<open>Compiling a script\<close>

text \<open>\<open>lua_dump\<close> stops at the first piece for which the writer returns something other than 0, and returns it.\<close>

definition dump_writer :: "nat \<Rightarrow> string \<Rightarrow> world \<Rightarrow> int \<times> world" where
  "dump_writer f p w =
     (case fwrite p f w of (items, w1) \<Rightarrow> (if items \<noteq> 1 \<and> length p \<noteq> 0 then 1 else 0, w1))"

primrec lua_dump :: "nat \<Rightarrow> string list \<Rightarrow> world \<Rightarrow> int \<times> world" where
  "lua_dump f [] w = (0, w)"
| "lua_dump f (p # ps) w =
     (case dump_writer f p w of (status, w1) \<Rightarrow> if status \<noteq> 0 then (status, w1) else lua_dump f ps w1)"

definition compile_output :: "host \<Rightarrow> lval list \<Rightarrow> fault + targ" where
  "compile_output h args =
     (if windows h then map_sum id Wide (luaL_checkconvertlstring h args 2)
      else map_sum id Narrow (luaL_checkstring args 2))"

definition open_output :: "host \<Rightarrow> targ \<Rightarrow> world \<Rightarrow> nat option \<times> world" where
  "open_output h out w = (case out of Wide ws \<Rightarrow> wfopen_wb (win h) (takeWhile (\<lambda>c. c \<noteq> 0) ws) w | Narrow s \<Rightarrow> fopen_wb s w)"

definition os_compile :: "program \<Rightarrow> (string \<Rightarrow> string list) \<Rightarrow> lval list \<Rightarrow> lval list io" where
  \<comment> \<open>the second parameter delivers the pieces of the compiled function\<close>
  "os_compile p pieces_of args =
     checked (luaL_checkstring args 1) (\<lambda>input.
     checked (compile_output (on p) args) (\<lambda>out w.
       (case luaL_loadfilex p input None w of
          LoadFailed st msg \<Rightarrow>
            (bind_f (lua_pushfstring ''Unable to compile '%s': %s'' [FmtStr (Some input), FmtStr (Some (c_view msg))]) refuse, w)
        | Loaded chunk \<Rightarrow>
            (case open_output (on p) out w of
               (None, w1) \<Rightarrow>
                 (bind_f (lua_pushfstring ''unable to write to '%s''
                    [FmtStr (Some (case out of Wide ws \<Rightarrow> bytes_of_wide ws | Narrow s \<Rightarrow> s))]) refuse, w1)
             | (Some f, w1) \<Rightarrow>
                 let (status, w2) = lua_dump f (pieces_of chunk) w1 in
                 (accept, fclose f w2)))))"

section \<open>The prompt\<close>

text \<open>\<open>docall(L, 0, nres)\<close> with the function on top of the vals: of its results \<open>nres\<close> are kept (all of them for
  \<open>LUA_MULTRET\<close>); after a failure the message takes their place.\<close>

definition LUA_MULTRET :: int where "LUA_MULTRET = -1"

definition adjusted :: "int \<Rightarrow> val list \<Rightarrow> val list" where
  "adjusted nres rs =
     (if nres = LUA_MULTRET then rs else take (nat nres) rs @ replicate (nat nres - length rs) nil)"

definition docall :: "program \<Rightarrow> int \<Rightarrow> val list \<Rightarrow> (bool \<times> val list) run" where
  "docall p nres vals e =
     (case call_value p (last vals) [] e of
        (Inr rs, e1) \<Rightarrow> (Inr (True, butlast vals @ adjusted nres rs), e1)
      | (Inl x, e1) \<Rightarrow> if catchable x then (Inr (False, butlast vals @ [traceback p (raised x) 1 e1]), e1) else (Inl x, e1))"

datatype prompt_line = Chunk val | BadLine string \<comment> \<open>a message of the compiler\<close>

text \<open>One round of the loop, on what \<open>loadline\<close> left on the vals; messages go to \<open>stderr\<close>, which is the second
  component of the state.\<close>

definition l_message :: "string option \<Rightarrow> string \<Rightarrow> string" where
  \<comment> \<open>with \<open>progname\<close>, which is NULL while the prompt runs\<close>
  "l_message pname msg = (case pname of None \<Rightarrow> [] | Some s \<Rightarrow> s @ '': '') @ msg @ [CHR 0x0A]"

definition message_text :: "val \<Rightarrow> string" where
  \<comment> \<open>\<open>%s\<close> of the message, which may be NULL\<close>
  "message_text v = (case to_cstring v of None \<Rightarrow> ''(null)'' | Some s \<Rightarrow> s)"

definition prompt_round :: "program \<Rightarrow> prompt_line \<Rightarrow> engine \<times> string \<Rightarrow> (fault + unit) \<times> engine \<times> string" where
  "prompt_round p line st =
     (let (e, err) = st;
          called = (case line of
              BadLine msg \<Rightarrow> (Inr (False, [str msg]), e)
            | Chunk f \<Rightarrow> docall p 0 [f] e) in
      case called of
        (Inl x, e1) \<Rightarrow> (Inl x, e1, err)
      | (Inr (status, vals), e1) \<Rightarrow>
          let err1 = (if status then err else err @ l_message None (message_text (last vals)));
              vals1 = (if status then vals else butlast vals) in
          if status \<and> vals1 \<noteq> [] then
            (case call_value p (lua_getglobal ''print'' e1) vals1 e1 of
               (Inr _, e2) \<Rightarrow> (Inr (), e2, err1)
             | (Inl x, e2) \<Rightarrow>
                 if catchable x then
                   (Inr (), e2, err1 @ l_message None (''error calling 'print' ('' @ message_text (raised x) @ '')''))
                 else (Inl x, e2, err1))
          else (Inr (), e1, err1))"

primrec debug_prompt :: "program \<Rightarrow> prompt_line list \<Rightarrow> engine \<times> string \<Rightarrow> (fault + val list) \<times> engine \<times> string" where
  "debug_prompt p [] st = (Inr [], (fst st)\<lparr>printed := printed (fst st) @ [CHR 0x0A]\<rparr>, snd st)"
| "debug_prompt p (l # ls) st =
     (case prompt_round p l st of
        (Inl x, st1) \<Rightarrow> (Inl x, st1)
      | (Inr _, st1) \<Rightarrow> debug_prompt p ls st1)"

section \<open>Properties\<close>

text \<open>The writer of \<open>lua_dump\<close> is a byte sink: it fails exactly when a piece was not taken.\<close>

lemma dump_writer_eq: "dump_writer f p w = (case fwrite_bytes f p w of (n, w1) \<Rightarrow> (if n \<noteq> length p then 1 else 0, w1))"
proof -
  obtain items w1 where f: "fwrite p f w = (items, w1)" by fastforce
  then have "items \<le> 1" "p = [] \<Longrightarrow> items = 0" by (auto simp: fwrite_def split: option.splits node.splits if_splits)
  then have "items = 0 \<or> items = 1" by arith
  with f show ?thesis by (auto simp: dump_writer_def fwrite_bytes_def)
qed

lemma lua_dump_eq:
  "lua_dump f ps w = (case write_pieces (fwrite_bytes f) ps w of (r, w1) \<Rightarrow> (if r = None then 0 else 1, w1))"
  by (induction ps arbitrary: w) (auto simp: dump_writer_eq split: prod.splits)

text \<open>C37: \<open>os.compile\<close> of a script that can be loaded, to a place that can be written, on POSIX systems: where the disk has
  room the file holds what the compiler delivered. On a full disk the file is empty; in both cases the result
  is true, because the result of \<open>lua_dump\<close> is ignored. The stream is closed.\<close>

theorem os_compile_outcome:
  assumes "plat (on p) \<noteq> Windows" and "is_cstring input" and "is_cstring out" and "streams_ok w"
    and "luaL_loadfilex p input None w = Loaded chunk" and "fopen_wb out w = (Some f, w1)"
  shows "\<exists>w' q. os_compile p pieces_of [LStr input, LStr out] w = (accept, w') \<and> find_place w True out = Inr q
    \<and> File_System.contents w' q = (if disk_full w then [] else concat (pieces_of chunk))
    \<and> (\<forall>q'. q' \<noteq> q \<longrightarrow> lookup w' q' = lookup w q') \<and> open_streams w' = open_streams w"
proof -
  obtain q where q: "find_place w True out = Inr q" "f = next_stream w" "at_end f q w1" "File_System.contents w1 q = []"
      "only_file f q (w\<lparr>next_stream := Suc f\<rparr>) w1"
    using fopen_wb_at_end [OF assms(6)] by metis
  obtain r w2 where wr: "write_pieces (fwrite_bytes f) (pieces_of chunk) w1 = (r, w2)" by fastforce
  let ?w' = "fclose f w2"
  have run: "os_compile p pieces_of [LStr input, LStr out] w = (accept, ?w')"
    using assms(1-3,5,6) wr
    by (simp add: os_compile_def compile_output_def open_output_def lua_dump_eq Let_def)
  from write_pieces_file [OF wr assms(4) q(2-5)] run q(1) show ?thesis by blast
qed

theorem os_compile_outcome_witness:
  "\<exists>w' q. os_compile ((sample_program Linux)\<lparr>luaL_loadfilex := (\<lambda>n m w. Loaded ''x'')\<rparr>) (\<lambda>s. [s, ''y''])
      [LStr ''a'', LStr ''a.txt''] (sample_world\<lparr>disk_full := True\<rparr>) = (accept, w') \<and> File_System.contents w' q = []"
proof -
  let ?p = "(sample_program Linux)\<lparr>luaL_loadfilex := (\<lambda>n m w. Loaded ''x'')\<rparr>" and ?w = "sample_world\<lparr>disk_full := True\<rparr>"
  have so: "streams_ok ?w" by (simp add: streams_ok_def open_streams_def sample_world_def)
  have fp: "find_place ?w True ''a.txt'' = Inr [''home'', ''a.txt'']"
    by (simp add: find_place_def is_rooted_def sample_world_def lookup_def walk.simps)
  obtain w1 where o: "fopen_wb ''a.txt'' ?w = (Some 3, w1)"
    using fp by (simp add: fopen_wb_def open_stream_def) (simp add: sample_world_def lookup_def put_def open_stream_def)
  from os_compile_outcome [of ?p "''a''" "''a.txt''" ?w "''x''" 3 w1 "\<lambda>s. [s, ''y'']", OF _ _ _ so _ o]
  show ?thesis by auto
qed

text \<open>A prompt that runs the chunks and reports failures, but has no place where values could be printed.\<close>

primrec run_chunks :: "program \<Rightarrow> prompt_line list \<Rightarrow> engine \<times> string \<Rightarrow> (fault + val list) \<times> engine \<times> string" where
  "run_chunks p [] st = (Inr [], (fst st)\<lparr>printed := printed (fst st) @ [CHR 0x0A]\<rparr>, snd st)"
| "run_chunks p (l # ls) st =
     (case l of
        BadLine msg \<Rightarrow> run_chunks p ls (fst st, snd st @ c_view msg @ [CHR 0x0A])
      | Chunk f \<Rightarrow>
          (case call_value p f [] (fst st) of
             (Inr _, e1) \<Rightarrow> run_chunks p ls (e1, snd st)
           | (Inl x, e1) \<Rightarrow>
               if catchable x then run_chunks p ls (e1, snd st @ message_text (traceback p (raised x) 1 e1) @ [CHR 0x0A])
               else (Inl x, e1, snd st)))"

text \<open>C38: The prompt never prints the values of what is typed. It asks for no results, so the branch that calls
  \<open>print\<close> is not reached: for every input, every chunk and whatever the chunks return, it behaves like a
  prompt without that branch.\<close>

theorem debug_prompt_silent: "debug_prompt p ls st = run_chunks p ls st"
proof (induction ls arbitrary: st)
  case (Cons l ls)
  obtain e err where st: "st = (e, err)" by (cases st)
  show ?case
  proof (cases l)
    case (Chunk f)
    obtain r e1 where "call_value p f [] e = (r, e1)" by fastforce
    with Chunk st Cons show ?thesis
      by (cases r) (simp_all add: prompt_round_def docall_def adjusted_def LUA_MULTRET_def l_message_def)
  next
    case (BadLine msg)
    with st Cons show ?thesis by (simp add: prompt_round_def l_message_def message_text_def to_cstring_def to_string_def)
  qed
qed simp

end
