(* ===== verification/Http.thy ===== *)
theory Http
  imports Byte_Sink Startup
begin

text \<open>
  \<open>src/host/curl_utils.c\<close>, \<open>http_get.c\<close>, \<open>http_post.c\<close> and \<open>http_download.c\<close>: requests over libcurl. The
  library is a parameter: what a transfer delivers, as a function of the options that were set, is a
  sequence of reports of progress and pieces of data, and the code and texts that it ends with. As its
  documentation says, it stops with an error when a callback asks for that: a callback for progress by
  a result other than 0, the one for data by taking fewer bytes than it was given. The order in which
  \<open>lua_next\<close> visits a table is a parameter too. The buffer and the file are byte sinks.

  A number among the keys of a table of options ends in an error of \<open>lua_next\<close>, because the key is
  converted in place (unless the table has the converted key too, which is not modelled).
\<close>

section \<open>The library\<close>

datatype setopt =
    CURLOPT_URL cstring | CURLOPT_FOLLOWLOCATION int | CURLOPT_NOPROGRESS int | CURLOPT_FAILONERROR int
  | CURLOPT_USERAGENT cstring | CURLOPT_SSL_VERIFYHOST int | CURLOPT_SSL_VERIFYPEER int
  | CURLOPT_HTTPHEADER "cstring list" | CURLOPT_USERPWD cstring | CURLOPT_USERNAME cstring | CURLOPT_PASSWORD cstring
  | CURLOPT_TIMEOUT int | CURLOPT_TIMEOUT_MS int | CURLOPT_PROXY cstring | CURLOPT_HTTPGET int | CURLOPT_POST int
  | CURLOPT_POSTFIELDSIZE int | CURLOPT_POSTFIELDS string

datatype transfer_event = Progress int int \<comment> \<open>\<open>dltotal\<close> and \<open>dlnow\<close>\<close> | Data string

record transfer =
  events :: "transfer_event list"
  final_code :: nat
  errorBuffer :: "nat \<Rightarrow> cstring" \<comment> \<open>what is written there for a code\<close>
  response_code :: int

record curl_api =
  curl_easy_init :: bool \<comment> \<open>whether it succeeds\<close>
  curl_easy_perform :: "setopt list \<Rightarrow> transfer"
  curl_easy_strerror :: "nat \<Rightarrow> cstring"
  next_keys :: "engine \<Rightarrow> nat \<Rightarrow> lval list"

definition CURLE_OK :: nat where "CURLE_OK = 0"
definition CURLE_FAILED_INIT :: nat where "CURLE_FAILED_INIT = 2"
definition CURLE_WRITE_ERROR :: nat where "CURLE_WRITE_ERROR = 23"
definition CURLE_ABORTED_BY_CALLBACK :: nat where "CURLE_ABORTED_BY_CALLBACK = 42"

text \<open>A transfer with its callbacks; progress is only reported when a callback was set.\<close>

fun run_events ::
    "(int \<Rightarrow> int \<Rightarrow> 's \<Rightarrow> (fault + int) \<times> 's) option \<Rightarrow> (string \<Rightarrow> 's \<Rightarrow> nat \<times> 's) \<Rightarrow> transfer_event list \<Rightarrow> 's
       \<Rightarrow> (fault + nat option) \<times> 's" where
  \<comment> \<open>the code of a callback that stopped it\<close>
  "run_events progress deliver [] s = (Inr None, s)"
| "run_events progress deliver (Data d # es) s =
     (case deliver d s of (n, s1) \<Rightarrow> if n \<noteq> length d then (Inr (Some CURLE_WRITE_ERROR), s1) else run_events progress deliver es s1)"
| "run_events progress deliver (Progress t n # es) s =
     (case progress of
        None \<Rightarrow> run_events progress deliver es s
      | Some f \<Rightarrow>
          (case f t n s of
             (Inl x, s1) \<Rightarrow> (Inl x, s1)
           | (Inr r, s1) \<Rightarrow> if r \<noteq> 0 then (Inr (Some CURLE_ABORTED_BY_CALLBACK), s1) else run_events progress deliver es s1))"

section \<open>Callbacks\<close>

definition curlProgressCallback :: "program \<Rightarrow> val \<Rightarrow> int \<Rightarrow> int \<Rightarrow> int run" where
  "curlProgressCallback p callback dltotal dlnow e =
     (if dltotal = 0 then (Inr 0, e)
      else
        bind_run (premake_pcall p callback [Base (LNum dltotal), Base (LNum dlnow)]) (\<lambda>ret e1.
          case ret of
            Inr _ \<Rightarrow> (Inr 0, e1)
          | Inl err \<Rightarrow> bind_run (premake_handle_lua_error p err) (\<lambda>_ e2. (Inr (-1), e2)) e1) e)"

definition curlWriteCallback :: "string \<Rightarrow> Buffer \<Rightarrow> nat \<times> Buffer" where
  "curlWriteCallback ptr S = (length ptr, premake_buffer_puts S ptr)"


section \<open>The request\<close>

definition value_at :: "val list \<Rightarrow> nat \<Rightarrow> val option" where
  "value_at args i = (if 1 \<le> i \<and> i \<le> length args then Some (args ! (i - 1)) else None)"

definition check_string_at :: "val list \<Rightarrow> nat \<Rightarrow> fault + string" where
  "check_string_at args i =
     (case Option.bind (value_at args i) to_string of Some s \<Rightarrow> Inr s | None \<Rightarrow> Inl (BadArgument i))"

fun is_table :: "val option \<Rightarrow> nat option" where
  "is_table (Some (Table t)) = Some t"
| "is_table _ = None"

fun is_function :: "val \<Rightarrow> bool" where
  "is_function (Native _ _) = True"
| "is_function (Function _) = True"
| "is_function _ = False"

fun number_of :: "val \<Rightarrow> int option" where
  "number_of (Base (LInt i)) = Some i"
| "number_of (Base (LNum i)) = Some i"
| "number_of (Base (LStr s)) = str2int s"
| "number_of _ = None"

primrec header_values :: "val list \<Rightarrow> fault + cstring list" where
  "header_values [] = Inr []"
| "header_values (v # vs) =
     (case to_cstring v of
        None \<Rightarrow> Inl (LuaError ''bad argument #-1'')
      | Some item \<Rightarrow> bind_f (header_values vs) (\<lambda>items. Inr (item # items)))"

definition get_headers :: "curl_api \<Rightarrow> engine \<Rightarrow> nat \<Rightarrow> cstring list \<Rightarrow> fault + cstring list" where
  "get_headers c e t headers =
     bind_f (header_values (map (slots e t) (next_keys c e t))) (\<lambda>items. Inr (headers @ items))"

record curl_state =
  opts :: "setopt list" \<comment> \<open>in the order in which they were set\<close>
  callback :: "val option" \<comment> \<open>the value behind \<open>RefIndex\<close>, when \<open>L\<close> is set\<close>
  headers :: "cstring list"

definition add_opt :: "setopt \<Rightarrow> curl_state \<Rightarrow> curl_state" where
  "add_opt o' st = st\<lparr>opts := opts st @ [o']\<rparr>"

definition apply_option :: "curl_api \<Rightarrow> engine \<Rightarrow> cstring \<Rightarrow> val \<Rightarrow> curl_state \<Rightarrow> fault + curl_state" where
  "apply_option c e key v st =
     (let s = to_cstring v; n = number_of v in
      if key = ''headers'' \<and> is_table (Some v) \<noteq> None then
        bind_f (get_headers c e (the (is_table (Some v))) (headers st)) (\<lambda>hs.
          Inr (add_opt (CURLOPT_HTTPHEADER hs) (st\<lparr>headers := hs\<rparr>)))
      else if key = ''progress'' \<and> is_function v then Inr (st\<lparr>callback := Some v\<rparr>)
      else if key = ''userpwd'' \<and> s \<noteq> None then Inr (add_opt (CURLOPT_USERPWD (the s)) st)
      else if key = ''username'' \<and> s \<noteq> None then Inr (add_opt (CURLOPT_USERNAME (the s)) st)
      else if key = ''password'' \<and> s \<noteq> None then Inr (add_opt (CURLOPT_PASSWORD (the s)) st)
      else if key = ''timeout'' \<and> n \<noteq> None then Inr (add_opt (CURLOPT_TIMEOUT (the n)) st)
      else if key = ''timeoutms'' \<and> n \<noteq> None then Inr (add_opt (CURLOPT_TIMEOUT_MS (the n)) st)
      else if key = ''sslverifyhost'' \<and> n \<noteq> None then Inr (add_opt (CURLOPT_SSL_VERIFYHOST (the n)) st)
      else if key = ''sslverifypeer'' \<and> n \<noteq> None then Inr (add_opt (CURLOPT_SSL_VERIFYPEER (the n)) st)
      else if key = ''proxyurl'' \<and> s \<noteq> None then Inr (add_opt (CURLOPT_PROXY (the s)) st)
      else Inr st)"

primrec apply_options :: "curl_api \<Rightarrow> engine \<Rightarrow> nat \<Rightarrow> lval list \<Rightarrow> curl_state \<Rightarrow> fault + curl_state" where
  "apply_options c e t [] st = Inr st"
| "apply_options c e t (k # ks) st =
     (case lua_tostring k of
        None \<Rightarrow> Inl (LuaError ''bad argument #-2'')
      | Some key \<Rightarrow>
          bind_f (apply_option c e key (slots e t k) st) (\<lambda>st1.
            (case k of LStr _ \<Rightarrow> apply_options c e t ks st1 | _ \<Rightarrow> Inl (LuaError (''invalid key to '' @ quoted ''next'')))))"

definition AGENT_SIZE :: nat where "AGENT_SIZE = 1024"

text \<open>An index 0 stands for none, as in the code. \<open>None\<close> is returned where \<open>curl_easy_init\<close> fails.\<close>

definition curlRequest ::
    "program \<Rightarrow> curl_api \<Rightarrow> val list \<Rightarrow> nat \<Rightarrow> nat \<Rightarrow> nat \<Rightarrow> engine \<Rightarrow> fault + curl_state option" where
  "curlRequest p c args optionsIndex progressFnIndex headersIndex e =
     (if \<not> curl_easy_init c then Inr None
      else
        bind_f (store AGENT_SIZE (''Premake/'' @ PREMAKE_VERSION p)) (\<lambda>agent.
        bind_f (check_string_at args 1) (\<lambda>url.
        bind_f (lua_getfield (lua_getglobal ''_OPTIONS'' e) ''insecure'' e) (\<lambda>insecure.
          let st0 = \<lparr>opts = [CURLOPT_URL (c_view url), CURLOPT_FOLLOWLOCATION 1, CURLOPT_NOPROGRESS 1, CURLOPT_FAILONERROR 1,
                       CURLOPT_USERAGENT agent]
                      @ (if insecure \<noteq> nil then [CURLOPT_SSL_VERIFYHOST 0, CURLOPT_SSL_VERIFYPEER 0] else []),
                     callback = None, headers = []\<rparr> in
          bind_f
            (case is_table (value_at args optionsIndex) of
               Some t \<Rightarrow> apply_options c e t (next_keys c e t) st0
             | None \<Rightarrow>
                 let fn = value_at args progressFnIndex;
                     st1 = (if fn \<noteq> None \<and> is_function (the fn) then st0\<lparr>callback := fn\<rparr> else st0) in
                 (case is_table (value_at args headersIndex) of
                    Some t \<Rightarrow>
                      bind_f (get_headers c e t []) (\<lambda>hs. Inr (add_opt (CURLOPT_HTTPHEADER hs) (st1\<lparr>headers := hs\<rparr>)))
                  | None \<Rightarrow> Inr st1))
            (\<lambda>st2. Inr (Some (if callback st2 \<noteq> None then add_opt (CURLOPT_NOPROGRESS 0) st2 else st2)))))))"

section \<open>The functions\<close>

definition progress_of :: "program \<Rightarrow> curl_state \<Rightarrow> (int \<Rightarrow> int \<Rightarrow> engine \<times> 'b \<Rightarrow> (fault + int) \<times> engine \<times> 'b) option" where
  "progress_of p st =
     map_option (\<lambda>fn t n (e, b). case curlProgressCallback p fn t n e of (r, e1) \<Rightarrow> (r, e1, b)) (callback st)"

text \<open>The text of a failure, in a buffer of 1024 bytes of which 1023 are given to \<open>snprintf\<close>.\<close>

definition failure_text :: "curl_api \<Rightarrow> nat \<Rightarrow> cstring \<Rightarrow> cstring" where
  "failure_text c k errbuf = take 1022 (curl_easy_strerror c k @ [CHR 0x0A] @ errbuf @ [CHR 0x0A])"

definition ended :: "transfer \<Rightarrow> nat option \<Rightarrow> nat" where
  "ended tr stopped = (case stopped of None \<Rightarrow> final_code tr | Some k \<Rightarrow> k)"

definition body_results :: "curl_api \<Rightarrow> nat \<Rightarrow> cstring \<Rightarrow> Buffer \<Rightarrow> int \<Rightarrow> val list" where
  "body_results c k errbuf S responseCode =
     (if k \<noteq> CURLE_OK then [nil, str (failure_text c k errbuf)] else [str (Buffered_IO.contents S), str ''OK''])
     @ [Base (LNum responseCode)]"

definition transfer_body :: "program \<Rightarrow> curl_api \<Rightarrow> curl_state \<Rightarrow> val list run" where
  \<comment> \<open>the common end of \<open>http.get\<close> and \<open>http.post\<close>\<close>
  "transfer_body p c st e =
     (let tr = curl_easy_perform c (opts st) in
      case run_events (progress_of p st) (\<lambda>d (e, S). case curlWriteCallback d S of (n, S1) \<Rightarrow> (n, e, S1))
             (events tr) (e, premake_buffer_init) of
        (Inl x, e1, S) \<Rightarrow> (Inl x, e1)
      | (Inr stopped, e1, S) \<Rightarrow>
          let k = ended tr stopped in (Inr (body_results c k (errorBuffer tr k) S (response_code tr)), e1))"

definition http_get :: "program \<Rightarrow> curl_api \<Rightarrow> val list \<Rightarrow> val list run" where
  "http_get p c args e =
     (case (if is_table (value_at args 2) \<noteq> None then curlRequest p c args 2 0 0 e else curlRequest p c args 0 2 3 e) of
        Inl x \<Rightarrow> (Inl x, e)
      | Inr None \<Rightarrow> (Inr (body_results c CURLE_FAILED_INIT [] premake_buffer_init 0), e)
      | Inr (Some st) \<Rightarrow> transfer_body p c (add_opt (CURLOPT_HTTPGET 1) st) e)"

definition http_post :: "program \<Rightarrow> curl_api \<Rightarrow> val list \<Rightarrow> val list run" where
  "http_post p c args e =
     (case curlRequest p c args 3 0 0 e of
        Inl x \<Rightarrow> (Inl x, e)
      | Inr None \<Rightarrow> (Inr (body_results c CURLE_FAILED_INIT [] premake_buffer_init 0), e)
      | Inr (Some st) \<Rightarrow>
          (case check_string_at args 2 of
             Inl x \<Rightarrow> (Inl x, e)
           | Inr post \<Rightarrow>
               let st1 = add_opt (CURLOPT_POST 1) st;
                   st2 = (if 0 < length post
                          then add_opt (CURLOPT_POSTFIELDS post) (add_opt (CURLOPT_POSTFIELDSIZE (int (length post))) st1)
                          else st1) in
               transfer_body p c st2 e))"





section \<open>What a transfer leaves\<close>

definition data_of :: "transfer_event list \<Rightarrow> string list" where
  "data_of es = concat (map (\<lambda>x. case x of Data d \<Rightarrow> [d] | Progress _ _ \<Rightarrow> []) es)"

lemma data_of_simps [simp]:
  "data_of [] = []" "data_of (Data d # es) = d # data_of es" "data_of (Progress t n # es) = data_of es"
  by (simp_all add: data_of_def)


text \<open>The buffer takes everything, so a transfer that nobody stopped has put all of its data there, whatever the
  callback for progress did.\<close>

lemma run_events_buffer:
  assumes "run_events progress (\<lambda>d (e, S). case curlWriteCallback d S of (n, S1) \<Rightarrow> (n, e, S1)) es (e, S) = (Inr None, e1, S1)"
    and "buffer_ok S" and "\<And>f t n e S r e1 S1. progress = Some f \<Longrightarrow> f t n (e, S) = (r, e1, S1) \<Longrightarrow> S1 = S"
  shows "Buffered_IO.contents S1 = Buffered_IO.contents S @ concat (data_of es)"
  using assms(1,2)
proof (induction es arbitrary: e S)
  case (Cons x es)
  show ?case
  proof (cases x)
    case (Data d)
    with Cons.prems(1) have "run_events progress (\<lambda>d (e, S). case curlWriteCallback d S of (n, S1) \<Rightarrow> (n, e, S1)) es
        (e, premake_buffer_puts S d) = (Inr None, e1, S1)"
      by (simp add: curlWriteCallback_def)
    from Cons.IH [OF this puts_ok(1) [OF Cons.prems(2)]] show ?thesis
      using Data buffer.append_abs [OF Cons.prems(2)] by simp
  next
    case (Progress t n)
    show ?thesis
    proof (cases progress)
      case None
      with Progress Cons show ?thesis by simp
    next
      case (Some f)
      obtain r e2 S2 where f: "f t n (e, S) = (r, e2, S2)" by (cases "f t n (e, S)") auto
      with assms(3) [OF Some f] Cons.prems(1) Progress Some
      have "run_events progress (\<lambda>d (e, S). case curlWriteCallback d S of (n, S1) \<Rightarrow> (n, e, S1)) es (e2, S) = (Inr None, e1, S1)"
        by (auto split: sum.splits if_splits)
      from Cons.IH [OF this Cons.prems(2)] Progress show ?thesis by simp
    qed
  qed
qed simp

lemma progress_of_buffer: "progress_of p st = Some f \<Longrightarrow> f t n (e, S) = (r, e1, S1) \<Longrightarrow> S1 = S"
  by (auto simp: progress_of_def split: prod.splits)

lemma run_events_never_ok: "run_events progress deliver es s = (Inr (Some k), s1) \<Longrightarrow> k \<noteq> CURLE_OK"
proof (induction es arbitrary: s)
  case (Cons x es)
  then show ?case
    by (cases x) (auto simp: CURLE_WRITE_ERROR_def CURLE_ABORTED_BY_CALLBACK_def CURLE_OK_def
        split: prod.splits if_splits option.splits sum.splits)
qed simp

lemma transfer_body_results:
  assumes "transfer_body p c st e = (Inr rs, e1)"
  shows "(rs = [str (concat (data_of (events (curl_easy_perform c (opts st))))), str ''OK'',
               Base (LNum (response_code (curl_easy_perform c (opts st))))]
            \<and> final_code (curl_easy_perform c (opts st)) = CURLE_OK)
    \<or> (\<exists>k msg n. k \<noteq> CURLE_OK \<and> rs = [nil, str msg, n])"
proof -
  let ?tr = "curl_easy_perform c (opts st)"
  obtain r e2 S where run: "run_events (progress_of p st) (\<lambda>d (e, S). case curlWriteCallback d S of (n, S1) \<Rightarrow> (n, e, S1))
      (events ?tr) (e, premake_buffer_init) = (r, e2, S)"
    by (cases "run_events (progress_of p st) (\<lambda>d (e, S). case curlWriteCallback d S of (n, S1) \<Rightarrow> (n, e, S1))
      (events ?tr) (e, premake_buffer_init)") auto
  with assms obtain stopped where r: "r = Inr stopped" and
    rs: "rs = body_results c (ended ?tr stopped) (errorBuffer ?tr (ended ?tr stopped)) S (response_code ?tr)"
    by (cases r) (auto simp: transfer_body_def Let_def)
  show ?thesis
  proof (cases "ended ?tr stopped = CURLE_OK")
    case True
    have "stopped = None"
    proof (cases stopped)
      case (Some k)
      from run_events_never_ok [OF run [unfolded r Some]] True Some show ?thesis by (simp add: ended_def)
    qed
    moreover have "Buffered_IO.contents S = concat (data_of (events ?tr))"
      using run_events_buffer [OF run [unfolded r \<open>stopped = None\<close>] buffer.new_ok progress_of_buffer] buffer.new_abs by simp
    ultimately show ?thesis using True rs by (auto simp: body_results_def ended_def)
  qed (use rs in \<open>auto simp: body_results_def\<close>)
qed

lemma apply_option_extends:
  assumes "apply_option c e k v st = Inr st'" shows "\<exists>os. opts st' = opts st @ os"
proof (cases "k = ''headers'' \<and> is_table (Some v) \<noteq> None")
  case True
  with assms show ?thesis by (auto simp: apply_option_def add_opt_def Let_def bind_f_def split: sum.splits)
next
  case False
  with assms show ?thesis unfolding apply_option_def Let_def add_opt_def by (auto split: if_split_asm)
qed

lemma apply_options_extends: "apply_options c e t ks st = Inr st' \<Longrightarrow> \<exists>os. opts st' = opts st @ os"
proof (induction ks arbitrary: st)
  case (Cons k ks)
  from Cons.prems obtain s st1 where st1: "apply_option c e s (slots e t k) st = Inr st1" and rest: "apply_options c e t ks st1 = Inr st'"
    by (auto simp: bind_f_def split: option.splits sum.splits lval.splits)
  from Cons.IH [OF rest] apply_option_extends [OF st1] show ?case by auto
qed simp

text \<open>What a request has asked for, before the options of the script.\<close>

definition request_opts :: "cstring \<Rightarrow> cstring \<Rightarrow> bool \<Rightarrow> setopt list" where
  "request_opts url agent insecure =
     [CURLOPT_URL url, CURLOPT_FOLLOWLOCATION 1, CURLOPT_NOPROGRESS 1, CURLOPT_FAILONERROR 1, CURLOPT_USERAGENT agent]
     @ (if insecure then [CURLOPT_SSL_VERIFYHOST 0, CURLOPT_SSL_VERIFYPEER 0] else [])"

lemma curlRequest_cases:
  assumes "curlRequest p c args i j k e = Inr (Some st)"
  obtains url agent v where "check_string_at args 1 = Inr url" "lua_getfield (lua_getglobal ''_OPTIONS'' e) ''insecure'' e = Inr v"
    and "(\<exists>t st2. is_table (value_at args i) = Some t
            \<and> apply_options c e t (next_keys c e t) \<lparr>opts = request_opts (c_view url) agent (v \<noteq> nil), callback = None, headers = []\<rparr> = Inr st2
            \<and> st = (if callback st2 \<noteq> None then add_opt (CURLOPT_NOPROGRESS 0) st2 else st2))
      \<or> is_table (value_at args i) = None \<and> (\<exists>os. opts st = request_opts (c_view url) agent (v \<noteq> nil) @ os
          \<and> set os \<subseteq> range CURLOPT_HTTPHEADER \<union> {CURLOPT_NOPROGRESS 0})"
proof -
  from assms obtain agent url v where init: "curl_easy_init c"
    and pre: "store AGENT_SIZE (''Premake/'' @ PREMAKE_VERSION p) = Inr agent" "check_string_at args 1 = Inr url"
    and v: "lua_getfield (lua_getglobal ''_OPTIONS'' e) ''insecure'' e = Inr v"
    by (auto simp: curlRequest_def bind_f_def split: sum.splits if_split_asm)
  let ?st0 = "\<lparr>opts = request_opts (c_view url) agent (v \<noteq> nil), callback = None, headers = []\<rparr>"
  show thesis
  proof (rule that [OF pre(2) v, of agent], cases "is_table (value_at args i)")
    case (Some t)
    from assms init pre v Some show "(\<exists>t st2. is_table (value_at args i) = Some t \<and> apply_options c e t (next_keys c e t) ?st0 = Inr st2
            \<and> st = (if callback st2 \<noteq> None then add_opt (CURLOPT_NOPROGRESS 0) st2 else st2))
      \<or> is_table (value_at args i) = None \<and> (\<exists>os. opts st = request_opts (c_view url) agent (v \<noteq> nil) @ os
          \<and> set os \<subseteq> range CURLOPT_HTTPHEADER \<union> {CURLOPT_NOPROGRESS 0})"
      by (cases "apply_options c e t (next_keys c e t) ?st0")
        (simp_all add: curlRequest_def request_opts_def Let_def del: apply_options.simps)
  next
    case None
    with assms init pre v have "\<exists>os. opts st = opts ?st0 @ os \<and> set os \<subseteq> range CURLOPT_HTTPHEADER \<union> {CURLOPT_NOPROGRESS 0}"
      unfolding curlRequest_def Let_def bind_f_def request_opts_def
      by (auto simp: add_opt_def split: sum.splits option.splits if_split_asm)
    with None show "(\<exists>t st2. is_table (value_at args i) = Some t \<and> apply_options c e t (next_keys c e t) ?st0 = Inr st2
            \<and> st = (if callback st2 \<noteq> None then add_opt (CURLOPT_NOPROGRESS 0) st2 else st2))
      \<or> is_table (value_at args i) = None \<and> (\<exists>os. opts st = request_opts (c_view url) agent (v \<noteq> nil) @ os
          \<and> set os \<subseteq> range CURLOPT_HTTPHEADER \<union> {CURLOPT_NOPROGRESS 0})" by simp
  qed
qed

lemma curlRequest_url:
  assumes "curlRequest p c args i j k e = Inr (Some st)"
  shows "\<exists>url os. check_string_at args 1 = Inr url \<and> opts st = CURLOPT_URL (c_view url) # os"
proof -
  from assms show ?thesis
    by (rule curlRequest_cases) (auto simp: request_opts_def add_opt_def dest!: apply_options_extends split: if_split_asm)
qed

lemma http_get_cases:
  assumes "http_get p c args e = (Inr rs, e1)"
  shows "rs = body_results c CURLE_FAILED_INIT [] premake_buffer_init 0
    \<or> (\<exists>st st' i j k os. curlRequest p c args i j k e = Inr (Some st) \<and> opts st' = opts st @ os \<and> transfer_body p c st' e = (Inr rs, e1))"
proof -
  from assms obtain r i j k where r: "curlRequest p c args i j k e = Inr r"
    and run: "(case r of None \<Rightarrow> (Inr (body_results c CURLE_FAILED_INIT [] premake_buffer_init 0), e)
      | Some st \<Rightarrow> transfer_body p c (add_opt (CURLOPT_HTTPGET 1) st) e) = (Inr rs, e1)"
    by (auto simp: http_get_def split: sum.splits if_split_asm)
  show ?thesis
  proof (cases r)
    case (Some st)
    have "opts (add_opt (CURLOPT_HTTPGET 1) st) = opts st @ [CURLOPT_HTTPGET 1]" by (simp add: add_opt_def)
    with Some r run show ?thesis by auto
  qed (use run in auto)
qed

lemma http_post_cases:
  assumes "http_post p c args e = (Inr rs, e1)"
  shows "rs = body_results c CURLE_FAILED_INIT [] premake_buffer_init 0
    \<or> (\<exists>st st' i j k os. curlRequest p c args i j k e = Inr (Some st) \<and> opts st' = opts st @ os \<and> transfer_body p c st' e = (Inr rs, e1))"
proof -
  from assms obtain r where r: "curlRequest p c args 3 0 0 e = Inr r" by (auto simp: http_post_def split: sum.splits)
  show ?thesis
  proof (cases r)
    case None
    with assms r show ?thesis by (simp add: http_post_def)
  next
    case (Some st)
    with assms r obtain post where "check_string_at args 2 = Inr post" by (auto simp: http_post_def split: sum.splits)
    with assms r Some have "\<exists>st'. transfer_body p c st' e = (Inr rs, e1) \<and> (\<exists>os. opts st' = opts st @ os)"
      by (auto simp: http_post_def Let_def add_opt_def split: if_split_asm)
    with Some r show ?thesis by blast
  qed
qed

text \<open>C11: \<open>http.get\<close> and \<open>http.post\<close> never return part of a body. Whatever the arguments, the callbacks and the server do,
  a call that returns gives either the whole of the data that the library delivered in a transfer from the URL of
  the first argument that ended well, with \<open>OK\<close>, or nil and a message; the status is the third result.\<close>

theorem http_body_whole:
  assumes "http_get p c args e = (Inr rs, e1) \<or> http_post p c args e = (Inr rs, e1)"
  shows "(\<exists>url os. check_string_at args 1 = Inr url
        \<and> (let tr = curl_easy_perform c (CURLOPT_URL (c_view url) # os) in
           final_code tr = CURLE_OK
           \<and> rs = [str (concat (data_of (events tr))), str ''OK'', Base (LNum (response_code tr))]))
    \<or> (\<exists>msg n. rs = [nil, str msg, n])"
proof -
  have failed: "\<exists>msg n. body_results c CURLE_FAILED_INIT [] premake_buffer_init 0 = [nil, str msg, n]"
    by (simp add: body_results_def CURLE_OK_def CURLE_FAILED_INIT_def)
  have "rs = body_results c CURLE_FAILED_INIT [] premake_buffer_init 0
    \<or> (\<exists>st st' i j k os. curlRequest p c args i j k e = Inr (Some st) \<and> opts st' = opts st @ os \<and> transfer_body p c st' e = (Inr rs, e1))"
    using assms http_get_cases http_post_cases by blast
  then consider "rs = body_results c CURLE_FAILED_INIT [] premake_buffer_init 0"
    | st st' i j k os where "curlRequest p c args i j k e = Inr (Some st)" "opts st' = opts st @ os" "transfer_body p c st' e = (Inr rs, e1)"
    by blast
  then show ?thesis
  proof cases
    case 1
    with failed show ?thesis by auto
  next
    case (2 st st' i j k os)
    from curlRequest_url [OF 2(1)] obtain url os' where url: "check_string_at args 1 = Inr url" and os: "opts st' = CURLOPT_URL (c_view url) # os'"
      using 2(2) by auto
    from transfer_body_results [OF 2(3), unfolded os] url show ?thesis unfolding Let_def by blast
  qed
qed

definition sample_curl :: "nat \<Rightarrow> curl_api" where
  \<comment> \<open>two pieces of data, and a result\<close>
  "sample_curl k =
     \<lparr>curl_easy_init = True,
      curl_easy_perform = (\<lambda>os. \<lparr>events = [Data ''ab'', Progress 3 2, Data ''c''], final_code = k, errorBuffer = (\<lambda>_. ''x''), response_code = 200\<rparr>),
      curl_easy_strerror = (\<lambda>_. ''failed''), next_keys = (\<lambda>_ _. [])\<rparr>"

definition web_engine :: engine where
  \<comment> \<open>with an empty table \<open>_OPTIONS\<close>\<close>
  "web_engine = lua_setglobal ''_OPTIONS'' (Table 2) sample_engine"

lemma web_insecure: "lua_getfield (lua_getglobal ''_OPTIONS'' web_engine) ''insecure'' web_engine = Inr nil"
  by (simp add: web_engine_def lua_getfield_def) (simp add: lua_setglobal_def sample_engine_def GLOBALS_def Let_def)

section \<open>Requests without options\<close>

definition url_opts :: "program \<Rightarrow> bool \<Rightarrow> cstring \<Rightarrow> setopt list" where
  "url_opts p insecure url = request_opts url (''Premake/'' @ PREMAKE_VERSION p) insecure"

lemma curlRequest_plain:
  assumes "curl_easy_init c" and "length (PREMAKE_VERSION p) < 1016" and "value_at args 1 = Some (str url)"
    and "lua_getfield (lua_getglobal ''_OPTIONS'' e) ''insecure'' e = Inr v"
    and "value_at args i = None" and "value_at args j = None" and "value_at args k = None"
  shows "curlRequest p c args i j k e = Inr (Some \<lparr>opts = url_opts p (v \<noteq> nil) (c_view url), callback = None, headers = []\<rparr>)"
  using assms
  by (simp add: curlRequest_def check_string_at_def to_string_def AGENT_SIZE_def url_opts_def request_opts_def Let_def)

lemma value_at_simps [simp]:
  "value_at (a # args) 0 = None" "value_at (a # args) (Suc 0) = Some a" "value_at [] i = None"
  "value_at (a # args) (Suc (Suc i)) = value_at args (Suc i)"
  by (auto simp: value_at_def)



section \<open>Certificates\<close>

text \<open>The value that a setting gives to one of the two checks of a certificate.\<close>

fun verify_value :: "cstring \<Rightarrow> setopt \<Rightarrow> int option" where
  "verify_value key (CURLOPT_SSL_VERIFYPEER n) = (if key = ''sslverifypeer'' then Some n else None)"
| "verify_value key (CURLOPT_SSL_VERIFYHOST n) = (if key = ''sslverifyhost'' then Some n else None)"
| "verify_value key _ = None"

lemma apply_option_verify:
  assumes "apply_option c e k v st = Inr st'" and "o' \<in> set (opts st')" and "verify_value key o' = Some n"
  shows "o' \<in> set (opts st) \<or> k = key \<and> number_of v = Some n"
proof -
  have "opts st' = opts st \<or> (\<exists>x. opts st' = opts st @ [x] \<and> (\<forall>m key. verify_value key x = Some m \<longrightarrow> k = key \<and> number_of v = Some m))"
  proof (cases "k = ''headers'' \<and> is_table (Some v) \<noteq> None")
    case True
    with assms(1) show ?thesis by (auto simp: apply_option_def add_opt_def Let_def bind_f_def split: sum.splits)
  next
    case False
    with assms(1) show ?thesis unfolding apply_option_def Let_def add_opt_def
      by (auto split: if_split_asm)
  qed
  with assms(2,3) show ?thesis by auto
qed

lemma apply_options_verify:
  assumes "apply_options c e t ks st = Inr st'" and "o' \<in> set (opts st')" and "verify_value key o' = Some n"
  shows "o' \<in> set (opts st) \<or> (\<exists>k \<in> set ks. lua_tostring k = Some key \<and> number_of (slots e t k) = Some n)"
  using assms(1)
proof (induction ks arbitrary: st)
  case Nil
  with assms(2) show ?case by simp
next
  case (Cons k ks)
  from Cons.prems obtain s st1 where s: "lua_tostring k = Some s" and st1: "apply_option c e s (slots e t k) st = Inr st1"
    and rest: "apply_options c e t ks st1 = Inr st'"
    by (auto simp: bind_f_def split: option.splits sum.splits lval.splits)
  from Cons.IH [OF rest] apply_option_verify [OF st1 _ assms(3)] s show ?case by auto
qed

text \<open>C14: A request never weakens the check of a certificate by itself: the check of the peer or of the host is only set
  to a value that the script's own table of options asks for under that name, or to 0 when premake was run with
  \<open>--insecure\<close>; without either, the library's defaults are in force.\<close>

theorem insecure_only_asked:
  assumes "curlRequest p c args i j k e = Inr (Some st)" and "o' \<in> set (opts st)" and "verify_value key o' = Some n"
  shows "n = 0 \<and> lua_getfield (lua_getglobal ''_OPTIONS'' e) ''insecure'' e \<noteq> Inr nil
    \<or> (\<exists>t. is_table (value_at args i) = Some t
        \<and> (\<exists>x \<in> set (next_keys c e t). lua_tostring x = Some key \<and> number_of (slots e t x) = Some n))"
proof -
  from assms(1) obtain url agent v where v: "lua_getfield (lua_getglobal ''_OPTIONS'' e) ''insecure'' e = Inr v"
    and cases: "(\<exists>t st2. is_table (value_at args i) = Some t
            \<and> apply_options c e t (next_keys c e t) \<lparr>opts = request_opts (c_view url) agent (v \<noteq> nil), callback = None, headers = []\<rparr> = Inr st2
            \<and> st = (if callback st2 \<noteq> None then add_opt (CURLOPT_NOPROGRESS 0) st2 else st2))
      \<or> is_table (value_at args i) = None \<and> (\<exists>os. opts st = request_opts (c_view url) agent (v \<noteq> nil) @ os
          \<and> set os \<subseteq> range CURLOPT_HTTPHEADER \<union> {CURLOPT_NOPROGRESS 0})"
    by (rule curlRequest_cases)
  have base: "n = 0 \<and> v \<noteq> nil" if "o' \<in> set (request_opts (c_view url) agent (v \<noteq> nil))"
    using that assms(3) by (auto simp: request_opts_def split: if_split_asm)
  from cases show ?thesis
  proof (elim disjE exE conjE)
    fix t st2 assume t: "is_table (value_at args i) = Some t"
      and st2: "apply_options c e t (next_keys c e t) \<lparr>opts = request_opts (c_view url) agent (v \<noteq> nil), callback = None, headers = []\<rparr> = Inr st2"
      and st: "st = (if callback st2 \<noteq> None then add_opt (CURLOPT_NOPROGRESS 0) st2 else st2)"
    have "o' \<in> set (opts st2)" using assms(2,3) st by (auto simp: add_opt_def split: if_split_asm)
    from apply_options_verify [OF st2 this assms(3)] base v t show ?thesis by auto
  qed (use assms(2,3) base v in auto)
qed

lemma sample_version: "length (PREMAKE_VERSION (sample_program s)) < 1016"
  by (simp add: sample_program_def)

theorem http_body_whole_witness:
  "fst (http_get (sample_program Linux) (sample_curl 0) [str ''u''] web_engine) =
     Inr [str ''abc'', str ''OK'', Base (LNum 200)]"
proof -
  let ?p = "sample_program Linux" and ?os = "url_opts (sample_program Linux) False ''u'' @ [CURLOPT_HTTPGET 1]"
  have r: "curlRequest ?p (sample_curl 0) [str ''u''] 0 2 3 web_engine
      = Inr (Some \<lparr>opts = url_opts ?p False ''u'', callback = None, headers = []\<rparr>)"
    using curlRequest_plain [of "sample_curl 0" ?p "[str ''u'']" "''u''" web_engine nil 0 2 3] web_insecure sample_version
    by (simp add: sample_curl_def numeral_2_eq_2 numeral_3_eq_3)
  let ?tr = "curl_easy_perform (sample_curl 0) (opts (add_opt (CURLOPT_HTTPGET 1) \<lparr>opts = url_opts ?p False ''u'', callback = None, headers = []\<rparr>))"
  obtain S where run: "run_events None (\<lambda>d (e, S). case curlWriteCallback d S of (n, S1) \<Rightarrow> (n, e, S1)) (events ?tr)
      (web_engine, premake_buffer_init) = (Inr None, web_engine, S)"
    by (simp add: sample_curl_def curlWriteCallback_def)
  have "http_get ?p (sample_curl 0) [str ''u''] web_engine
      = transfer_body ?p (sample_curl 0) (add_opt (CURLOPT_HTTPGET 1) \<lparr>opts = url_opts ?p False ''u'', callback = None, headers = []\<rparr>) web_engine"
    using r by (simp add: http_get_def numeral_2_eq_2)
  also have "\<dots> = (Inr [str (Buffered_IO.contents S), str ''OK'', Base (LNum 200)], web_engine)"
    unfolding transfer_body_def Let_def progress_of_def
    using run by (simp add: add_opt_def sample_curl_def ended_def CURLE_OK_def body_results_def)
  finally have "\<exists>S. http_get ?p (sample_curl 0) [str ''u''] web_engine = (Inr [str S, str ''OK'', Base (LNum 200)], web_engine)"
    by blast
  then obtain S where g: "http_get ?p (sample_curl 0) [str ''u''] web_engine = (Inr [str S, str ''OK'', Base (LNum 200)], web_engine)"
    by blast
  from http_body_whole [OF disjI1 [OF g]] have "S = ''abc''" by (auto simp: sample_curl_def)
  with g show ?thesis by simp
qed


theorem insecure_only_asked_witness:
  "verify_value ''sslverifypeer'' (CURLOPT_SSL_VERIFYPEER 0) = Some 0
    \<and> lua_getfield (lua_getglobal ''_OPTIONS'' (set_field 2 (LStr ''insecure'') (str '''') web_engine)) ''insecure''
        (set_field 2 (LStr ''insecure'') (str '''') web_engine) \<noteq> Inr nil"
proof -
  let ?p = "sample_program Linux" and ?e = "set_field 2 (LStr ''insecure'') (str '''') web_engine"
  have i: "lua_getfield (lua_getglobal ''_OPTIONS'' ?e) ''insecure'' ?e = Inr (str '''')"
    by (simp add: web_engine_def lua_getfield_def lua_getglobal_def lua_setglobal_def set_field_def GLOBALS_def)
  have r: "curlRequest ?p (sample_curl 0) [str ''u''] 0 2 3 ?e
      = Inr (Some \<lparr>opts = url_opts ?p True ''u'', callback = None, headers = []\<rparr>)"
    using curlRequest_plain [of "sample_curl 0" ?p "[str ''u'']" "''u''" ?e "str ''''" 0 2 3, OF _ _ _ i] sample_version
    by (simp add: sample_curl_def numeral_2_eq_2 numeral_3_eq_3)
  from insecure_only_asked [OF r, of "CURLOPT_SSL_VERIFYPEER 0" "''sslverifypeer''" 0] show ?thesis
    by (auto simp: url_opts_def request_opts_def)
qed

end
