(* ===== verification/Shim.thy ===== *)
theory Shim
  imports Startup
begin

text \<open>
  \<open>src/host/lua_shimtable.h\<close> and \<open>src/contrib/luashim\<close>: how binary modules reach the Lua library of the host. The host
  puts the addresses of the functions into a table and the address of the table into the registry of Lua, under
  an integer; a module finds the entry by walking the nodes of the registry itself, and then forwards every
  function of the library through the table by position. The functions of the host's library are a parameter,
  a function of their names; so is the array of nodes that stands for the registry, which the Lua core builds.
\<close>

unbundle bit_operations_syntax

section \<open>The table\<close>

text \<open>The fields of the structure and the initialiser of the one instance, in their order.\<close>

definition shim_fields :: "string list" where
  "shim_fields =
    [''shimL_register'', ''shim_newstate'', ''shim_close'', ''shim_newthread'', ''shim_atpanic'', ''shim_version'',
     ''shim_absindex'', ''shim_gettop'', ''shim_settop'', ''shim_pushvalue'', ''shim_rotate'', ''shim_copy'',
     ''shim_checkstack'', ''shim_xmove'', ''shim_isnumber'', ''shim_isstring'', ''shim_iscfunction'',
     ''shim_isinteger'', ''shim_isuserdata'', ''shim_type'', ''shim_typename'', ''shim_tonumberx'',
     ''shim_tointegerx'', ''shim_toboolean'', ''shim_tolstring'', ''shim_rawlen'', ''shim_tocfunction'',
     ''shim_touserdata'', ''shim_tothread'', ''shim_topointer'', ''shim_arith'', ''shim_rawequal'',
     ''shim_compare'', ''shim_pushnil'', ''shim_pushnumber'', ''shim_pushinteger'', ''shim_pushlstring'',
     ''shim_pushstring'', ''shim_pushvfstring'', ''shim_pushcclosure'', ''shim_pushboolean'',
     ''shim_pushlightuserdata'', ''shim_pushthread'', ''shim_getglobal'', ''shim_gettable'', ''shim_getfield'',
     ''shim_geti'', ''shim_rawget'', ''shim_rawgeti'', ''shim_rawgetp'', ''shim_createtable'',
     ''shim_newuserdata'', ''shim_getmetatable'', ''shim_getuservalue'', ''shim_setglobal'', ''shim_settable'',
     ''shim_setfield'', ''shim_seti'', ''shim_rawset'', ''shim_rawseti'', ''shim_rawsetp'', ''shim_setmetatable'',
     ''shim_setuservalue'', ''shim_callk'', ''shim_pcallk'', ''shim_load'', ''shim_dump'', ''shim_yieldk'',
     ''shim_resume'', ''shim_status'', ''shim_isyieldable'', ''shim_gc'', ''shim_error'', ''shim_next'',
     ''shim_concat'', ''shim_len'', ''shim_stringtonumber'', ''shim_getallocf'', ''shim_setallocf'',
     ''shim_getstack'', ''shim_getinfo'', ''shim_getlocal'', ''shim_setlocal'', ''shim_getupvalue'',
     ''shim_setupvalue'', ''shim_upvalueid'', ''shim_upvaluejoin'', ''shim_sethook'', ''shim_gethook'',
     ''shim_gethookmask'', ''shim_gethookcount'', ''shimL_checkversion_'', ''shimL_getmetafield'',
     ''shimL_callmeta'', ''shimL_tolstring'', ''shimL_argerror'', ''shimL_checklstring'', ''shimL_optlstring'',
     ''shimL_checknumber'', ''shimL_optnumber'', ''shimL_checkinteger'', ''shimL_optinteger'',
     ''shimL_checkstack'', ''shimL_checktype'', ''shimL_checkany'', ''shimL_newmetatable'', ''shimL_setmetatable'',
     ''shimL_testudata'', ''shimL_checkudata'', ''shimL_where'', ''shimL_checkoption'', ''shimL_fileresult'',
     ''shimL_execresult'', ''shimL_ref'', ''shimL_unref'', ''shimL_loadfilex'', ''shimL_loadbufferx'',
     ''shimL_loadstring'', ''shimL_newstate'', ''shimL_len'', ''shimL_gsub'', ''shimL_setfuncs'',
     ''shimL_getsubtable'', ''shimL_traceback'', ''shimL_requiref'', ''shimL_buffinit'', ''shimL_prepbuffsize'',
     ''shimL_addlstring'', ''shimL_addstring'', ''shimL_addvalue'', ''shimL_pushresult'', ''shimL_pushresultsize'',
     ''shimL_buffinitsize'']"

definition s_shimTable :: "string list" where
  "s_shimTable =
    [''luaL_register'', ''lua_newstate'', ''lua_close'', ''lua_newthread'', ''lua_atpanic'', ''lua_version'',
     ''lua_absindex'', ''lua_gettop'', ''lua_settop'', ''lua_pushvalue'', ''lua_rotate'', ''lua_copy'',
     ''lua_checkstack'', ''lua_xmove'', ''lua_isnumber'', ''lua_isstring'', ''lua_iscfunction'', ''lua_isinteger'',
     ''lua_isuserdata'', ''lua_type'', ''lua_typename'', ''lua_tonumberx'', ''lua_tointegerx'', ''lua_toboolean'',
     ''lua_tolstring'', ''lua_rawlen'', ''lua_tocfunction'', ''lua_touserdata'', ''lua_tothread'',
     ''lua_topointer'', ''lua_arith'', ''lua_rawequal'', ''lua_compare'', ''lua_pushnil'', ''lua_pushnumber'',
     ''lua_pushinteger'', ''lua_pushlstring'', ''lua_pushstring'', ''lua_pushvfstring'', ''lua_pushcclosure'',
     ''lua_pushboolean'', ''lua_pushlightuserdata'', ''lua_pushthread'', ''lua_getglobal'', ''lua_gettable'',
     ''lua_getfield'', ''lua_geti'', ''lua_rawget'', ''lua_rawgeti'', ''lua_rawgetp'', ''lua_createtable'',
     ''lua_newuserdata'', ''lua_getmetatable'', ''lua_getuservalue'', ''lua_setglobal'', ''lua_settable'',
     ''lua_setfield'', ''lua_seti'', ''lua_rawset'', ''lua_rawseti'', ''lua_rawsetp'', ''lua_setmetatable'',
     ''lua_setuservalue'', ''lua_callk'', ''lua_pcallk'', ''lua_load'', ''lua_dump'', ''lua_yieldk'',
     ''lua_resume'', ''lua_status'', ''lua_isyieldable'', ''lua_gc'', ''lua_error'', ''lua_next'', ''lua_concat'',
     ''lua_len'', ''lua_stringtonumber'', ''lua_getallocf'', ''lua_setallocf'', ''lua_getstack'', ''lua_getinfo'',
     ''lua_getlocal'', ''lua_setlocal'', ''lua_getupvalue'', ''lua_setupvalue'', ''lua_upvalueid'',
     ''lua_upvaluejoin'', ''lua_sethook'', ''lua_gethook'', ''lua_gethookmask'', ''lua_gethookcount'',
     ''luaL_checkversion_'', ''luaL_getmetafield'', ''luaL_callmeta'', ''luaL_tolstring'', ''luaL_argerror'',
     ''luaL_checklstring'', ''luaL_optlstring'', ''luaL_checknumber'', ''luaL_optnumber'', ''luaL_checkinteger'',
     ''luaL_optinteger'', ''luaL_checkstack'', ''luaL_checktype'', ''luaL_checkany'', ''luaL_newmetatable'',
     ''luaL_setmetatable'', ''luaL_testudata'', ''luaL_checkudata'', ''luaL_where'', ''luaL_checkoption'',
     ''luaL_fileresult'', ''luaL_execresult'', ''luaL_ref'', ''luaL_unref'', ''luaL_loadfilex'',
     ''luaL_loadbufferx'', ''luaL_loadstring'', ''luaL_newstate'', ''luaL_len'', ''luaL_gsub'', ''luaL_setfuncs'',
     ''luaL_getsubtable'', ''luaL_traceback'', ''luaL_requiref'', ''luaL_buffinit'', ''luaL_prepbuffsize'',
     ''luaL_addlstring'', ''luaL_addstring'', ''luaL_addvalue'', ''luaL_pushresult'', ''luaL_pushresultsize'',
     ''luaL_buffinitsize'']"


section \<open>The functions of a module\<close>

text \<open>A function that forwards: its name, its parameters, the field that it calls through and what it passes.\<close>

datatype wrapper = forward (wname: string) (params: "string list") (through: string) (passed: "string list")

definition state_and_stack :: "wrapper list" where
  "state_and_stack =
    [forward ''luaL_register'' [''L'', ''libname'', ''l''] ''shimL_register'' [''L'', ''libname'', ''l''],
     forward ''lua_newstate'' [''f'', ''ud''] ''shim_newstate'' [''f'', ''ud''],
     forward ''lua_close'' [''L''] ''shim_close'' [''L''],
     forward ''lua_newthread'' [''L''] ''shim_newthread'' [''L''],
     forward ''lua_atpanic'' [''L'', ''panicf''] ''shim_atpanic'' [''L'', ''panicf''],
     forward ''lua_version'' [''L''] ''shim_version'' [''L''],
     forward ''lua_absindex'' [''L'', ''idx''] ''shim_absindex'' [''L'', ''idx''],
     forward ''lua_gettop'' [''L''] ''shim_gettop'' [''L''],
     forward ''lua_settop'' [''L'', ''idx''] ''shim_settop'' [''L'', ''idx''],
     forward ''lua_pushvalue'' [''L'', ''idx''] ''shim_pushvalue'' [''L'', ''idx''],
     forward ''lua_rotate'' [''L'', ''idx'', ''n''] ''shim_rotate'' [''L'', ''idx'', ''n''],
     forward ''lua_copy'' [''L'', ''fromidx'', ''toidx''] ''shim_copy'' [''L'', ''fromidx'', ''toidx''],
     forward ''lua_checkstack'' [''L'', ''n''] ''shim_checkstack'' [''L'', ''n''],
     forward ''lua_xmove'' [''from'', ''to'', ''n''] ''shim_xmove'' [''from'', ''to'', ''n'']]"

definition access_functions :: "wrapper list" where
  "access_functions =
    [forward ''lua_isnumber'' [''L'', ''idx''] ''shim_isnumber'' [''L'', ''idx''],
     forward ''lua_isstring'' [''L'', ''idx''] ''shim_isstring'' [''L'', ''idx''],
     forward ''lua_iscfunction'' [''L'', ''idx''] ''shim_iscfunction'' [''L'', ''idx''],
     forward ''lua_isinteger'' [''L'', ''idx''] ''shim_isinteger'' [''L'', ''idx''],
     forward ''lua_isuserdata'' [''L'', ''idx''] ''shim_isuserdata'' [''L'', ''idx''],
     forward ''lua_type'' [''L'', ''idx''] ''shim_type'' [''L'', ''idx''],
     forward ''lua_typename'' [''L'', ''tp''] ''shim_typename'' [''L'', ''tp''],
     forward ''lua_tonumberx'' [''L'', ''idx'', ''isnum''] ''shim_tonumberx'' [''L'', ''idx'', ''isnum''],
     forward ''lua_tointegerx'' [''L'', ''idx'', ''isnum''] ''shim_tointegerx'' [''L'', ''idx'', ''isnum''],
     forward ''lua_toboolean'' [''L'', ''idx''] ''shim_toboolean'' [''L'', ''idx''],
     forward ''lua_tolstring'' [''L'', ''idx'', ''len''] ''shim_tolstring'' [''L'', ''idx'', ''len''],
     forward ''lua_rawlen'' [''L'', ''idx''] ''shim_rawlen'' [''L'', ''idx''],
     forward ''lua_tocfunction'' [''L'', ''idx''] ''shim_tocfunction'' [''L'', ''idx''],
     forward ''lua_touserdata'' [''L'', ''idx''] ''shim_touserdata'' [''L'', ''idx''],
     forward ''lua_tothread'' [''L'', ''idx''] ''shim_tothread'' [''L'', ''idx''],
     forward ''lua_topointer'' [''L'', ''idx''] ''shim_topointer'' [''L'', ''idx''],
     forward ''lua_arith'' [''L'', ''op''] ''shim_arith'' [''L'', ''op''],
     forward ''lua_rawequal'' [''L'', ''idx1'', ''idx2''] ''shim_rawequal'' [''L'', ''idx1'', ''idx2''],
     forward ''lua_compare'' [''L'', ''idx1'', ''idx2'', ''op''] ''shim_compare'' [''L'', ''idx1'', ''idx2'', ''op'']]"

definition push_and_get :: "wrapper list" where
  "push_and_get =
    [forward ''lua_pushnil'' [''L''] ''shim_pushnil'' [''L''],
     forward ''lua_pushnumber'' [''L'', ''n''] ''shim_pushnumber'' [''L'', ''n''],
     forward ''lua_pushinteger'' [''L'', ''n''] ''shim_pushinteger'' [''L'', ''n''],
     forward ''lua_pushlstring'' [''L'', ''s'', ''len''] ''shim_pushlstring'' [''L'', ''s'', ''len''],
     forward ''lua_pushstring'' [''L'', ''s''] ''shim_pushstring'' [''L'', ''s''],
     forward ''lua_pushvfstring'' [''L'', ''fmt'', ''argp''] ''shim_pushvfstring'' [''L'', ''fmt'', ''argp''],
     forward ''lua_pushcclosure'' [''L'', ''fn'', ''n''] ''shim_pushcclosure'' [''L'', ''fn'', ''n''],
     forward ''lua_pushboolean'' [''L'', ''b''] ''shim_pushboolean'' [''L'', ''b''],
     forward ''lua_pushlightuserdata'' [''L'', ''p''] ''shim_pushlightuserdata'' [''L'', ''p''],
     forward ''lua_pushthread'' [''L''] ''shim_pushthread'' [''L''],
     forward ''lua_getglobal'' [''L'', ''name''] ''shim_getglobal'' [''L'', ''name''],
     forward ''lua_gettable'' [''L'', ''idx''] ''shim_gettable'' [''L'', ''idx''],
     forward ''lua_getfield'' [''L'', ''idx'', ''k''] ''shim_getfield'' [''L'', ''idx'', ''k''],
     forward ''lua_geti'' [''L'', ''idx'', ''n''] ''shim_geti'' [''L'', ''idx'', ''n''],
     forward ''lua_rawget'' [''L'', ''idx''] ''shim_rawget'' [''L'', ''idx''],
     forward ''lua_rawgeti'' [''L'', ''idx'', ''n''] ''shim_rawgeti'' [''L'', ''idx'', ''n''],
     forward ''lua_rawgetp'' [''L'', ''idx'', ''p''] ''shim_rawgetp'' [''L'', ''idx'', ''p''],
     forward ''lua_createtable'' [''L'', ''narr'', ''nrec''] ''shim_createtable'' [''L'', ''narr'', ''nrec''],
     forward ''lua_newuserdata'' [''L'', ''sz''] ''shim_newuserdata'' [''L'', ''sz''],
     forward ''lua_getmetatable'' [''L'', ''objindex''] ''shim_getmetatable'' [''L'', ''objindex''],
     forward ''lua_getuservalue'' [''L'', ''idx''] ''shim_getuservalue'' [''L'', ''idx'']]"

definition set_and_call :: "wrapper list" where
  "set_and_call =
    [forward ''lua_setglobal'' [''L'', ''name''] ''shim_setglobal'' [''L'', ''name''],
     forward ''lua_settable'' [''L'', ''idx''] ''shim_settable'' [''L'', ''idx''],
     forward ''lua_setfield'' [''L'', ''idx'', ''k''] ''shim_setfield'' [''L'', ''idx'', ''k''],
     forward ''lua_seti'' [''L'', ''idx'', ''n''] ''shim_seti'' [''L'', ''idx'', ''n''],
     forward ''lua_rawset'' [''L'', ''idx''] ''shim_rawset'' [''L'', ''idx''],
     forward ''lua_rawseti'' [''L'', ''idx'', ''n''] ''shim_rawseti'' [''L'', ''idx'', ''n''],
     forward ''lua_rawsetp'' [''L'', ''idx'', ''p''] ''shim_rawsetp'' [''L'', ''idx'', ''p''],
     forward ''lua_setmetatable'' [''L'', ''objindex''] ''shim_setmetatable'' [''L'', ''objindex''],
     forward ''lua_setuservalue'' [''L'', ''idx''] ''shim_setuservalue'' [''L'', ''idx''],
     forward ''lua_callk'' [''L'', ''nargs'', ''nresults'', ''ctx'', ''k''] ''shim_callk'' [''L'', ''nargs'', ''nresults'', ''ctx'', ''k''],
     forward ''lua_pcallk'' [''L'', ''nargs'', ''nresults'', ''errfunc'', ''ctx'', ''k''] ''shim_pcallk'' [''L'', ''nargs'', ''nresults'', ''errfunc'', ''ctx'', ''k''],
     forward ''lua_load'' [''L'', ''reader'', ''dt'', ''chunkname'', ''mode''] ''shim_load'' [''L'', ''reader'', ''dt'', ''chunkname'', ''mode''],
     forward ''lua_dump'' [''L'', ''writer'', ''data'', ''strip''] ''shim_dump'' [''L'', ''writer'', ''data'', ''strip''],
     forward ''lua_yieldk'' [''L'', ''nresults'', ''ctx'', ''k''] ''shim_yieldk'' [''L'', ''nresults'', ''ctx'', ''k''],
     forward ''lua_resume'' [''L'', ''from'', ''narg''] ''shim_resume'' [''L'', ''from'', ''narg''],
     forward ''lua_status'' [''L''] ''shim_status'' [''L''],
     forward ''lua_isyieldable'' [''L''] ''shim_isyieldable'' [''L''],
     forward ''lua_gc'' [''L'', ''what'', ''data''] ''shim_gc'' [''L'', ''what'', ''data''],
     forward ''lua_error'' [''L''] ''shim_error'' [''L''],
     forward ''lua_next'' [''L'', ''idx''] ''shim_next'' [''L'', ''idx''],
     forward ''lua_concat'' [''L'', ''n''] ''shim_concat'' [''L'', ''n''],
     forward ''lua_len'' [''L'', ''idx''] ''shim_len'' [''L'', ''idx''],
     forward ''lua_stringtonumber'' [''L'', ''s''] ''shim_stringtonumber'' [''L'', ''s''],
     forward ''lua_getallocf'' [''L'', ''ud''] ''shim_getallocf'' [''L'', ''ud''],
     forward ''lua_setallocf'' [''L'', ''f'', ''ud''] ''shim_setallocf'' [''L'', ''f'', ''ud'']]"

definition debug_functions :: "wrapper list" where
  "debug_functions =
    [forward ''lua_getstack'' [''L'', ''level'', ''ar''] ''shim_getstack'' [''L'', ''level'', ''ar''],
     forward ''lua_getinfo'' [''L'', ''what'', ''ar''] ''shim_getinfo'' [''L'', ''what'', ''ar''],
     forward ''lua_getlocal'' [''L'', ''ar'', ''n''] ''shim_getlocal'' [''L'', ''ar'', ''n''],
     forward ''lua_setlocal'' [''L'', ''ar'', ''n''] ''shim_setlocal'' [''L'', ''ar'', ''n''],
     forward ''lua_getupvalue'' [''L'', ''funcindex'', ''n''] ''shim_getupvalue'' [''L'', ''funcindex'', ''n''],
     forward ''lua_setupvalue'' [''L'', ''funcindex'', ''n''] ''shim_setupvalue'' [''L'', ''funcindex'', ''n''],
     forward ''lua_upvalueid'' [''L'', ''fidx'', ''n''] ''shim_upvalueid'' [''L'', ''fidx'', ''n''],
     forward ''lua_upvaluejoin'' [''L'', ''fidx1'', ''n1'', ''fidx2'', ''n2''] ''shim_upvaluejoin'' [''L'', ''fidx1'', ''n1'', ''fidx2'', ''n2''],
     forward ''lua_sethook'' [''L'', ''func'', ''mask'', ''count''] ''shim_sethook'' [''L'', ''func'', ''mask'', ''count''],
     forward ''lua_gethook'' [''L''] ''shim_gethook'' [''L''],
     forward ''lua_gethookmask'' [''L''] ''shim_gethookmask'' [''L''],
     forward ''lua_gethookcount'' [''L''] ''shim_gethookcount'' [''L'']]"

definition argument_functions :: "wrapper list" where
  "argument_functions =
    [forward ''luaL_checkversion_'' [''L'', ''ver'', ''sz''] ''shimL_checkversion_'' [''L'', ''ver'', ''sz''],
     forward ''luaL_getmetafield'' [''L'', ''obj'', ''e''] ''shimL_getmetafield'' [''L'', ''obj'', ''e''],
     forward ''luaL_callmeta'' [''L'', ''obj'', ''e''] ''shimL_callmeta'' [''L'', ''obj'', ''e''],
     forward ''luaL_tolstring'' [''L'', ''idx'', ''len''] ''shimL_tolstring'' [''L'', ''idx'', ''len''],
     forward ''luaL_argerror'' [''L'', ''arg'', ''extramsg''] ''shimL_argerror'' [''L'', ''arg'', ''extramsg''],
     forward ''luaL_checklstring'' [''L'', ''arg'', ''l''] ''shimL_checklstring'' [''L'', ''arg'', ''l''],
     forward ''luaL_optlstring'' [''L'', ''arg'', ''def'', ''l''] ''shimL_optlstring'' [''L'', ''arg'', ''def'', ''l''],
     forward ''luaL_checknumber'' [''L'', ''arg''] ''shimL_checknumber'' [''L'', ''arg''],
     forward ''luaL_optnumber'' [''L'', ''arg'', ''def''] ''shimL_optnumber'' [''L'', ''arg'', ''def''],
     forward ''luaL_checkinteger'' [''L'', ''arg''] ''shimL_checkinteger'' [''L'', ''arg''],
     forward ''luaL_optinteger'' [''L'', ''arg'', ''def''] ''shimL_optinteger'' [''L'', ''arg'', ''def''],
     forward ''luaL_checkstack'' [''L'', ''sz'', ''msg''] ''shimL_checkstack'' [''L'', ''sz'', ''msg''],
     forward ''luaL_checktype'' [''L'', ''arg'', ''t''] ''shimL_checktype'' [''L'', ''arg'', ''t''],
     forward ''luaL_checkany'' [''L'', ''arg''] ''shimL_checkany'' [''L'', ''arg''],
     forward ''luaL_newmetatable'' [''L'', ''tname''] ''shimL_newmetatable'' [''L'', ''tname''],
     forward ''luaL_setmetatable'' [''L'', ''tname''] ''shimL_setmetatable'' [''L'', ''tname''],
     forward ''luaL_testudata'' [''L'', ''ud'', ''tname''] ''shimL_testudata'' [''L'', ''ud'', ''tname'']]"

definition error_and_load :: "wrapper list" where
  "error_and_load =
    [forward ''luaL_checkudata'' [''L'', ''ud'', ''tname''] ''shimL_checkudata'' [''L'', ''ud'', ''tname''],
     forward ''luaL_where'' [''L'', ''lvl''] ''shimL_where'' [''L'', ''lvl''],
     forward ''luaL_checkoption'' [''L'', ''arg'', ''def'', ''lst''] ''shimL_checkoption'' [''L'', ''arg'', ''def'', ''lst''],
     forward ''luaL_fileresult'' [''L'', ''stat'', ''fname''] ''shimL_fileresult'' [''L'', ''stat'', ''fname''],
     forward ''luaL_execresult'' [''L'', ''stat''] ''shimL_execresult'' [''L'', ''stat''],
     forward ''luaL_ref'' [''L'', ''t''] ''shimL_ref'' [''L'', ''t''],
     forward ''luaL_unref'' [''L'', ''t'', ''ref''] ''shimL_unref'' [''L'', ''t'', ''ref''],
     forward ''luaL_loadfilex'' [''L'', ''filename'', ''mode''] ''shimL_loadfilex'' [''L'', ''filename'', ''mode''],
     forward ''luaL_loadbufferx'' [''L'', ''buff'', ''sz'', ''name'', ''mode''] ''shimL_loadbufferx'' [''L'', ''buff'', ''sz'', ''name'', ''mode''],
     forward ''luaL_loadstring'' [''L'', ''s''] ''shimL_loadstring'' [''L'', ''s''],
     forward ''luaL_newstate'' [] ''shimL_newstate'' []]"

definition buffer_functions :: "wrapper list" where
  "buffer_functions =
    [forward ''luaL_len'' [''L'', ''idx''] ''shimL_len'' [''L'', ''idx''],
     forward ''luaL_gsub'' [''L'', ''s'', ''p'', ''r''] ''shimL_gsub'' [''L'', ''s'', ''p'', ''r''],
     forward ''luaL_setfuncs'' [''L'', ''l'', ''nup''] ''shimL_setfuncs'' [''L'', ''l'', ''nup''],
     forward ''luaL_getsubtable'' [''L'', ''idx'', ''fname''] ''shimL_getsubtable'' [''L'', ''idx'', ''fname''],
     forward ''luaL_traceback'' [''L'', ''L1'', ''msg'', ''level''] ''shimL_traceback'' [''L'', ''L1'', ''msg'', ''level''],
     forward ''luaL_requiref'' [''L'', ''modname'', ''openf'', ''glb''] ''shimL_requiref'' [''L'', ''modname'', ''openf'', ''glb''],
     forward ''luaL_buffinit'' [''L'', ''B''] ''shimL_buffinit'' [''L'', ''B''],
     forward ''luaL_prepbuffsize'' [''B'', ''sz''] ''shimL_prepbuffsize'' [''B'', ''sz''],
     forward ''luaL_addlstring'' [''B'', ''s'', ''l''] ''shimL_addlstring'' [''B'', ''s'', ''l''],
     forward ''luaL_addstring'' [''B'', ''s''] ''shimL_addstring'' [''B'', ''s''],
     forward ''luaL_addvalue'' [''B''] ''shimL_addvalue'' [''B''],
     forward ''luaL_pushresult'' [''B''] ''shimL_pushresult'' [''B''],
     forward ''luaL_pushresultsize'' [''B'', ''sz''] ''shimL_pushresultsize'' [''B'', ''sz''],
     forward ''luaL_buffinitsize'' [''L'', ''B'', ''sz''] ''shimL_buffinitsize'' [''L'', ''B'', ''sz'']]"

definition luashim :: "wrapper list" where
  "luashim =
     state_and_stack @ access_functions @ push_and_get @ set_and_call @ debug_functions @ argument_functions @ error_and_load @ buffer_functions"


definition call_through ::
    "host \<Rightarrow> (string \<Rightarrow> 'v list \<Rightarrow> 's \<Rightarrow> (fault + 'v) \<times> 's) \<Rightarrow> string list option \<Rightarrow> wrapper \<Rightarrow> 'v list \<Rightarrow> 's \<Rightarrow> (fault + 'v) \<times> 's"
  where
  "call_through h library g_shimTable w args s =
     (case g_shimTable of
        None \<Rightarrow> (Inl (if ndebug h then OutOfBounds else Aborted), s)
      | Some table \<Rightarrow>
          (case map_of (zip shim_fields table) (through w) of
             None \<Rightarrow> (Inl OutOfBounds, s)
           | Some f \<Rightarrow> library f (map (\<lambda>a. the (map_of (zip (params w) args) a)) (passed w)) s))"

definition shim_call ::
    "host \<Rightarrow> (string \<Rightarrow> 'v list \<Rightarrow> 's \<Rightarrow> (fault + 'v) \<times> 's) \<Rightarrow> string list option \<Rightarrow> string \<Rightarrow> 'v list \<Rightarrow> 's \<Rightarrow> (fault + 'v) \<times> 's"
  where
  "shim_call h library g_shimTable name args s =
     (case find (\<lambda>w. wname w = name) luashim of
        None \<Rightarrow> (Inl OutOfBounds, s) \<comment> \<open>does not link\<close>
      | Some w \<Rightarrow> call_through h library g_shimTable w args s)"

text \<open>The two functions with variable arguments, \<open>argp\<close> being their list.\<close>

definition shim_pushfstring ::
    "host \<Rightarrow> (string \<Rightarrow> 'v list \<Rightarrow> 's \<Rightarrow> (fault + 'v) \<times> 's) \<Rightarrow> string list option \<Rightarrow> 'v \<Rightarrow> 'v \<Rightarrow> 'v \<Rightarrow> 's \<Rightarrow> (fault + 'v) \<times> 's"
  where
  "shim_pushfstring h library g_shimTable L fmt argp s =
     shim_call h library g_shimTable ''lua_pushvfstring'' [L, fmt, argp] s"

definition then_call :: "(fault + 'v) \<times> 's \<Rightarrow> ('s \<Rightarrow> (fault + 'v) \<times> 's) \<Rightarrow> (fault + 'v) \<times> 's" where
  "then_call r f = (case r of (Inl x, s) \<Rightarrow> (Inl x, s) | (Inr _, s) \<Rightarrow> f s)"

definition shim_error ::
    "host \<Rightarrow> (string \<Rightarrow> 'v list \<Rightarrow> 's \<Rightarrow> (fault + 'v) \<times> 's) \<Rightarrow> string list option \<Rightarrow> (int \<Rightarrow> 'v) \<Rightarrow> 'v \<Rightarrow> 'v \<Rightarrow> 'v \<Rightarrow> 's \<Rightarrow> (fault + 'v) \<times> 's"
  where
  "shim_error h library g_shimTable number L fmt argp s =
     then_call (shim_call h library g_shimTable ''luaL_where'' [L, number 1] s) (\<lambda>s1.
     then_call (shim_call h library g_shimTable ''lua_pushvfstring'' [L, fmt, argp] s1) (\<lambda>s2.
     then_call (shim_call h library g_shimTable ''lua_concat'' [L, number 2] s2) (\<lambda>s3.
     shim_call h library g_shimTable ''lua_error'' [L] s3)))"

section \<open>Finding the table\<close>

text \<open>A node of the array behind a table of Lua: its key as a type and the 64 bits of the union, the distance to the
  next node of the chain, and its value.\<close>

datatype key_kind = IntegerKey | OtherKey

record lua_node =
  key_kind :: key_kind
  key_bits :: "64 word"
  next_node :: int
  node_val :: val

definition hashpow2 :: "lua_node list \<Rightarrow> int \<Rightarrow> nat" where
  \<comment> \<open>\<open>lmod\<close> is a conjunction, for a size that is a power of two\<close>
  "hashpow2 t n = unat ((word_of_int n :: 32 word) AND (word_of_nat (length t) - 1))"

text \<open>The walk along a chain, which compares the bits of the key and not its type. \<open>None\<close> is a walk without end.\<close>

partial_function (option) walk_chain :: "lua_node list \<Rightarrow> 64 word \<Rightarrow> int \<Rightarrow> (fault + lua_node option) option" where
  "walk_chain t key i =
     (if i < 0 \<or> int (length t) \<le> i then Some (Inl OutOfBounds)
      else if key_bits (t ! nat i) = key then Some (Inr (Some (t ! nat i)))
      else if next_node (t ! nat i) = 0 then Some (Inr None)
      else walk_chain t key (i + next_node (t ! nat i)))"

definition findNode :: "lua_node list \<Rightarrow> int \<Rightarrow> (fault + lua_node option) option" where
  "findNode t key = walk_chain t (word_of_int key) (int (hashpow2 t key))"

definition SHIM_KEY :: int where "SHIM_KEY = 0x5348494D"

definition shimInitialize :: "host \<Rightarrow> lua_node list \<Rightarrow> (fault + nat) option" where
  \<comment> \<open>the address that \<open>g_shimTable\<close> gets\<close>
  "shimInitialize h registry =
     (case findNode registry SHIM_KEY of
        None \<Rightarrow> None
      | Some (Inl x) \<Rightarrow> Some (Inl x)
      | Some (Inr None) \<Rightarrow> Some (Inl (if ndebug h then OutOfBounds else Aborted))
      | Some (Inr (Some n)) \<Rightarrow>
          Some (case node_val n of Base (LUser address) \<Rightarrow> Inr address | _ \<Rightarrow> Inl Uninitialised))"

section \<open>Forwarding\<close>

definition host_name :: "string \<Rightarrow> string" where
  "host_name field = ''lua'' @ drop 4 field"

lemma table_names: "s_shimTable = map host_name shim_fields"
  by (simp add: s_shimTable_def shim_fields_def host_name_def)

lemma wrapper_fields: "map through luashim = shim_fields"
  by (simp add: luashim_def state_and_stack_def access_functions_def push_and_get_def set_and_call_def debug_functions_def
      argument_functions_def error_and_load_def buffer_functions_def shim_fields_def)

lemma wrappers_ok: "w \<in> set luashim \<Longrightarrow> wname w = host_name (through w) \<and> passed w = params w \<and> distinct (params w)"
proof -
  have "list_all (\<lambda>w. wname w = host_name (through w) \<and> passed w = params w \<and> distinct (params w)) luashim"
    by (simp add: luashim_def state_and_stack_def access_functions_def push_and_get_def set_and_call_def debug_functions_def
        argument_functions_def error_and_load_def buffer_functions_def host_name_def)
  then show "w \<in> set luashim \<Longrightarrow> wname w = host_name (through w) \<and> passed w = params w \<and> distinct (params w)"
    by (simp add: list_all_iff)
qed

lemma map_of_zip_map: "k \<in> set ks \<Longrightarrow> map_of (zip ks (map f ks)) k = Some (f k)"
  by (induction ks) auto

lemma pass_all: "length args = length ps \<Longrightarrow> distinct ps \<Longrightarrow> map (\<lambda>a. the (map_of (zip ps args) a)) ps = args"
  by (rule nth_equalityI) (simp_all add: map_of_zip_nth)

lemma call_through_forwards:
  assumes "w \<in> set luashim" and "length args = length (params w)"
  shows "call_through h library (Some s_shimTable) w args s = library (wname w) args s"
proof -
  have "through w \<in> set shim_fields" using assms(1) wrapper_fields by (metis image_eqI set_map)
  then have "map_of (zip shim_fields s_shimTable) (through w) = Some (wname w)"
    using wrappers_ok [OF assms(1)] by (simp add: table_names map_of_zip_map)
  then show ?thesis using wrappers_ok [OF assms(1)] pass_all [OF assms(2)] by (simp add: call_through_def)
qed


section \<open>The walk\<close>

text \<open>The nodes from a position to the end of its chain.\<close>

inductive chain :: "lua_node list \<Rightarrow> int \<Rightarrow> lua_node list \<Rightarrow> bool" for t where
  chain_last: "0 \<le> i \<Longrightarrow> i < int (length t) \<Longrightarrow> next_node (t ! nat i) = 0 \<Longrightarrow> chain t i [t ! nat i]"
| chain_step: "0 \<le> i \<Longrightarrow> i < int (length t) \<Longrightarrow> next_node (t ! nat i) \<noteq> 0 \<Longrightarrow> chain t (i + next_node (t ! nat i)) ns
    \<Longrightarrow> chain t i (t ! nat i # ns)"

lemma walk_chain_finds: "chain t i ns \<Longrightarrow> walk_chain t key i = Some (Inr (find (\<lambda>n. key_bits n = key) ns))"
  by (induction rule: chain.induct) (simp_all add: walk_chain.simps)

lemma chain_unique: "chain t i ns \<Longrightarrow> chain t i ns' \<Longrightarrow> ns' = ns"
proof (induction arbitrary: ns' rule: chain.induct)
  case (chain_last i)
  from chain_last(4,3) show ?case by (cases rule: chain.cases) auto
next
  case (chain_step i ns)
  from chain_step(6,3,5) show ?case by (cases rule: chain.cases) auto
qed



section \<open>From the host to the module\<close>



text \<open>The same node, when the key of another type comes first on the chain, makes the module take its value for
  the table.\<close>

lemma shim_confused:
  assumes "chain t (int (hashpow2 t SHIM_KEY)) (n # ns)" and "key_kind n = OtherKey" and "key_bits n = word_of_int SHIM_KEY"
    and "node_val n = Base (LUser address)"
  shows "shimInitialize h t = Some (Inr address)"
  using walk_chain_finds [OF assms(1)] assms(3,4) by (simp add: shimInitialize_def findNode_def)

lemma shim_functions:
  assumes "name \<in> set s_shimTable" and "list_all (\<lambda>w. wname w = name \<longrightarrow> length (params w) = length args) luashim"
  shows "shim_call h library (Some s_shimTable) name args = library name args"
proof -
  have "map wname luashim = s_shimTable"
    using wrappers_ok by (simp add: table_names wrapper_fields [symmetric])
  then have "\<exists>w \<in> set luashim. wname w = name" using assms(1) by (metis imageE set_map)
  then obtain w where w: "find (\<lambda>w. wname w = name) luashim = Some w"
    by (cases "find (\<lambda>w. wname w = name) luashim") (auto simp: find_None_iff)
  then have "w \<in> set luashim" "wname w = name" by (auto simp: find_Some_iff)
  then show ?thesis using assms(2) w by (intro ext) (simp add: shim_call_def call_through_forwards list_all_iff)
qed

lemma error_functions:
  "''luaL_where'' \<in> set s_shimTable" "''lua_pushvfstring'' \<in> set s_shimTable" "''lua_concat'' \<in> set s_shimTable"
  "''lua_error'' \<in> set s_shimTable"
  by (simp_all add: s_shimTable_def)

lemma error_arities:
  "list_all (\<lambda>w. (wname w = ''luaL_where'' \<longrightarrow> length (params w) = 2) \<and> (wname w = ''lua_pushvfstring'' \<longrightarrow> length (params w) = 3)
     \<and> (wname w = ''lua_concat'' \<longrightarrow> length (params w) = 2) \<and> (wname w = ''lua_error'' \<longrightarrow> length (params w) = 1)) luashim"
  by (simp add: luashim_def state_and_stack_def access_functions_def push_and_get_def set_and_call_def debug_functions_def
      argument_functions_def error_and_load_def buffer_functions_def)

lemma shim_error_forwards:
  "shim_error h library (Some s_shimTable) number L fmt argp s =
     then_call (library ''luaL_where'' [L, number 1] s) (\<lambda>s1.
     then_call (library ''lua_pushvfstring'' [L, fmt, argp] s1) (\<lambda>s2.
     then_call (library ''lua_concat'' [L, number 2] s2) (\<lambda>s3. library ''lua_error'' [L] s3)))"
  using error_arities by (simp add: shim_error_def shim_functions error_functions list_all_iff)


end
