(* ===== verification/Spec2Isabelle.thy ===== *)
theory Spec2Isabelle
  imports Prelude Lua_API Path_Absolute Path_Join Path_Normalize Path_Resolve Path_Relative
    String_Hash Buffered_IO Sha1 Criteria File_Contents Match Startup
    Zip Registry Platform Compile Http Shim
begin

text \<open>
  The host of Premake, a generator of build files: the C program under \<open>src/host\<close> that embeds a Lua
  interpreter, registers built-in functions in its tables \<open>path\<close>, \<open>os\<close>, \<open>string\<close>, \<open>buffered\<close>, \<open>term\<close>,
  \<open>criteria\<close>, \<open>debug\<close>, \<open>http\<close> and \<open>zip\<close>, finds and loads scripts from the disk or from the executable
  itself, and runs them. Everything else of Premake is written in Lua and only called from here.

  \<^bold>\<open>How the parts interact.\<close> The process starts in \<open>premake_main.c\<close>, initialises the interpreter
  (\<open>premake.c\<close>), which registers the functions, and runs the main script. Scripts are loaded by the
  functions of \<open>lua_auxlib.c\<close>, which look for files with \<open>os_locate.c\<close> and wrap what they load so that
  the working directory and two global variables follow the script. The scripts then call the built-in
  functions: the ones on paths and strings are pure but for the working directory; those on files act
  on the file system; \<open>os_match.c\<close>, \<open>criteria_matches.c\<close> and \<open>buffered_io.c\<close> keep objects between calls.
  Downloads and archives write files piece by piece through the same streams as \<open>os_writefile_ifnotequal.c\<close>.

  \<^bold>\<open>What the model is made of.\<close>
  \<^item> \<^theory_text>\<open>Prelude\<close>: bytes, C strings as lists of them, \<open>string.h\<close>, writes into buffers of a fixed size (\<open>store\<close>),
    and the ways in which a run can end badly (\<open>fault\<close>: an argument error, a Lua error, an access out of
    bounds, a read of uninitialised memory, a failed assertion). Every raise, early return and undefined
    behaviour of the source is a branch of a definition with one of these values.
  \<^item> \<^theory_text>\<open>Lua_API\<close>: the values that built-in functions take and return, with the argument checks of
    \<open>lauxlib\<close>, raw tables and the conversions of numbers. A pure built-in function maps the list of its
    arguments to a fault or the list of its results. \<^theory_text>\<open>Engine\<close> is the state of a running program: tables and
    closures with an identity, the globals of the C code, and the machine below.
  \<^item> \<^theory_text>\<open>File_System\<close> and \<^theory_text>\<open>Host_API\<close>: the machine. A POSIX file system with directories, files, links,
    permissions, streams, the working directory and the clock is defined; the Windows API is a record of
    arbitrary functions, so that what is proved of a Windows build holds for every behaviour of it.

  \<^bold>\<open>Theories and sources\<close> (all names under \<open>src/host\<close>; definitions have the names of the C functions).
  \<^item> \<^theory_text>\<open>Path_Absolute\<close>: \<open>path_isabsolute.c\<close>; the classification of a path against a grammar of roots,
    macros and environment variables (\<open>absolutetype_grammar\<close>).
  \<^item> \<^theory_text>\<open>Path_Join\<close>: \<open>path_join.c\<close>; the joining loop over its stack buffer: how much memory is enough and when
    it is read unwritten (\<open>path_join_memory\<close>), parts that climb, and that resolving a deferred join is the
    join (\<open>deferred_join_roundtrip\<close>).
  \<^item> \<^theory_text>\<open>Path_Normalize\<close>: \<open>path_normalize.c\<close>; the scanner equals a definition over components, its results are
    canonical, and they mean the same directory. \<^theory_text>\<open>Path_Resolve\<close>: \<open>path_translate.c\<close>, \<open>path_getabsolute.c\<close>.
    \<^theory_text>\<open>Path_Relative\<close>: \<open>path_getrelative.c\<close>, with the theorem that ties it to the former
    (\<open>getrelative_getabsolute\<close>).
  \<^item> \<^theory_text>\<open>String_Hash\<close>: \<open>string_startswith.c\<close>, \<open>string_endswith.c\<close>, \<open>string_hash.c\<close>, \<open>os_uuid.c\<close>,
    \<open>path_wildcards.c\<close>. \<^theory_text>\<open>Sha1\<close>: \<open>string_sha1.c\<close> against the standard. \<^theory_text>\<open>Buffered_IO\<close>: \<open>buffered_io.c\<close> as a
    refinement of an append-only string (locale \<open>byte_log\<close>). \<^theory_text>\<open>Criteria\<close>: \<open>criteria_matches.c\<close>.
  \<^item> \<^theory_text>\<open>File_Ops\<close>: \<open>os_stat.c\<close>, \<open>os_isfile.c\<close>, \<open>os_isdir.c\<close>, \<open>os_islink.c\<close>, \<open>os_mkdir.c\<close>, \<open>os_rmdir.c\<close>,
    \<open>os_remove.c\<close>, \<open>os_rename.c\<close>, \<open>os_chdir.c\<close>, \<open>os_getcwd.c\<close>, \<open>os_chmod.c\<close>, \<open>os_copyfile.c\<close>, \<open>os_linkdir.c\<close>,
    \<open>os_linkfile.c\<close>, \<open>os_realpath.c\<close>. \<^theory_text>\<open>File_Contents\<close>: \<open>os_comparefiles.c\<close>, \<open>os_writefile_ifnotequal.c\<close>,
    \<open>os_touchfile.c\<close>. \<^theory_text>\<open>Match\<close>: \<open>os_match.c\<close>, objects that own a stream, with every sequence of calls
    safe and the enumeration complete.
  \<^item> \<^theory_text>\<open>Search\<close>: \<open>os_pathsearch.c\<close>, \<open>os_locate.c\<close> and the search path of \<open>premake.c\<close>. \<^theory_text>\<open>Script_Loader\<close>:
    \<open>lua_auxlib.c\<close> and the embedded scripts. \<^theory_text>\<open>Startup\<close>: \<open>premake.c\<close>, \<open>premake.h\<close>, \<open>premake_main.c\<close>.
    \<^theory_text>\<open>Terminal\<close>: \<open>term_textColor.c\<close>.
  \<^item> \<^theory_text>\<open>Byte_Sink\<close>: the contract of whatever takes data piece by piece (locale \<open>byte_sink\<close>), with the
    streams of the file system as its instance and the append-only string as another. On it rest
    \<^theory_text>\<open>Zip\<close> (\<open>zip_extract.c\<close>, \<open>zip_list.c\<close>), \<^theory_text>\<open>Http\<close> (\<open>curl_utils.c\<close>, \<open>http_get.c\<close>, \<open>http_post.c\<close>,
    \<open>http_download.c\<close>) and \<^theory_text>\<open>Compile\<close> (\<open>os_compile.c\<close>; the theory also has \<open>debug_prompt.c\<close>).
  \<^item> \<^theory_text>\<open>Registry\<close>: \<open>os_getWindowsRegistry.c\<close>, \<open>os_listWindowsRegistry.c\<close>. \<^theory_text>\<open>Platform\<close>: \<open>os_getversion.c\<close>,
    \<open>os_hostarch.c\<close>, \<open>os_host.c\<close>, \<open>os_getnumcpus.c\<close>, \<open>os_is64bit.c\<close>, \<open>os_getpass.c\<close>.
  \<^item> \<^theory_text>\<open>Shim\<close>: \<open>lua_shimtable.h\<close> and \<open>src/contrib/luashim\<close>, the table through which binary modules reach
    the Lua library of the host.
  \<^item> This theory: what a script can rely on when it combines functions of different parts.

  \<^bold>\<open>Bounds, loops and fuel.\<close> Loops are structural recursions or have a measure, but for three that need
  not end and are partial functions into an option: the recursive \<open>do_mkdir\<close> (total on POSIX systems by
  \<open>os_mkdir_outcome\<close>, endless for a missing drive on Windows by \<open>os_mkdir_missing_drive\<close>), the loop over
  a table in \<open>path.translate\<close>, and the walk along the nodes of the registry in \<open>Shim\<close> (which ends on every
  finite chain). The resolution of links has a budget of 40, the \<open>SYMLOOP_MAX\<close> of Linux, beyond which the
  system reports \<open>ELOOP\<close>. Buffers have the sizes of the source: 0x4000 bytes for paths, 512 for
  the names of an archive, 1024 and 2048 for messages; writing beyond one is the fault \<open>OutOfBounds\<close>.
  Machine integers are words where they wrap (the hash, SHA-1, modes, attributes), and \<open>int\<close> elsewhere.

  \<^bold>\<open>Parameters.\<close> Code that is not in \<open>src/host\<close> is an argument of the definitions that use it, never
  defined here: the Lua compiler, interpreter and pattern matcher (\<open>program\<close>), the scripted functions
  that C code calls back, the shell, the environment, \<open>fnmatch\<close>, the Windows API and registry, libzip,
  libcurl, what the system says of itself, and the order in which \<open>lua_next\<close> visits a table.

  \<^bold>\<open>Not modelled.\<close> Failing allocations; memory that is not released (but for streams, which are
  counted); data that the C library keeps in the buffer of a stream; messages printed to the terminal by
  other code than the one modelled; names of Windows beyond their bytes. The files \<open>resource.h\<close> (identifiers
  of resources), the vendored libraries under \<open>src/contrib\<close> and \<open>src/binmodules\<close>, and the Lua part of the
  program are no part of the model.
\<close>

section \<open>Generating files again\<close>















end
